(* ===== verification/Prelude.thy ===== *)
theory Prelude
  imports Main "HOL-Library.Multiset"
begin

text \<open>
  Shared material of the development: the collections of rewrite rules the component
  theories extend, and generic facts about lists, maps and tables that several components
  use.  A database table is a list of rows; the SQL statements of the repositories are
  built from \<open>select_where\<close> and \<open>update_where\<close>.
\<close>

named_theorems sql_simps \<open>effect of the SQL statements on a table\<close>
named_theorems err_simps \<open>classification of error values\<close>
named_theorems frame_simps \<open>parts of a state that an operation leaves alone\<close>

section \<open>Tables\<close>

definition update_where :: "('r \<Rightarrow> bool) \<Rightarrow> ('r \<Rightarrow> 'r) \<Rightarrow> 'r list \<Rightarrow> 'r list" where
  "update_where p f rows = map (\<lambda>r. if p r then f r else r) rows"

definition affected :: "('r \<Rightarrow> bool) \<Rightarrow> 'r list \<Rightarrow> nat" where
  "affected p rows = length (filter p rows)"

lemma length_update_where [sql_simps, simp]: "length (update_where p f rows) = length rows"
  by (simp add: update_where_def)

lemma set_update_where [sql_simps]:
  "set (update_where p f rows) = (\<lambda>r. if p r then f r else r) ` set rows"
  by (simp add: update_where_def)

lemma map_update_where [sql_simps]:
  "(\<And>r. k (f r) = k r) \<Longrightarrow> map k (update_where p f rows) = map k rows"
  by (auto simp: update_where_def)

lemma update_where_none [sql_simps]:
  "(\<And>r. r \<in> set rows \<Longrightarrow> \<not> p r) \<Longrightarrow> update_where p f rows = rows"
  by (simp add: update_where_def map_idI)

lemma update_where_cong:
  "(\<And>r. r \<in> set rows \<Longrightarrow> p r = q r) \<Longrightarrow> update_where p f rows = update_where q f rows"
  by (simp add: update_where_def)

lemma affected_zero_iff [sql_simps]: "affected p rows = 0 \<longleftrightarrow> (\<forall>r \<in> set rows. \<not> p r)"
  by (auto simp: affected_def filter_empty_conv)

lemma affected_pos_iff [sql_simps]: "0 < affected p rows \<longleftrightarrow> (\<exists>r \<in> set rows. p r)"
  using affected_zero_iff [of p rows] by (metis gr0I less_nat_zero_code)

lemma affected_le: "affected p rows \<le> length rows"
  by (simp add: affected_def)

lemma affected_Nil [simp]: "affected p [] = 0"
  by (simp add: affected_def)

lemma affected_Cons [simp]: "affected p (r # rows) = (if p r then 1 else 0) + affected p rows"
  by (simp add: affected_def)

lemma affected_mono:
  "(\<And>r. r \<in> set rows \<Longrightarrow> p r \<Longrightarrow> q r) \<Longrightarrow> affected p rows \<le> affected q rows"
  by (induction rows) force+

section \<open>Rows addressed by a key\<close>

text \<open>With distinct keys the row of a key is unique, and a statement guarded by a key
  touches at most that row.\<close>

definition row_of :: "('r \<Rightarrow> 'k) \<Rightarrow> 'k \<Rightarrow> 'r list \<Rightarrow> 'r option" where
  "row_of key k rows = find (\<lambda>r. key r = k) rows"

lemma row_of_Nil [simp]: "row_of key k [] = None"
  by (simp add: row_of_def)

lemma row_of_Cons [simp]:
  "row_of key k (r # rows) = (if key r = k then Some r else row_of key k rows)"
  by (simp add: row_of_def)

lemma row_of_Some_iff:
  "distinct (map key rows) \<Longrightarrow> row_of key k rows = Some r \<longleftrightarrow> r \<in> set rows \<and> key r = k"
  by (induction rows) (auto simp: image_iff)

lemma row_of_SomeD: "row_of key k rows = Some r \<Longrightarrow> r \<in> set rows \<and> key r = k"
  by (induction rows) (auto split: if_splits)

lemma row_of_None_iff: "row_of key k rows = None \<longleftrightarrow> k \<notin> key ` set rows"
  by (induction rows) auto

lemma row_of_append:
  "row_of key k (xs @ ys) = (case row_of key k xs of None \<Rightarrow> row_of key k ys | Some r \<Rightarrow> Some r)"
  by (induction xs) auto

lemma row_of_update_where:
  "(\<And>r. key (f r) = key r) \<Longrightarrow>
   row_of key k (update_where p f rows) =
   map_option (\<lambda>r. if p r then f r else r) (row_of key k rows)"
  by (induction rows) (auto simp: update_where_def)

lemma distinct_key_eq:
  "distinct (map key rows) \<Longrightarrow> r \<in> set rows \<Longrightarrow> s \<in> set rows \<Longrightarrow> key r = key s \<Longrightarrow> r = s"
  by (induction rows) (auto simp: image_iff)

lemma affected_key:
  assumes "distinct (map key rows)" and "\<And>r. p r \<Longrightarrow> key r = k"
  shows "affected p rows \<le> 1"
  using assms(1)
proof (induction rows)
  case (Cons r rows)
  show ?case
  proof (cases "p r")
    case True
    with Cons.prems assms(2) have "affected p rows = 0"
      by (auto simp: affected_zero_iff image_iff)
    with True show ?thesis by simp
  qed (use Cons in simp)
qed simp

section \<open>Splitting at the last occurrence of an element\<close>

lemma append_Cons_last_unique:
  assumes "xs @ c # ys = xs' @ c # ys'" and "c \<notin> set ys" and "c \<notin> set ys'"
  shows "xs = xs' \<and> ys = ys'"
  using assms
proof (induction xs arbitrary: xs')
  case Nil
  then show ?case by (cases xs') auto
next
  case (Cons x xs)
  then show ?case by (cases xs') auto
qed

section \<open>Stable selection of the first rows in an order\<close>

definition first_by :: "('r \<Rightarrow> 'k::linorder) \<Rightarrow> nat \<Rightarrow> 'r list \<Rightarrow> 'r list" where
  "first_by k n rows = take n (sort_key k rows)"

lemma set_first_by: "set (first_by k n rows) \<subseteq> set rows"
  by (auto simp: first_by_def dest: in_set_takeD)

lemma length_first_by: "length (first_by k n rows) = min n (length rows)"
  by (simp add: first_by_def min.commute)

lemma sorted_first_by: "sorted (map k (first_by k n rows))"
  by (simp add: first_by_def take_map [symmetric] sorted_wrt_take)

lemma distinct_first_by: "distinct (map h rows) \<Longrightarrow> distinct (map h (first_by k n rows))"
proof -
  assume "distinct (map h rows)"
  moreover have "mset (map h (sort_key k rows)) = mset (map h rows)"
    by simp
  ultimately have "distinct (map h (sort_key k rows))"
    by (metis mset_eq_imp_distinct_iff)
  then show ?thesis
    by (simp add: first_by_def take_map [symmetric])
qed

text \<open>The selection takes the smallest keys: a row left out is not smaller than one taken.\<close>

lemma first_by_smallest:
  assumes "r \<in> set (first_by k n rows)" and "s \<in> set rows" and "s \<notin> set (first_by k n rows)"
  shows "k r \<le> k s"
proof -
  have "s \<in> set (drop n (sort_key k rows))"
    using assms(2,3) by (metis UnE append_take_drop_id first_by_def set_append set_sort)
  moreover have "sorted (map k (take n (sort_key k rows) @ drop n (sort_key k rows)))"
    by simp
  ultimately show ?thesis
    using assms(1) unfolding first_by_def map_append sorted_append by auto
qed

lemma first_by_all: "length rows \<le> n \<Longrightarrow> set (first_by k n rows) = set rows"
  by (simp add: first_by_def)

end
