(* ===== verification/Go_Errors.thy ===== *)
theory Go_Errors
  imports Prelude
begin

text \<open>
  Go's \<open>error\<close> values.  A sentinel is a package variable made by \<open>errors.New\<close> and
  compared by identity; \<open>fmt.Errorf\<close> without a wrapping verb makes a fresh error that
  equals no sentinel; with wrapping verbs it makes an error that carries its text and the
  errors it wraps.  \<open>errors.Is\<close> walks the tree of wrapped errors.  The sentinels are
  those of internal/event/application/error.go, internal/event/domain/errors.go,
  internal/event/application/outbox_worker.go and internal/platform/kafka/publisher.go, the
  two of Go's \<open>context\<close> package and the two of \<open>strconv\<close>.
\<close>

datatype sentinel =
    ErrInvalidEventType
  | ErrInvalidEventVersion
  | ErrInvalidSource
  | ErrInvalidEventSchema
  | ErrInvalidRequest
  | ErrPropertiesRequired
  | ErrTimestampRequired
  | ErrEventAlreadyExists
  | ErrEventNotFound
  | ErrShutdownTimeout
  | ErrEmptyPayload
  | ErrInvalidPayload
  | Canceled
  | DeadlineExceeded
  | ErrSyntax
  | ErrRange

primrec application_error_text :: "sentinel \<Rightarrow> string" where
  "application_error_text ErrInvalidEventType = ''unsupported event type''"
| "application_error_text ErrInvalidEventVersion = ''unsupported event version''"
| "application_error_text ErrInvalidSource = ''unsupported event source''"
| "application_error_text ErrInvalidEventSchema = ''invalid event schema''"
| "application_error_text ErrInvalidRequest = ''invalid request''"
| "application_error_text ErrPropertiesRequired = ''properties is required''"
| "application_error_text ErrTimestampRequired = ''timestamp is required''"
| "application_error_text ErrEventAlreadyExists = ''event already exists''"
| "application_error_text ErrEventNotFound = ''event not found''"
| "application_error_text ErrShutdownTimeout =
     ''outbox worker: shutdown timeout exceeded, in-flight work canceled''"
| "application_error_text ErrEmptyPayload = ''kafka publisher: outbox payload is empty''"
| "application_error_text ErrInvalidPayload =
     ''kafka publisher: outbox payload is not valid JSON''"
| "application_error_text Canceled = ''context canceled''"
| "application_error_text DeadlineExceeded = ''context deadline exceeded''"
| "application_error_text ErrSyntax = ''invalid syntax''"
| "application_error_text ErrRange = ''value out of range''"

datatype gerror =
    Sentinel sentinel
  | ErrorString string
  | WrapError string "gerror list"

type_synonym 'a result = "gerror + 'a"

text \<open>An operation that returns only an error returns \<open>None\<close> for \<open>nil\<close>.\<close>

type_synonym failure = "gerror option"

fun error_text :: "gerror \<Rightarrow> string" where
  "error_text (Sentinel s) = application_error_text s"
| "error_text (ErrorString t) = t"
| "error_text (WrapError t es) = t"

fun is_err :: "gerror \<Rightarrow> sentinel \<Rightarrow> bool" where
  "is_err (Sentinel s) t = (s = t)"
| "is_err (ErrorString _) t = False"
| "is_err (WrapError _ es) t = list_ex (\<lambda>e. is_err e t) es"

text \<open>\<open>fmt.Errorf(prefix + "%w", e)\<close>.\<close>

definition wrapf :: "string \<Rightarrow> gerror \<Rightarrow> gerror" where
  "wrapf prefix e = WrapError (prefix @ error_text e) [e]"

lemma is_err_wrapf [simp, err_simps]: "is_err (wrapf prefix e) t = is_err e t"
  by (simp add: wrapf_def)

lemma error_text_wrapf [simp, err_simps]: "error_text (wrapf prefix e) = prefix @ error_text e"
  by (simp add: wrapf_def)

lemma wrapf_neq_Sentinel [simp, err_simps]: "wrapf prefix e \<noteq> Sentinel s"
  by (simp add: wrapf_def)

text \<open>The test the worker and the Kafka publisher make for a canceled context.\<close>

definition is_ctx_error :: "gerror \<Rightarrow> bool" where
  "is_ctx_error e \<longleftrightarrow> is_err e Canceled \<or> is_err e DeadlineExceeded"

lemma is_ctx_error_wrapf [simp, err_simps]: "is_ctx_error (wrapf prefix e) = is_ctx_error e"
  by (simp add: is_ctx_error_def)

lemma is_ctx_error_ErrorString [simp, err_simps]: "\<not> is_ctx_error (ErrorString t)"
  by (simp add: is_ctx_error_def)

lemma is_ctx_error_Sentinel [simp, err_simps]:
  "is_ctx_error (Sentinel s) \<longleftrightarrow> s = Canceled \<or> s = DeadlineExceeded"
  by (auto simp: is_ctx_error_def)

section \<open>Results\<close>

definition is_ok :: "'a result \<Rightarrow> bool" where
  "is_ok r = (case r of Inl _ \<Rightarrow> False | Inr _ \<Rightarrow> True)"

lemma is_ok_simps [simp]: "is_ok (Inr x)" "\<not> is_ok (Inl e)"
  by (simp_all add: is_ok_def)

text \<open>Sequencing of fallible calls: the early return on an error.\<close>

definition bind_result :: "'a result \<Rightarrow> ('a \<Rightarrow> 'b result) \<Rightarrow> 'b result" where
  "bind_result r f = (case r of Inl e \<Rightarrow> Inl e | Inr x \<Rightarrow> f x)"

lemma bind_result_simps [simp]:
  "bind_result (Inl e) f = Inl e" "bind_result (Inr x) f = f x"
  by (simp_all add: bind_result_def)

lemma bind_result_Inr_iff:
  "bind_result r f = Inr y \<longleftrightarrow> (\<exists>x. r = Inr x \<and> f x = Inr y)"
  by (cases r) auto

lemma bind_result_Inl_iff:
  "bind_result r f = Inl e \<longleftrightarrow> r = Inl e \<or> (\<exists>x. r = Inr x \<and> f x = Inl e)"
  by (cases r) auto

end
