(* ===== verification/Go_Strings.thy ===== *)
theory Go_Strings
  imports Go_Errors
begin

text \<open>
  The string functions of Go's standard library that the program uses: decimal printing of
  integers (\<open>%d\<close>), \<open>strconv.Atoi\<close> and \<open>strconv.ParseInt\<close> with base 10,
  \<open>strings.Split\<close> on one byte and \<open>strings.TrimSpace\<close>.  Strings are byte
  strings, as in Go.
\<close>

section \<open>Decimal integers\<close>

definition digit_char :: "nat \<Rightarrow> char" where
  "digit_char d = char_of (48 + d)"

definition digit_val :: "char \<Rightarrow> nat option" where
  "digit_val c = (let n = of_char c :: nat in if 48 \<le> n \<and> n \<le> 57 then Some (n - 48) else None)"

fun dec_nat :: "nat \<Rightarrow> string" where
  "dec_nat n = (if n < 10 then [digit_char n] else dec_nat (n div 10) @ [digit_char (n mod 10)])"

declare dec_nat.simps [simp del]

definition itoa :: "int \<Rightarrow> string" where
  "itoa i = (if i < 0 then CHR ''-'' # dec_nat (nat (- i)) else dec_nat (nat i))"

text \<open>The value of a string of digits, or \<open>None\<close> at the first byte that is none.\<close>

fun digits_val :: "nat \<Rightarrow> string \<Rightarrow> nat option" where
  "digits_val acc [] = Some acc"
| "digits_val acc (c # cs) =
     (case digit_val c of None \<Rightarrow> None | Some d \<Rightarrow> digits_val (10 * acc + d) cs)"

lemma digit_val_digit_char [simp]: "d < 10 \<Longrightarrow> digit_val (digit_char d) = Some d"
  by (simp add: digit_val_def digit_char_def)

lemma digits_val_append:
  "digits_val acc (xs @ ys) = Option.bind (digits_val acc xs) (\<lambda>a. digits_val a ys)"
  by (induction xs arbitrary: acc) (auto split: option.splits)

lemma digits_val_dec_nat: "digits_val 0 (dec_nat n) = Some n"
proof (induction n rule: dec_nat.induct)
  case (1 n)
  show ?case
  proof (cases "n < 10")
    case True
    then show ?thesis by (subst dec_nat.simps) simp
  next
    case False
    with "1" have "digits_val 0 (dec_nat (n div 10)) = Some (n div 10)" by simp
    with False show ?thesis
      by (subst dec_nat.simps) (simp add: digits_val_append)
  qed
qed

lemma dec_nat_neq_Nil [simp]: "dec_nat n \<noteq> []"
  by (subst dec_nat.simps) simp

lemma digits_val_all_digits:
  "digits_val acc s = Some n \<Longrightarrow> c \<in> set s \<Longrightarrow> digit_val c \<noteq> None"
  by (induction s arbitrary: acc) (auto split: option.splits)

lemma dec_nat_digits: "c \<in> set (dec_nat n) \<Longrightarrow> digit_val c \<noteq> None"
  using digits_val_all_digits digits_val_dec_nat by blast

lemma dec_nat_inject [simp]: "dec_nat m = dec_nat n \<longleftrightarrow> m = n"
  by (metis digits_val_dec_nat option.inject)

lemma digit_val_special [simp]:
  "digit_val CHR ''-'' = None" "digit_val CHR ''+'' = None" "digit_val CHR ''v'' = None"
  by (simp_all add: digit_val_def)

lemma dec_nat_no_minus [simp]: "dec_nat n \<noteq> CHR ''-'' # s" "dec_nat n \<noteq> CHR ''+'' # s"
  using dec_nat_digits [of _ n] by (metis digit_val_special list.set_intros(1))+

lemma itoa_inject [simp]: "itoa i = itoa j \<longleftrightarrow> i = j"
  by (auto simp: itoa_def split: if_splits dest: sym)

lemma itoa_no_v: "CHR ''v'' \<notin> set (itoa i)"
  using dec_nat_digits [of "CHR ''v''"] by (auto simp: itoa_def)

lemma itoa_neq_Nil [simp]: "itoa i \<noteq> []"
  by (simp add: itoa_def)

section \<open>Parsing of integers\<close>

text \<open>Quoting as in a \<open>NumError\<close>: quote, backslash and control bytes are escaped.\<close>

definition hex_digit :: "nat \<Rightarrow> char" where
  "hex_digit n = (if n < 10 then char_of (48 + n) else char_of (87 + n))"

definition quote_char :: "char \<Rightarrow> string" where
  "quote_char c = (let n = of_char c :: nat in
     if n = 34 \<or> n = 92 then [CHR 0x5C, c]
     else if n = 7 then [CHR 0x5C, CHR ''a'']
     else if n = 8 then [CHR 0x5C, CHR ''b'']
     else if n = 9 then [CHR 0x5C, CHR ''t'']
     else if n = 10 then [CHR 0x5C, CHR ''n'']
     else if n = 11 then [CHR 0x5C, CHR ''v'']
     else if n = 12 then [CHR 0x5C, CHR ''f'']
     else if n = 13 then [CHR 0x5C, CHR ''r'']
     else if n < 32 \<or> n = 127 then [CHR 0x5C, CHR ''x'', hex_digit (n div 16), hex_digit (n mod 16)]
     else [c])"

definition go_quote :: "string \<Rightarrow> string" where
  "go_quote s = [CHR 0x22] @ concat (map quote_char s) @ [CHR 0x22]"

definition num_error :: "string \<Rightarrow> string \<Rightarrow> sentinel \<Rightarrow> gerror" where
  "num_error fn s err = WrapError
     (''strconv.'' @ fn @ '': parsing '' @ go_quote s @ '': '' @ error_text (Sentinel err))
     [Sentinel err]"

fun split_sign :: "string \<Rightarrow> bool \<times> string" where
  "split_sign [] = (False, [])"
| "split_sign (c # cs) =
     (if c = CHR ''-'' then (True, cs) else if c = CHR ''+'' then (False, cs) else (False, c # cs))"

text \<open>The digit loop of \<open>ParseUint\<close>: the range test comes after each digit, so an
  overflow is reported before a bad byte further on.\<close>

fun parse_uint :: "nat \<Rightarrow> nat \<Rightarrow> string \<Rightarrow> sentinel + nat" where
  "parse_uint bits acc [] = Inr acc"
| "parse_uint bits acc (c # cs) =
     (case digit_val c of
        None \<Rightarrow> Inl ErrSyntax
      | Some d \<Rightarrow>
          if 2 ^ bits \<le> 10 * acc + d then Inl ErrRange else parse_uint bits (10 * acc + d) cs)"

definition parse_int :: "string \<Rightarrow> nat \<Rightarrow> string \<Rightarrow> int result" where
  "parse_int fn bits s =
     (let (neg, ds) = split_sign s in
      if ds = [] then Inl (num_error fn s ErrSyntax)
      else case parse_uint bits 0 ds of
        Inl err \<Rightarrow> Inl (num_error fn s err)
      | Inr n \<Rightarrow>
          if \<not> neg \<and> int n \<ge> 2 ^ (bits - 1) then Inl (num_error fn s ErrRange)
          else if neg \<and> int n > 2 ^ (bits - 1) then Inl (num_error fn s ErrRange)
          else Inr (if neg then - int n else int n))"

definition atoi :: "string \<Rightarrow> int result" where
  "atoi s = parse_int ''Atoi'' 64 s"

lemma split_sign_itoa:
  "split_sign (itoa i) = (i < 0, dec_nat (nat \<bar>i\<bar>))"
proof (cases "i < 0")
  case True
  then show ?thesis by (simp add: itoa_def)
next
  case False
  obtain c cs where d: "dec_nat (nat i) = c # cs"
    by (meson dec_nat_neq_Nil neq_Nil_conv)
  then have "c \<noteq> CHR ''-''" "c \<noteq> CHR ''+''"
    by (metis dec_nat_no_minus(1), metis d dec_nat_no_minus(2))
  with False d show ?thesis by (simp add: itoa_def)
qed

lemma digits_val_ge: "digits_val acc ds = Some n \<Longrightarrow> acc \<le> n"
  by (induction ds arbitrary: acc) (force split: option.splits)+

lemma parse_uint_digits:
  "digits_val acc ds = Some n \<Longrightarrow> n < 2 ^ bits \<Longrightarrow> parse_uint bits acc ds = Inr n"
  by (induction ds arbitrary: acc) (force split: option.splits dest: digits_val_ge)+

lemma parse_int_itoa:
  assumes "- (2 ^ (bits - 1)) \<le> i" and "i < 2 ^ (bits - 1)" and "0 < bits"
  shows "parse_int fn bits (itoa i) = Inr i"
proof -
  have p: "(2::int) ^ bits = 2 * 2 ^ (bits - 1)"
    using assms(3) by (metis power_minus_mult mult.commute)
  have "int (nat \<bar>i\<bar>) < 2 ^ bits"
    using assms(1,2) p by auto
  then have "nat \<bar>i\<bar> < 2 ^ bits"
    by (metis of_nat_less_numeral_power_cancel_iff)
  then have "parse_uint bits 0 (dec_nat (nat \<bar>i\<bar>)) = Inr (nat \<bar>i\<bar>)"
    by (rule parse_uint_digits [OF digits_val_dec_nat])
  then show ?thesis
    using assms by (auto simp: parse_int_def split_sign_itoa)
qed

lemma parse_int_range:
  assumes "parse_int fn bits s = Inr i"
  shows "- (2 ^ (bits - 1)) \<le> i \<and> i < 2 ^ (bits - 1)"
proof -
  obtain neg ds where sd: "split_sign s = (neg, ds)" by fastforce
  with assms obtain n where "parse_uint bits 0 ds = Inr n" and "ds \<noteq> []"
    by (auto simp: parse_int_def split: sum.splits if_splits)
  with sd assms have n: "neg \<and> int n \<le> 2 ^ (bits - 1) \<and> i = - int n \<or>
      \<not> neg \<and> int n < 2 ^ (bits - 1) \<and> i = int n"
    unfolding parse_int_def by (auto split: if_splits simp del: of_nat_le_numeral_power_cancel_iff
      of_nat_less_numeral_power_cancel_iff numeral_power_less_of_nat_cancel_iff
      numeral_power_le_of_nat_cancel_iff)
  have "(0::int) < 2 ^ (bits - 1)" by simp
  with n show ?thesis by linarith
qed

section \<open>Split and TrimSpace\<close>

fun split_on :: "char \<Rightarrow> string \<Rightarrow> string list" where
  "split_on sep [] = [[]]"
| "split_on sep (c # cs) =
     (if c = sep then [] # split_on sep cs
      else case split_on sep cs of [] \<Rightarrow> [[c]] | p # ps \<Rightarrow> (c # p) # ps)"

text \<open>The encodings of the runes for which \<open>unicode.IsSpace\<close> holds.\<close>

definition space_encodings :: "string list" where
  "space_encodings =
     [[CHR 0x09], [CHR 0x0A], [CHR 0x0B], [CHR 0x0C], [CHR 0x0D], [CHR 0x20],
      [CHR 0xC2, CHR 0x85], [CHR 0xC2, CHR 0xA0], [CHR 0xE1, CHR 0x9A, CHR 0x80],
      [CHR 0xE2, CHR 0x80, CHR 0x80], [CHR 0xE2, CHR 0x80, CHR 0x81],
      [CHR 0xE2, CHR 0x80, CHR 0x82], [CHR 0xE2, CHR 0x80, CHR 0x83],
      [CHR 0xE2, CHR 0x80, CHR 0x84], [CHR 0xE2, CHR 0x80, CHR 0x85],
      [CHR 0xE2, CHR 0x80, CHR 0x86], [CHR 0xE2, CHR 0x80, CHR 0x87],
      [CHR 0xE2, CHR 0x80, CHR 0x88], [CHR 0xE2, CHR 0x80, CHR 0x89],
      [CHR 0xE2, CHR 0x80, CHR 0x8A], [CHR 0xE2, CHR 0x80, CHR 0xA8],
      [CHR 0xE2, CHR 0x80, CHR 0xA9], [CHR 0xE2, CHR 0x80, CHR 0xAF],
      [CHR 0xE2, CHR 0x81, CHR 0x9F], [CHR 0xE3, CHR 0x80, CHR 0x80]]"

definition strips_prefix :: "string list \<Rightarrow> string \<Rightarrow> nat option" where
  "strips_prefix encs s = map_option length (find (\<lambda>p. take (length p) s = p) encs)"

text \<open>\<open>fuel\<close> bounds the number of runes stripped; a string has no more runes than bytes.\<close>

fun strip_left :: "nat \<Rightarrow> string list \<Rightarrow> string \<Rightarrow> string" where
  "strip_left 0 encs s = s"
| "strip_left (Suc fuel) encs s =
     (case strips_prefix encs s of None \<Rightarrow> s | Some n \<Rightarrow> strip_left fuel encs (drop n s))"

definition trim_space :: "string \<Rightarrow> string" where
  "trim_space s =
     (let l = strip_left (length s) space_encodings s
      in rev (strip_left (length l) (map rev space_encodings) (rev l)))"

lemma space_encodings_nonempty:
  "p \<in> set space_encodings \<Longrightarrow> p \<noteq> []" "p \<in> set (map rev space_encodings) \<Longrightarrow> p \<noteq> []"
  by (auto simp: space_encodings_def)

lemma strips_prefix_SomeD:
  assumes "strips_prefix encs s = Some n" and "\<And>p. p \<in> set encs \<Longrightarrow> p \<noteq> []"
  shows "0 < n \<and> n \<le> length s"
proof -
  obtain p where "find (\<lambda>p. take (length p) s = p) encs = Some p" and n: "n = length p"
    using assms(1) by (auto simp: strips_prefix_def)
  then have "p \<in> set encs" and "take (length p) s = p"
    by (auto simp: find_Some_iff)
  with n assms(2) show ?thesis
    by (metis length_greater_0_conv length_take min.cobounded1)
qed

text \<open>The fuel is enough: nothing strippable is left at the end.\<close>

lemma strip_left_done:
  assumes "\<And>p. p \<in> set encs \<Longrightarrow> p \<noteq> []"
  shows "length s \<le> fuel \<Longrightarrow> strips_prefix encs (strip_left fuel encs s) = None"
proof (induction fuel arbitrary: s)
  case 0
  then have "s = []" by simp
  moreover have "strips_prefix encs [] = None"
    using assms by (auto simp: strips_prefix_def find_None_iff)
  ultimately show ?case by simp
next
  case (Suc fuel)
  show ?case
  proof (cases "strips_prefix encs s")
    case None
    then show ?thesis by simp
  next
    case (Some n)
    then have n: "0 < n \<and> n \<le> length s" by (rule strips_prefix_SomeD) (rule assms)
    have "length (drop n s) \<le> fuel" using n Suc.prems by simp linarith
    then show ?thesis using Suc.IH Some by simp
  qed
qed

lemma strip_left_keeps:
  "strips_prefix encs s = None \<Longrightarrow> strip_left fuel encs s = s"
  by (cases fuel) simp_all

lemma strip_left_suffix: "\<exists>u. s = u @ strip_left fuel encs s"
proof (induction fuel arbitrary: s)
  case (Suc fuel)
  show ?case
  proof (cases "strips_prefix encs s")
    case (Some n)
    obtain u where "drop n s = u @ strip_left fuel encs (drop n s)" using Suc.IH by blast
    then have "s = (take n s @ u) @ strip_left fuel encs (drop n s)"
      by (metis append.assoc append_take_drop_id)
    then show ?thesis using Some by (auto intro: exI [of _ "take n s @ u"])
  qed simp
qed simp

text \<open>The result starts and ends with no space.\<close>

lemma trim_space_right_done:
  "strips_prefix (map rev space_encodings) (rev (trim_space s)) = None"
  unfolding trim_space_def Let_def rev_rev_ident
  by (rule strip_left_done) (auto dest: space_encodings_nonempty)

text \<open>A string without white space is its own trimming.\<close>

lemma trim_space_ident:
  assumes "strips_prefix space_encodings s = None"
    and "strips_prefix (map rev space_encodings) (rev s) = None"
  shows "trim_space s = s"
  using assms by (simp add: trim_space_def strip_left_keeps)

lemma trim_space_Nil [simp]: "trim_space [] = []"
  by (simp add: trim_space_def)

lemma split_on_neq_Nil [simp]: "split_on sep s \<noteq> []"
  by (induction s) (auto split: list.splits)

lemma split_on_no_sep: "p \<in> set (split_on sep s) \<Longrightarrow> sep \<notin> set p"
  by (induction s arbitrary: p) (auto split: list.splits if_splits)

lemma split_on_append_sep:
  "sep \<notin> set p \<Longrightarrow> split_on sep (p @ sep # s) = p # split_on sep s"
  by (induction p) (auto split: list.splits)

lemma split_on_single: "sep \<notin> set p \<Longrightarrow> split_on sep p = [p]"
  by (induction p) auto

end
