(* ===== verification/Domain.thy ===== *)
theory Domain
  imports Go_Strings Complex_Main "HOL-Library.Word"
begin

text \<open>
  The domain layer (internal/event/domain): dynamic values, the event and outbox records,
  field definitions, the schema interface and the in-memory registry, and the three event
  schemas the API registers (internal/event/application/*_schema.go).
\<close>

section \<open>Identifiers, instants and dynamic values\<close>

text \<open>A \<open>uuid.UUID\<close> is sixteen bytes.  An instant is counted in nanoseconds from
  January 1, year 1 UTC, the zero \<open>time.Time\<close>; a duration is a number of nanoseconds.\<close>

type_synonym uuid = "128 word"
type_synonym time = int

definition time_is_zero :: "time \<Rightarrow> bool" where
  "time_is_zero t \<longleftrightarrow> t = 0"

text \<open>A \<open>float64\<close>: a finite value is a rational; comparisons with NaN are false.\<close>

datatype f64 = NaN | PosInf | NegInf | Finite rat

fun f64_less :: "f64 \<Rightarrow> f64 \<Rightarrow> bool" where
  "f64_less NaN y = False"
| "f64_less x NaN = False"
| "f64_less NegInf y = (y \<noteq> NegInf)"
| "f64_less x NegInf = False"
| "f64_less PosInf y = False"
| "f64_less x PosInf = True"
| "f64_less (Finite a) (Finite b) = (a < b)"

fun f64_le :: "f64 \<Rightarrow> f64 \<Rightarrow> bool" where
  "f64_le NaN y = False"
| "f64_le x NaN = False"
| "f64_le NegInf y = True"
| "f64_le x PosInf = True"
| "f64_le PosInf y = False"
| "f64_le x NegInf = False"
| "f64_le (Finite a) (Finite b) = (a \<le> b)"

text \<open>The values a Go \<open>any\<close> can hold here, by dynamic type.  JSON decoding produces
  \<open>GNil\<close>, \<open>GBool\<close>, \<open>GFloat64\<close>, \<open>GString\<close>, \<open>GSlice\<close> and
  \<open>GMap\<close>; \<open>GOther\<close> names a dynamic type JSON cannot encode (a channel, a
  function).\<close>

datatype gvalue =
    GNil
  | GBool bool
  | GInt int
  | GInt32 int
  | GInt64 int
  | GFloat32 f64
  | GFloat64 f64
  | GString string
  | GUUID uuid
  | GTime time
  | GSlice "gvalue list"
  | GMap "(string \<times> gvalue) list"
  | GOther string

text \<open>A \<open>map[string]any\<close> that may be nil: the key and value pairs, each key once.\<close>

type_synonym properties = "(string \<times> gvalue) list option"

section \<open>Events\<close>

record event =
  ev_id :: uuid
  ev_event_id :: uuid
  ev_type :: string
  ev_version :: int
  ev_source :: string
  ev_user_id :: string
  ev_anonymous_id :: string
  ev_session_id :: string
  ev_timestamp :: time
  ev_properties :: properties
  ev_created_at :: time

record outbox_event =
  oe_id :: uuid
  oe_event_id :: uuid
  oe_event_type :: string
  oe_payload :: string
  oe_status :: string
  oe_attempts :: int
  oe_available_at :: time
  oe_created_at :: time
  oe_published_at :: "time option"
  oe_last_error :: "string option"

section \<open>Fields and schemas\<close>

definition FieldTypeString :: string where "FieldTypeString = ''string''"
definition FieldTypeNumber :: string where "FieldTypeNumber = ''number''"
definition FieldTypeBool :: string where "FieldTypeBool = ''bool''"

lemmas field_type_defs = FieldTypeString_def FieldTypeNumber_def FieldTypeBool_def

record field_definition =
  fd_name :: string
  fd_type :: string
  fd_required :: bool

text \<open>What an \<open>EventSchema\<close> answers to its three methods.\<close>

record event_schema =
  schema_type :: string
  schema_version :: int
  schema_fields :: "field_definition list"

definition PageViewSchema :: event_schema where
  "PageViewSchema = \<lparr>schema_type = ''page_view'', schema_version = 1, schema_fields =
     [\<lparr>fd_name = ''page'', fd_type = FieldTypeString, fd_required = True\<rparr>,
      \<lparr>fd_name = ''device'', fd_type = FieldTypeString, fd_required = False\<rparr>,
      \<lparr>fd_name = ''referrer'', fd_type = FieldTypeString, fd_required = False\<rparr>]\<rparr>"

definition PurchaseSchema :: event_schema where
  "PurchaseSchema = \<lparr>schema_type = ''purchase'', schema_version = 1, schema_fields =
     [\<lparr>fd_name = ''order_id'', fd_type = FieldTypeString, fd_required = True\<rparr>,
      \<lparr>fd_name = ''amount'', fd_type = FieldTypeNumber, fd_required = True\<rparr>,
      \<lparr>fd_name = ''currency'', fd_type = FieldTypeString, fd_required = True\<rparr>]\<rparr>"

definition SearchSchema :: event_schema where
  "SearchSchema = \<lparr>schema_type = ''search'', schema_version = 1, schema_fields =
     [\<lparr>fd_name = ''keyword'', fd_type = FieldTypeString, fd_required = True\<rparr>,
      \<lparr>fd_name = ''result_count'', fd_type = FieldTypeNumber, fd_required = True\<rparr>]\<rparr>"

section \<open>The registry\<close>

type_synonym registry = "string \<rightharpoonup> event_schema"

definition NewInMemorySchemaRegistry :: registry where
  "NewInMemorySchemaRegistry = Map.empty"

definition schemaKey :: "string \<Rightarrow> int \<Rightarrow> string" where
  "schemaKey eventType version = eventType @ '':v'' @ itoa version"

definition RegisterSchema :: "event_schema \<Rightarrow> registry \<Rightarrow> registry" where
  "RegisterSchema schema r =
     (let key = schemaKey (schema_type schema) (schema_version schema)
      in r(key \<mapsto> schema))"

definition registry_get :: "registry \<Rightarrow> string \<Rightarrow> int \<Rightarrow> event_schema option" where
  "registry_get r eventType version = (let key = schemaKey eventType version in r key)"

text \<open>The registry built by cmd/api/main.go.\<close>

definition api_schemas :: "event_schema list" where
  "api_schemas = [PageViewSchema, PurchaseSchema, SearchSchema]"

definition api_registry :: registry where
  "api_registry = fold RegisterSchema api_schemas NewInMemorySchemaRegistry"

text \<open>The key separates type and version: the version's digits hold no letter \<open>v\<close>,
  so the last \<open>:v\<close> of the key ends the type, even for a type that has one itself.\<close>

lemma schemaKey_inject [simp]:
  "schemaKey t v = schemaKey t' v' \<longleftrightarrow> t = t' \<and> v = v'"
proof
  assume "schemaKey t v = schemaKey t' v'"
  then have "(t @ '':'') @ CHR ''v'' # itoa v = (t' @ '':'') @ CHR ''v'' # itoa v'"
    by (simp add: schemaKey_def)
  then have "t @ '':'' = t' @ '':'' \<and> itoa v = itoa v'"
    by (rule append_Cons_last_unique) (rule itoa_no_v)+
  then show "t = t' \<and> v = v'" by simp
qed simp

text \<open>The registry's contract: a lookup sees the last registration of its type and version.\<close>

locale schema_registry =
  fixes get :: "'r \<Rightarrow> string \<Rightarrow> int \<Rightarrow> event_schema option"
    and register :: "event_schema \<Rightarrow> 'r \<Rightarrow> 'r"
    and empty :: 'r
  assumes get_empty: "get empty t v = None"
    and get_register: "get (register s r) t v =
      (if t = schema_type s \<and> v = schema_version s then Some s else get r t v)"
begin

definition filled :: "event_schema list \<Rightarrow> 'r" where
  "filled ss = fold register ss empty"

lemma get_fold_register:
  "get (fold register ss r) t v =
   (case find (\<lambda>s. schema_type s = t \<and> schema_version s = v) (rev ss) of
      None \<Rightarrow> get r t v | Some s \<Rightarrow> Some s)"
proof (induction ss rule: rev_induct)
  case (snoc s ss)
  then show ?case by (auto simp: get_register)
qed simp

lemma get_filled:
  "get (filled ss) t v = find (\<lambda>s. schema_type s = t \<and> schema_version s = v) (rev ss)"
  by (simp add: filled_def get_fold_register get_empty split: option.splits)

text \<open>What a lookup finds is a registered schema of exactly that type and version.\<close>

lemma get_filled_sound:
  "get (filled ss) t v = Some s \<Longrightarrow> s \<in> set ss \<and> schema_type s = t \<and> schema_version s = v"
  by (auto simp: get_filled find_Some_iff) (metis nth_mem length_rev set_rev)

lemma get_filled_complete:
  assumes "s \<in> set ss" and "distinct (map (\<lambda>s. (schema_type s, schema_version s)) ss)"
  shows "get (filled ss) (schema_type s) (schema_version s) = Some s"
proof -
  let ?p = "\<lambda>x. schema_type x = schema_type s \<and> schema_version x = schema_version s"
  have "find ?p (rev ss) \<noteq> None"
    using assms(1) by (auto simp: find_None_iff)
  then obtain s' where s': "find ?p (rev ss) = Some s'" by blast
  then have "s' \<in> set ss" and "?p s'"
    by (auto simp: find_Some_iff) (metis nth_mem length_rev set_rev)
  with assms have "s' = s"
    by (intro distinct_key_eq [OF assms(2)]) auto
  with s' show ?thesis by (simp add: get_filled)
qed

end

interpretation reg: schema_registry registry_get RegisterSchema NewInMemorySchemaRegistry
  by unfold_locales
    (auto simp: registry_get_def RegisterSchema_def NewInMemorySchemaRegistry_def)

lemma api_registry_filled: "api_registry = reg.filled api_schemas"
  by (simp add: api_registry_def reg.filled_def)

section \<open>Properties\<close>

text \<open>A lookup in a registry filled by \<open>RegisterSchema\<close> answers the schema that was
  registered last for exactly that type and that version, and nothing for any other pair: the
  textual key built from the two never confuses two pairs.\<close>

lemma registry_lookup:
  "registry_get (fold RegisterSchema schemas NewInMemorySchemaRegistry) eventType version =
     find (\<lambda>s. schema_type s = eventType \<and> schema_version s = version) (rev schemas)"
  using reg.get_filled [of schemas eventType version] by (simp add: reg.filled_def)

end
