(* ===== verification/Json.thy ===== *)
theory Json
  imports Domain "HOL-Library.List_Lexorder" "HOL-Library.Char_ord"
begin

text \<open>
  The parts of Go's \<open>encoding/json\<close> the program uses: \<open>json.Marshal\<close> of a
  \<open>map[string]any\<close> (keys sorted, HTML-safe string escapes, invalid UTF-8 replaced)
  and, further down, \<open>json.Valid\<close>.  The texts of UUIDs (third-party package), of
  floating-point numbers and of time values are parameters, fields of \<open>externals\<close>;
  so is what Postgres makes of a value it stores.
\<close>

section \<open>Parameters of the model\<close>

record externals =
  x_uuid_string :: "uuid \<Rightarrow> string"              \<comment> \<open>\<open>uuid.UUID.String\<close> of google/uuid\<close>
  x_float_text :: "nat \<Rightarrow> rat \<Rightarrow> string"        \<comment> \<open>shortest text of a 32 or 64 bit float\<close>
  x_time_json :: "time \<Rightarrow> string result"          \<comment> \<open>\<open>time.Time.MarshalJSON\<close>\<close>
  x_pg_event :: "event \<Rightarrow> event option"          \<comment> \<open>an events row as its columns hold it\<close>
  x_pg_payload :: "string \<Rightarrow> string option"      \<comment> \<open>a JSON text as a JSONB column returns it\<close>

section \<open>UTF-8\<close>

definition byte :: "char \<Rightarrow> nat" where
  "byte c = of_char c"

definition is_cont :: "char \<Rightarrow> bool" where
  "is_cont c \<longleftrightarrow> 128 \<le> byte c \<and> byte c < 192"

text \<open>The length of the well-formed encoding a string starts with, 0 if there is none.\<close>

fun utf8_len :: "string \<Rightarrow> nat" where
  "utf8_len [] = 0"
| "utf8_len (a # cs) =
     (if byte a < 128 then 1
      else if 194 \<le> byte a \<and> byte a \<le> 223 then
        (case cs of b # _ \<Rightarrow> if is_cont b then 2 else 0 | _ \<Rightarrow> 0)
      else if 224 \<le> byte a \<and> byte a \<le> 239 then
        (case cs of b # c # _ \<Rightarrow>
           if is_cont b \<and> is_cont c \<and> (byte a = 224 \<longrightarrow> 160 \<le> byte b) \<and>
              (byte a = 237 \<longrightarrow> byte b < 160) then 3 else 0
         | _ \<Rightarrow> 0)
      else if 240 \<le> byte a \<and> byte a \<le> 244 then
        (case cs of b # c # d # _ \<Rightarrow>
           if is_cont b \<and> is_cont c \<and> is_cont d \<and> (byte a = 240 \<longrightarrow> 144 \<le> byte b) \<and>
              (byte a = 244 \<longrightarrow> byte b < 144) then 4 else 0
         | _ \<Rightarrow> 0)
      else 0)"

section \<open>Marshalling\<close>

definition bslash :: char where "bslash = CHR 0x5C"
definition dquote :: char where "dquote = CHR 0x22"

definition escape_byte :: "char \<Rightarrow> string" where
  "escape_byte c =
     (let n = byte c in
      if n = 34 \<or> n = 92 then [bslash, c]
      else if n = 8 then [bslash, CHR ''b'']
      else if n = 12 then [bslash, CHR ''f'']
      else if n = 10 then [bslash, CHR ''n'']
      else if n = 13 then [bslash, CHR ''r'']
      else if n = 9 then [bslash, CHR ''t'']
      else if n < 32 \<or> n = 60 \<or> n = 62 \<or> n = 38 then
        [bslash, CHR ''u'', CHR ''0'', CHR ''0'', hex_digit (n div 16), hex_digit (n mod 16)]
      else [c])"

text \<open>The runes U+2028 and U+2029 are escaped; a byte that starts no well-formed encoding
  becomes the replacement character.  The first argument bounds the number of runes.\<close>

fun escape_string :: "nat \<Rightarrow> string \<Rightarrow> string" where
  "escape_string 0 s = []"
| "escape_string (Suc fuel) [] = []"
| "escape_string (Suc fuel) (c # cs) =
     (if byte c < 128 then escape_byte c @ escape_string fuel cs
      else
        let n = utf8_len (c # cs) in
        if n = 0 then [bslash, CHR ''u'', CHR ''f'', CHR ''f'', CHR ''f'', CHR ''d''] @ escape_string fuel cs
        else if take 3 (c # cs) = [CHR 0xE2, CHR 0x80, CHR 0xA8] then
          [bslash, CHR ''u'', CHR ''2'', CHR ''0'', CHR ''2'', CHR ''8''] @ escape_string fuel (drop 3 (c # cs))
        else if take 3 (c # cs) = [CHR 0xE2, CHR 0x80, CHR 0xA9] then
          [bslash, CHR ''u'', CHR ''2'', CHR ''0'', CHR ''2'', CHR ''9''] @ escape_string fuel (drop 3 (c # cs))
        else take n (c # cs) @ escape_string fuel (drop n (c # cs)))"

definition json_string :: "string \<Rightarrow> string" where
  "json_string s = [dquote] @ escape_string (length s) s @ [dquote]"

fun json_float :: "externals \<Rightarrow> nat \<Rightarrow> f64 \<Rightarrow> string result" where
  "json_float x bits (Finite q) = Inr (x_float_text x bits q)"
| "json_float x bits NaN = Inl (ErrorString ''json: unsupported value: NaN'')"
| "json_float x bits PosInf = Inl (ErrorString ''json: unsupported value: +Inf'')"
| "json_float x bits NegInf = Inl (ErrorString ''json: unsupported value: -Inf'')"

fun join :: "string \<Rightarrow> string list \<Rightarrow> string" where
  "join sep [] = []"
| "join sep [s] = s"
| "join sep (s # t # ss) = s @ sep @ join sep (t # ss)"

definition json_array :: "string list \<Rightarrow> string" where
  "json_array ss = ''['' @ join '','' ss @ '']''"

definition json_member :: "string \<times> string \<Rightarrow> string" where
  "json_member kv = json_string (fst kv) @ '':'' @ snd kv"

definition json_object :: "(string \<times> string) list \<Rightarrow> string" where
  "json_object kvs = [CHR 0x7B] @ join '','' (map json_member (sort_key fst kvs)) @ [CHR 0x7D]"

fun json_marshal :: "externals \<Rightarrow> gvalue \<Rightarrow> string result"
  and json_elems :: "externals \<Rightarrow> gvalue list \<Rightarrow> string list result"
  and json_members :: "externals \<Rightarrow> (string \<times> gvalue) list \<Rightarrow> (string \<times> string) list result"
where
  "json_marshal x GNil = Inr ''null''"
| "json_marshal x (GBool b) = Inr (if b then ''true'' else ''false'')"
| "json_marshal x (GInt i) = Inr (itoa i)"
| "json_marshal x (GInt32 i) = Inr (itoa i)"
| "json_marshal x (GInt64 i) = Inr (itoa i)"
| "json_marshal x (GFloat32 f) = json_float x 32 f"
| "json_marshal x (GFloat64 f) = json_float x 64 f"
| "json_marshal x (GString s) = Inr (json_string s)"
| "json_marshal x (GUUID u) = Inr (json_string (x_uuid_string x u))"
| "json_marshal x (GTime t) = x_time_json x t"
| "json_marshal x (GSlice vs) =
     (case json_elems x vs of Inl e \<Rightarrow> Inl e | Inr ss \<Rightarrow> Inr (json_array ss))"
| "json_marshal x (GMap kvs) =
     (case json_members x kvs of Inl e \<Rightarrow> Inl e | Inr ms \<Rightarrow> Inr (json_object ms))"
| "json_marshal x (GOther ty) = Inl (ErrorString (''json: unsupported type: '' @ ty))"
| "json_elems x [] = Inr []"
| "json_elems x (v # vs) =
     (case json_marshal x v of Inl e \<Rightarrow> Inl e
      | Inr s \<Rightarrow> (case json_elems x vs of Inl e \<Rightarrow> Inl e | Inr ss \<Rightarrow> Inr (s # ss)))"
| "json_members x [] = Inr []"
| "json_members x ((k, v) # kvs) =
     (case json_marshal x v of Inl e \<Rightarrow> Inl e
      | Inr s \<Rightarrow> (case json_members x kvs of Inl e \<Rightarrow> Inl e | Inr ms \<Rightarrow> Inr ((k, s) # ms)))"

text \<open>A nil map is marshalled as \<open>null\<close>.\<close>

definition properties_value :: "properties \<Rightarrow> gvalue" where
  "properties_value p = (case p of None \<Rightarrow> GNil | Some kvs \<Rightarrow> GMap kvs)"

section \<open>Validity\<close>

text \<open>\<open>json.Valid\<close>: white space, literals, numbers, strings, arrays and objects, with
  nothing but white space after the value.  The parsers return what follows the part they
  recognise.\<close>

definition is_json_space :: "char \<Rightarrow> bool" where
  "is_json_space c \<longleftrightarrow> byte c = 32 \<or> byte c = 9 \<or> byte c = 10 \<or> byte c = 13"

definition skip_space :: "string \<Rightarrow> string" where
  "skip_space s = dropWhile is_json_space s"

definition is_digit :: "char \<Rightarrow> bool" where
  "is_digit c \<longleftrightarrow> 48 \<le> byte c \<and> byte c \<le> 57"

definition is_hex :: "char \<Rightarrow> bool" where
  "is_hex c \<longleftrightarrow> is_digit c \<or> 97 \<le> byte c \<and> byte c \<le> 102 \<or> 65 \<le> byte c \<and> byte c \<le> 70"

text \<open>After the opening quote.\<close>

fun scan_string :: "string \<Rightarrow> string option" where
  "scan_string [] = None"
| "scan_string (c # cs) =
     (if c = dquote then Some cs
      else if c = bslash then
        (case cs of
           [] \<Rightarrow> None
         | d # ds \<Rightarrow>
             if d \<in> {dquote, bslash, CHR ''/'', CHR ''b'', CHR ''f'', CHR ''n'', CHR ''r'', CHR ''t''}
             then scan_string ds
             else if d = CHR ''u'' then
               (case ds of
                  h1 # h2 # h3 # h4 # rest \<Rightarrow>
                    if is_hex h1 \<and> is_hex h2 \<and> is_hex h3 \<and> is_hex h4 then scan_string rest else None
                | _ \<Rightarrow> None)
             else None)
      else if byte c < 32 then None
      else scan_string cs)"

text \<open>At least one digit, then as many as follow.\<close>

definition scan_digits :: "string \<Rightarrow> string option" where
  "scan_digits s = (case s of c # _ \<Rightarrow> if is_digit c then Some (dropWhile is_digit s) else None | [] \<Rightarrow> None)"

definition scan_fraction :: "string \<Rightarrow> string option" where
  "scan_fraction s = (case s of c # cs \<Rightarrow> if c = CHR ''.'' then scan_digits cs else Some s | [] \<Rightarrow> Some s)"

definition scan_exponent :: "string \<Rightarrow> string option" where
  "scan_exponent s =
     (case s of
        c # cs \<Rightarrow>
          if c = CHR ''e'' \<or> c = CHR ''E'' then
            (case cs of
               d # ds \<Rightarrow> if d = CHR ''+'' \<or> d = CHR ''-'' then scan_digits ds else scan_digits cs
             | [] \<Rightarrow> None)
          else Some s
      | [] \<Rightarrow> Some s)"

definition scan_integer :: "string \<Rightarrow> string option" where
  "scan_integer s =
     (case s of
        c # cs \<Rightarrow> if c = CHR ''0'' then Some cs else scan_digits s
      | [] \<Rightarrow> None)"

definition scan_number :: "string \<Rightarrow> string option" where
  "scan_number s =
     (let t = (case s of c # cs \<Rightarrow> if c = CHR ''-'' then cs else s | [] \<Rightarrow> s) in
      Option.bind (Option.bind (scan_integer t) scan_fraction) scan_exponent)"

definition scan_literal :: "string \<Rightarrow> string \<Rightarrow> string option" where
  "scan_literal lit s = (if take (length lit) s = lit then Some (drop (length lit) s) else None)"

text \<open>The fuel counts nested values and members; twice the length of the text and two is enough
  (theory \<open>Json_Valid\<close>).  The second argument is the number of arrays and objects that may
  still be opened: the scanner refuses to nest deeper than \<open>maxNestingDepth\<close>.\<close>

fun scan_value :: "nat \<Rightarrow> int \<Rightarrow> string \<Rightarrow> string option"
  and scan_elems :: "nat \<Rightarrow> int \<Rightarrow> string \<Rightarrow> string option"
  and scan_members :: "nat \<Rightarrow> int \<Rightarrow> string \<Rightarrow> string option"
where
  "scan_value 0 d s = None"
| "scan_value (Suc fuel) d s =
     (case skip_space s of
        [] \<Rightarrow> None
      | c # cs \<Rightarrow>
          if c = dquote then scan_string cs
          else if c = CHR ''['' then
            (if d \<le> 0 then None
             else
               (case skip_space cs of
                  e # es \<Rightarrow> if e = CHR '']'' then Some es else scan_elems fuel (d - 1) cs
                | [] \<Rightarrow> None))
          else if c = CHR 0x7B then
            (if d \<le> 0 then None
             else
               (case skip_space cs of
                  e # es \<Rightarrow> if e = CHR 0x7D then Some es else scan_members fuel (d - 1) cs
                | [] \<Rightarrow> None))
          else if c = CHR ''t'' then scan_literal ''true'' (c # cs)
          else if c = CHR ''f'' then scan_literal ''false'' (c # cs)
          else if c = CHR ''n'' then scan_literal ''null'' (c # cs)
          else scan_number (c # cs))"
| "scan_elems 0 d s = None"
| "scan_elems (Suc fuel) d s =
     (case scan_value fuel d s of
        None \<Rightarrow> None
      | Some r \<Rightarrow>
          (case skip_space r of
             c # cs \<Rightarrow>
               if c = CHR '','' then scan_elems fuel d cs
               else if c = CHR '']'' then Some cs else None
           | [] \<Rightarrow> None))"
| "scan_members 0 d s = None"
| "scan_members (Suc fuel) d s =
     (case skip_space s of
        [] \<Rightarrow> None
      | q # qs \<Rightarrow>
          if q \<noteq> dquote then None
          else
            (case scan_string qs of
               None \<Rightarrow> None
             | Some r \<Rightarrow>
                 (case skip_space r of
                    [] \<Rightarrow> None
                  | c # cs \<Rightarrow>
                      if c \<noteq> CHR '':'' then None
                      else
                        (case scan_value fuel d cs of
                           None \<Rightarrow> None
                         | Some r' \<Rightarrow>
                             (case skip_space r' of
                                e # es \<Rightarrow>
                                  if e = CHR '','' then scan_members fuel d es
                                  else if e = CHR 0x7D then Some es else None
                              | [] \<Rightarrow> None)))))"

definition maxNestingDepth :: int where
  "maxNestingDepth = 10000"

definition json_valid :: "string \<Rightarrow> bool" where
  "json_valid s =
     (case scan_value (2 * length s + 2) maxNestingDepth s of
        None \<Rightarrow> False | Some r \<Rightarrow> skip_space r = [])"

end
