(* ===== verification/Store.thy ===== *)
theory Store
  imports Json
begin

text \<open>
  The database and the event repository: the two tables of migrations/ with their keys,
  defaults and constraints, and \<open>EventRepository\<close> of
  internal/platform/postgres/event_repository.go.  A table is the list of its rows; a SQL
  statement of the source is a function on tables.  How a call to Postgres goes is an
  argument of type \<open>db_call\<close>: the transaction's \<open>NOW()\<close>, the rows other
  transactions hold locked, which step of the call fails with which error, whether the
  final commit (or the single autocommitted statement) succeeds, is lost, or takes effect
  while its acknowledgement is lost, and the error of a statement the database rejects.
\<close>

section \<open>Tables\<close>

datatype outbox_status = PENDING | PROCESSING | PUBLISHED | CLOSE

primrec status_text :: "outbox_status \<Rightarrow> string" where
  "status_text PENDING = ''PENDING''"
| "status_text PROCESSING = ''PROCESSING''"
| "status_text PUBLISHED = ''PUBLISHED''"
| "status_text CLOSE = ''CLOSE''"

record outbox_row =
  or_id :: uuid
  or_event_id :: uuid
  or_event_type :: string
  or_payload :: string
  or_status :: outbox_status
  or_attempts :: int
  or_available_at :: time
  or_created_at :: time
  or_published_at :: "time option"
  or_last_error :: "string option"
  or_processing_at :: "time option"

record db =
  db_events :: "event list"
  db_outbox :: "outbox_row list"

definition empty_db :: db where
  "empty_db = \<lparr>db_events = [], db_outbox = []\<rparr>"

text \<open>Primary keys, unique keys and the foreign key of the two tables.\<close>

definition wf_db :: "db \<Rightarrow> bool" where
  "wf_db s \<longleftrightarrow>
     distinct (map ev_id (db_events s)) \<and>
     distinct (map ev_event_id (db_events s)) \<and>
     distinct (map or_id (db_outbox s)) \<and>
     distinct (map or_event_id (db_outbox s)) \<and>
     or_event_id ` set (db_outbox s) \<subseteq> ev_event_id ` set (db_events s)"

text \<open>Every event has its outbox row: what the shared transaction is for.\<close>

definition paired :: "db \<Rightarrow> bool" where
  "paired s \<longleftrightarrow> ev_event_id ` set (db_events s) \<subseteq> or_event_id ` set (db_outbox s)"

section \<open>How a call goes\<close>

datatype stage = AtBegin | AtQuery | AtScan | AtRows | AtExec

datatype outcome = Done | Lost gerror | AckLost gerror

record db_call =
  dc_now :: time
  dc_locked :: "uuid list"
  dc_fail :: "stage \<Rightarrow> failure"
  dc_end :: outcome
  dc_reject :: gerror

definition quiet_call :: "time \<Rightarrow> db_call" where
  "quiet_call t = \<lparr>dc_now = t, dc_locked = [], dc_fail = (\<lambda>_. None), dc_end = Done,
     dc_reject = ErrorString ''constraint''\<rparr>"

definition smooth_call :: "db_call \<Rightarrow> bool" where
  "smooth_call c \<longleftrightarrow> (\<forall>st. dc_fail c st = None) \<and> dc_end c = Done"

lemma smooth_quiet [simp]: "smooth_call (quiet_call t)"
  by (simp add: smooth_call_def quiet_call_def)

lemma smooth_callD [simp]: "smooth_call c \<Longrightarrow> dc_fail c st = None" "smooth_call c \<Longrightarrow> dc_end c = Done"
  by (simp_all add: smooth_call_def)

lemma quiet_call_simps [simp]:
  "dc_now (quiet_call t) = t" "dc_locked (quiet_call t) = []" "dc_fail (quiet_call t) st = None"
  "dc_end (quiet_call t) = Done"
  by (simp_all add: quiet_call_def)

text \<open>The end of a transaction or of an autocommitted statement: the first database is the
  one before it, the second the one it would commit.\<close>

fun finish :: "outcome \<Rightarrow> 's \<Rightarrow> 's \<Rightarrow> failure \<times> 's" where
  "finish Done old new = (None, new)"
| "finish (Lost e) old new = (Some e, old)"
| "finish (AckLost e) old new = (Some e, new)"

lemma snd_finish: "snd (finish oc old new) = old \<or> snd (finish oc old new) = new"
  by (cases oc) simp_all

lemma finish_None_iff [simp]: "finish oc old new = (None, s) \<longleftrightarrow> oc = Done \<and> s = new"
  by (cases oc) auto

section \<open>Saving an event\<close>

text \<open>\<open>INSERT INTO events ... ON CONFLICT (event_id) DO NOTHING RETURNING id\<close>: the
  columns may refuse the row, a taken \<open>event_id\<close> gives no row, a taken primary key
  is an error.\<close>

datatype insert_result = StmtError gerror | NoRow | Returned db

definition insert_event :: "externals \<Rightarrow> db_call \<Rightarrow> event \<Rightarrow> db \<Rightarrow> insert_result" where
  "insert_event x c ev s =
     (case dc_fail c AtQuery of
        Some e \<Rightarrow> StmtError e
      | None \<Rightarrow>
          (case x_pg_event x ev of
             None \<Rightarrow> StmtError (dc_reject c)
           | Some r \<Rightarrow>
               if ev_event_id r \<in> ev_event_id ` set (db_events s) then NoRow
               else if ev_id r \<in> ev_id ` set (db_events s) then StmtError (dc_reject c)
               else Returned (s\<lparr>db_events := db_events s @ [r\<lparr>ev_created_at := dc_now c\<rparr>]\<rparr>)))"

definition outbox_payload :: "event \<Rightarrow> gvalue" where
  "outbox_payload ev = GMap
     [(''event_id'', GUUID (ev_event_id ev)),
      (''type'', GString (ev_type ev)),
      (''version'', GInt (ev_version ev)),
      (''source'', GString (ev_source ev)),
      (''user_id'', GString (ev_user_id ev)),
      (''anonymous_id'', GString (ev_anonymous_id ev)),
      (''session_id'', GString (ev_session_id ev)),
      (''timestamp'', GTime (ev_timestamp ev)),
      (''properties'', properties_value (ev_properties ev))]"

text \<open>\<open>INSERT INTO outbox_events (id, event_id, event_type, payload)\<close>; the other columns
  take the defaults of migrations/002_create_outbox_events.sql.\<close>

definition new_outbox_row :: "db_call \<Rightarrow> uuid \<Rightarrow> event \<Rightarrow> string \<Rightarrow> outbox_row" where
  "new_outbox_row c rid ev payload =
     \<lparr>or_id = rid, or_event_id = ev_event_id ev, or_event_type = ev_type ev,
      or_payload = payload, or_status = PENDING, or_attempts = 0,
      or_available_at = dc_now c, or_created_at = dc_now c, or_published_at = None,
      or_last_error = None, or_processing_at = None\<rparr>"

definition insert_outbox :: "externals \<Rightarrow> db_call \<Rightarrow> uuid \<Rightarrow> event \<Rightarrow> string \<Rightarrow> db \<Rightarrow> db result" where
  "insert_outbox x c rid ev payloadJSON s =
     (case dc_fail c AtExec of
        Some e \<Rightarrow> Inl e
      | None \<Rightarrow>
          (case x_pg_payload x payloadJSON of
             None \<Rightarrow> Inl (dc_reject c)
           | Some p \<Rightarrow>
               if rid \<in> or_id ` set (db_outbox s)
                  \<or> ev_event_id ev \<in> or_event_id ` set (db_outbox s)
                  \<or> ev_event_id ev \<notin> ev_event_id ` set (db_events s)
               then Inl (dc_reject c)
               else Inr (s\<lparr>db_outbox := db_outbox s @ [new_outbox_row c rid ev p]\<rparr>)))"

text \<open>\<open>rid\<close> is the fresh \<open>uuid.New()\<close> of the outbox row.\<close>

definition Save :: "externals \<Rightarrow> db_call \<Rightarrow> uuid \<Rightarrow> event \<Rightarrow> db \<Rightarrow> failure \<times> db" where
  "Save x c rid ev s =
     (case dc_fail c AtBegin of
        Some e \<Rightarrow> (Some (wrapf ''begin transaction: '' e), s)
      | None \<Rightarrow>
     (case insert_event x c ev s of
        NoRow \<Rightarrow> (Some (Sentinel ErrEventAlreadyExists), s)
      | StmtError e \<Rightarrow> (Some (wrapf ''insert event: '' e), s)
      | Returned s1 \<Rightarrow>
     (case json_marshal x (outbox_payload ev) of
        Inl e \<Rightarrow> (Some (wrapf ''marshal outbox payload: '' e), s)
      | Inr payloadJSON \<Rightarrow>
     (case insert_outbox x c rid ev payloadJSON s1 of
        Inl e \<Rightarrow> (Some (wrapf ''insert outbox event: '' e), s)
      | Inr s2 \<Rightarrow>
     (case finish (dc_end c) s s2 of
        (Some e, s') \<Rightarrow> (Some (wrapf ''commit transaction: '' e), s')
      | (None, s') \<Rightarrow> (None, s'))))))"

definition FindByEventID :: "db_call \<Rightarrow> uuid \<Rightarrow> db \<Rightarrow> event result" where
  "FindByEventID c eventID s =
     (case dc_fail c AtQuery of
        Some e \<Rightarrow> Inl (wrapf ''find event by event id: '' e)
      | None \<Rightarrow>
          (case row_of ev_event_id eventID (db_events s) of
             None \<Rightarrow> Inl (Sentinel ErrEventNotFound)
           | Some ev \<Rightarrow> Inr ev))"

section \<open>What the parameters are relied on for\<close>

text \<open>The events columns keep identifiers, type, version and the other scalar fields; the
  database's errors and those of the marshaller do not wrap the domain's own sentinel.\<close>

definition sound_columns :: "externals \<Rightarrow> bool" where
  "sound_columns x \<longleftrightarrow>
     (\<forall>ev r. x_pg_event x ev = Some r \<longrightarrow>
        ev_id r = ev_id ev \<and> ev_event_id r = ev_event_id ev \<and> ev_type r = ev_type ev \<and>
        ev_version r = ev_version ev)"

definition foreign_call :: "db_call \<Rightarrow> bool" where
  "foreign_call c \<longleftrightarrow>
     (\<forall>st e. dc_fail c st = Some e \<longrightarrow> \<not> is_err e ErrEventAlreadyExists) \<and>
     (\<forall>e. dc_end c = Lost e \<or> dc_end c = AckLost e \<longrightarrow> \<not> is_err e ErrEventAlreadyExists) \<and>
     \<not> is_err (dc_reject c) ErrEventAlreadyExists"

definition foreign_json :: "externals \<Rightarrow> bool" where
  "foreign_json x \<longleftrightarrow> (\<forall>t e. x_time_json x t = Inl e \<longrightarrow> \<not> is_err e ErrEventAlreadyExists)"

lemma foreign_quiet [simp]: "foreign_call (quiet_call t)"
  by (simp add: foreign_call_def quiet_call_def)

lemma json_float_foreign: "json_float x bits f = Inl e \<Longrightarrow> \<not> is_err e s"
  by (cases f) auto

lemma json_marshal_foreign:
  "foreign_json x \<Longrightarrow> json_marshal x v = Inl e \<Longrightarrow> \<not> is_err e ErrEventAlreadyExists"
  "foreign_json x \<Longrightarrow> json_elems x vs = Inl e \<Longrightarrow> \<not> is_err e ErrEventAlreadyExists"
  "foreign_json x \<Longrightarrow> json_members x kvs = Inl e \<Longrightarrow> \<not> is_err e ErrEventAlreadyExists"
  by (induction x v and x vs and x kvs rule: json_marshal_json_elems_json_members.induct)
    (auto simp: foreign_json_def dest: json_float_foreign split: sum.splits)

definition trusted :: "externals \<Rightarrow> bool" where
  "trusted x \<longleftrightarrow> sound_columns x \<and> foreign_json x"

text \<open>Parameters that satisfy the requirements: columns that keep everything.  They stand in
  for the untrusted ones so that interpretations on the repository have no hypothesis.\<close>

definition plain_externals :: externals where
  "plain_externals = \<lparr>x_uuid_string = (\<lambda>u. itoa (uint u)), x_float_text = (\<lambda>_ _. ''0''),
     x_time_json = (\<lambda>t. Inr (json_string (itoa t))), x_pg_event = Some, x_pg_payload = Some\<rparr>"

definition trust :: "externals \<Rightarrow> externals" where
  "trust x = (if trusted x then x else plain_externals)"

lemma trusted_plain [simp]: "trusted plain_externals"
  by (simp add: trusted_def plain_externals_def sound_columns_def foreign_json_def)

lemma trusted_trust [simp]: "trusted (trust x)"
  by (simp add: trust_def)

lemma trust_id [simp]: "trusted x \<Longrightarrow> trust x = x"
  by (simp add: trust_def)

section \<open>The transaction is all or nothing\<close>

text \<open>What a committed save adds.\<close>

definition saved :: "externals \<Rightarrow> db_call \<Rightarrow> uuid \<Rightarrow> event \<Rightarrow> db \<Rightarrow> db \<Rightarrow> bool" where
  "saved x c rid ev s s' \<longleftrightarrow>
     (\<exists>r json p. x_pg_event x ev = Some r \<and>
        json_marshal x (outbox_payload ev) = Inr json \<and> x_pg_payload x json = Some p \<and>
        ev_event_id r \<notin> ev_event_id ` set (db_events s) \<and>
        ev_id r \<notin> ev_id ` set (db_events s) \<and>
        rid \<notin> or_id ` set (db_outbox s) \<and>
        ev_event_id ev \<notin> or_event_id ` set (db_outbox s) \<and>
        s' = \<lparr>db_events = db_events s @ [r\<lparr>ev_created_at := dc_now c\<rparr>],
              db_outbox = db_outbox s @ [new_outbox_row c rid ev p]\<rparr>)"

lemma insert_event_ReturnedD:
  "insert_event x c ev s = Returned s1 \<Longrightarrow>
   \<exists>r. x_pg_event x ev = Some r \<and> ev_event_id r \<notin> ev_event_id ` set (db_events s) \<and>
       ev_id r \<notin> ev_id ` set (db_events s) \<and>
       s1 = s\<lparr>db_events := db_events s @ [r\<lparr>ev_created_at := dc_now c\<rparr>]\<rparr>"
  by (auto simp: insert_event_def split: option.splits if_splits)

lemma insert_outbox_InrD:
  "insert_outbox x c rid ev json s1 = Inr s2 \<Longrightarrow>
   \<exists>p. x_pg_payload x json = Some p \<and> rid \<notin> or_id ` set (db_outbox s1) \<and>
       ev_event_id ev \<notin> or_event_id ` set (db_outbox s1) \<and>
       s2 = s1\<lparr>db_outbox := db_outbox s1 @ [new_outbox_row c rid ev p]\<rparr>"
  by (auto simp: insert_outbox_def split: option.splits if_splits)

lemma saved_intro:
  assumes "insert_event x c ev s = Returned s1"
    and "json_marshal x (outbox_payload ev) = Inr json"
    and "insert_outbox x c rid ev json s1 = Inr s2"
  shows "saved x c rid ev s s2"
proof -
  obtain r where r: "x_pg_event x ev = Some r" "ev_event_id r \<notin> ev_event_id ` set (db_events s)"
    "ev_id r \<notin> ev_id ` set (db_events s)"
    "s1 = s\<lparr>db_events := db_events s @ [r\<lparr>ev_created_at := dc_now c\<rparr>]\<rparr>"
    using insert_event_ReturnedD [OF assms(1)] by blast
  obtain p where "x_pg_payload x json = Some p" "rid \<notin> or_id ` set (db_outbox s1)"
    "ev_event_id ev \<notin> or_event_id ` set (db_outbox s1)"
    "s2 = s1\<lparr>db_outbox := db_outbox s1 @ [new_outbox_row c rid ev p]\<rparr>"
    using insert_outbox_InrD [OF assms(3)] by blast
  with r assms(2) show ?thesis unfolding saved_def by (intro exI) auto
qed

lemma Save_cases:
  obtains (unchanged) e where "Save x c rid ev s = (Some e, s)"
  | (ack_lost) e s' where "Save x c rid ev s = (Some e, s')" and "saved x c rid ev s s'"
      and "dc_end c \<noteq> Done"
  | (stored) s' where "Save x c rid ev s = (None, s')" and "saved x c rid ev s s'"
      and "dc_end c = Done"
proof (cases "dc_fail c AtBegin")
  case bgn: None
  show thesis
  proof (cases "insert_event x c ev s")
    case ins: (Returned s1)
    show thesis
    proof (cases "json_marshal x (outbox_payload ev)")
      case mar: (Inr json)
      show thesis
      proof (cases "insert_outbox x c rid ev json s1")
        case out: (Inr s2)
        note sv = saved_intro [OF ins mar out]
        show thesis using bgn ins mar out sv that by (cases "dc_end c") (auto simp: Save_def)
      qed (use bgn ins mar in \<open>auto simp: Save_def intro: unchanged\<close>)
    qed (use bgn ins in \<open>auto simp: Save_def intro: unchanged\<close>)
  qed (use bgn in \<open>auto simp: Save_def intro: unchanged\<close>)
qed (auto simp: Save_def intro: unchanged)

lemma saved_wf:
  assumes "sound_columns x" and "wf_db s" and "saved x c rid ev s s'"
  shows "wf_db s'"
  using assms by (auto simp: saved_def wf_db_def sound_columns_def new_outbox_row_def image_subset_iff)

lemma saved_paired:
  assumes "sound_columns x" and "paired s" and "saved x c rid ev s s'"
  shows "paired s'"
  using assms
  by (auto simp: saved_def paired_def sound_columns_def new_outbox_row_def image_subset_iff)

lemma Save_wf:
  "sound_columns x \<Longrightarrow> wf_db s \<Longrightarrow> Save x c rid ev s = (f, s') \<Longrightarrow> wf_db s'"
  by (rule Save_cases [of x c rid ev s]) (auto dest: saved_wf)

lemma Save_paired:
  "sound_columns x \<Longrightarrow> paired s \<Longrightarrow> Save x c rid ev s = (f, s') \<Longrightarrow> paired s'"
  by (rule Save_cases [of x c rid ev s]) (auto dest: saved_paired)

lemma Save_None: "Save x c rid ev s = (None, s') \<Longrightarrow> saved x c rid ev s s'"
  by (rule Save_cases [of x c rid ev s]) auto

text \<open>The conflict answer means exactly that the event identifier is taken.\<close>

lemma insert_event_NoRow_iff:
  assumes "sound_columns x"
  shows "insert_event x c ev s = NoRow \<longleftrightarrow>
    dc_fail c AtQuery = None \<and> x_pg_event x ev \<noteq> None \<and>
    ev_event_id ev \<in> ev_event_id ` set (db_events s)"
  using assms by (auto simp: insert_event_def sound_columns_def split: option.splits)

lemma insert_event_StmtError:
  "foreign_call c \<Longrightarrow> insert_event x c ev s = StmtError e \<Longrightarrow> \<not> is_err e ErrEventAlreadyExists"
  by (auto simp: insert_event_def foreign_call_def split: option.splits if_splits)

lemma insert_outbox_Inl:
  "foreign_call c \<Longrightarrow> insert_outbox x c rid ev json s = Inl e \<Longrightarrow> \<not> is_err e ErrEventAlreadyExists"
  by (auto simp: insert_outbox_def foreign_call_def split: option.splits if_splits)

lemma finish_Some:
  "foreign_call c \<Longrightarrow> finish (dc_end c) s s2 = (Some e, t) \<Longrightarrow> \<not> is_err e ErrEventAlreadyExists"
  by (cases "dc_end c") (auto simp: foreign_call_def)

lemma Save_exists_iff:
  assumes "sound_columns x" and "foreign_call c" and "foreign_json x"
    and "Save x c rid ev s = (Some e, s')"
  shows "is_err e ErrEventAlreadyExists \<longleftrightarrow>
    dc_fail c AtBegin = None \<and> insert_event x c ev s = NoRow"
  using assms(4)
  by (auto simp: Save_def foreign_call_def [THEN iffD1, OF assms(2)]
      dest: json_marshal_foreign(1) [OF assms(3)] insert_event_StmtError [OF assms(2)]
        insert_outbox_Inl [OF assms(2)] finish_Some [OF assms(2)]
      split: option.splits sum.splits insert_result.splits prod.splits)

lemma FindByEventID_Inr:
  "FindByEventID c eid s = Inr ev \<Longrightarrow> ev \<in> set (db_events s) \<and> ev_event_id ev = eid"
  by (auto simp: FindByEventID_def dest: row_of_SomeD split: option.splits)

lemma FindByEventID_present:
  "wf_db s \<Longrightarrow> dc_fail c AtQuery = None \<Longrightarrow> ev \<in> set (db_events s) \<Longrightarrow>
   FindByEventID c (ev_event_id ev) s = Inr ev"
  by (simp add: FindByEventID_def wf_db_def row_of_Some_iff [THEN iffD2])

section \<open>Properties\<close>

lemma saved_neq: "saved x c rid ev s s' \<Longrightarrow> s' \<noteq> s"
  by (cases s) (auto simp: saved_def)

text \<open>C3: saving an event is all or nothing.  Either the database is untouched and the caller
  sees an error, or exactly one events row and exactly one outbox row are added, the outbox row
  PENDING with no attempts, available at once and carrying the marshalled event; then the caller
  sees nil, unless it was the commit's acknowledgement that was lost.\<close>

theorem Save_all_or_nothing:
  "case Save x c rid ev s of (f, s') \<Rightarrow>
     if s' = s then f \<noteq> None
     else (f = None) = (dc_end c = Done) \<and>
       (\<exists>r json p. x_pg_event x ev = Some r \<and> json_marshal x (outbox_payload ev) = Inr json \<and>
          x_pg_payload x json = Some p \<and>
          s' = \<lparr>db_events = db_events s @ [r\<lparr>ev_created_at := dc_now c\<rparr>],
                db_outbox = db_outbox s @
                  [\<lparr>or_id = rid, or_event_id = ev_event_id ev, or_event_type = ev_type ev,
                    or_payload = p, or_status = PENDING, or_attempts = 0,
                    or_available_at = dc_now c, or_created_at = dc_now c, or_published_at = None,
                    or_last_error = None, or_processing_at = None\<rparr>]\<rparr>)"
proof (rule Save_cases [of x c rid ev s])
  fix e s'
  assume "Save x c rid ev s = (Some e, s')" and "saved x c rid ev s s'" and "dc_end c \<noteq> Done"
  then show ?thesis using saved_neq [of x c rid ev s s'] by (auto simp: saved_def new_outbox_row_def)
next
  fix s'
  assume "Save x c rid ev s = (None, s')" and "saved x c rid ev s s'" and "dc_end c = Done"
  then show ?thesis using saved_neq [of x c rid ev s s'] by (auto simp: saved_def new_outbox_row_def)
qed simp

text \<open>Saving keeps the tables well formed (unique keys, and no outbox row without its event)
  and keeps every event paired with an outbox row, on every path, the failing ones
  included.\<close>

lemma Save_keeps_pairing:
  assumes "sound_columns x" and "wf_db s" and "paired s"
  shows "wf_db (snd (Save x c rid ev s)) \<and> paired (snd (Save x c rid ev s))"
  using assms Save_wf Save_paired by (metis prod.collapse)

end
