(* ===== verification/Validation.thy ===== *)
theory Validation
  imports Domain
begin

text \<open>
  The property validator (internal/event/application/validator.go): the loop over the
  schema's fields with its early returns, and the type switch on a field's declared type.
\<close>

section \<open>The code\<close>

fun is_go_string :: "gvalue \<Rightarrow> bool" where
  "is_go_string (GString _) = True"
| "is_go_string _ = False"

fun is_go_number :: "gvalue \<Rightarrow> bool" where
  "is_go_number (GInt _) = True"
| "is_go_number (GInt32 _) = True"
| "is_go_number (GInt64 _) = True"
| "is_go_number (GFloat32 _) = True"
| "is_go_number (GFloat64 _) = True"
| "is_go_number _ = False"

fun is_go_bool :: "gvalue \<Rightarrow> bool" where
  "is_go_bool (GBool _) = True"
| "is_go_bool _ = False"

definition validateType :: "field_definition \<Rightarrow> gvalue \<Rightarrow> failure" where
  "validateType field v =
     (if fd_type field = FieldTypeString then
        (if is_go_string v then None
         else Some (ErrorString (fd_name field @ '' must be a string'')))
      else if fd_type field = FieldTypeNumber then
        (if is_go_number v then None
         else Some (ErrorString (fd_name field @ '' must be a number'')))
      else if fd_type field = FieldTypeBool then
        (if is_go_bool v then None
         else Some (ErrorString (fd_name field @ '' must be a boolean'')))
      else Some (ErrorString (''unsupported field type: '' @ fd_type field)))"

fun validate_fields :: "field_definition list \<Rightarrow> (string \<times> gvalue) list \<Rightarrow> failure" where
  "validate_fields [] props = None"
| "validate_fields (field # fds) props =
     (case map_of props (fd_name field) of
        None \<Rightarrow>
          if fd_required field then
            Some (WrapError
              (error_text (Sentinel ErrInvalidEventSchema) @ '': '' @ fd_name field @ '' is required'')
              [Sentinel ErrInvalidEventSchema])
          else validate_fields fds props
      | Some v \<Rightarrow>
          (case validateType field v of
             Some err \<Rightarrow>
               Some (WrapError
                 (error_text (Sentinel ErrInvalidEventSchema) @ '': '' @ error_text err)
                 [Sentinel ErrInvalidEventSchema, err])
           | None \<Rightarrow> validate_fields fds props))"

definition Validate :: "event_schema \<Rightarrow> properties \<Rightarrow> failure" where
  "Validate schema properties =
     (case properties of
        None \<Rightarrow> Some (WrapError (error_text (Sentinel ErrPropertiesRequired))
                        [Sentinel ErrPropertiesRequired])
      | Some props \<Rightarrow> validate_fields (schema_fields schema) props)"

section \<open>What it accepts\<close>

text \<open>The declarative meaning of a field definition for a set of properties.\<close>

definition has_type :: "string \<Rightarrow> gvalue \<Rightarrow> bool" where
  "has_type ty v \<longleftrightarrow>
     ty = FieldTypeString \<and> is_go_string v \<or>
     ty = FieldTypeNumber \<and> is_go_number v \<or>
     ty = FieldTypeBool \<and> is_go_bool v"

definition field_ok :: "(string \<times> gvalue) list \<Rightarrow> field_definition \<Rightarrow> bool" where
  "field_ok props field \<longleftrightarrow>
     (case map_of props (fd_name field) of
        None \<Rightarrow> \<not> fd_required field
      | Some v \<Rightarrow> has_type (fd_type field) v)"

lemma validateType_None_iff: "validateType field v = None \<longleftrightarrow> has_type (fd_type field) v"
  by (auto simp: validateType_def has_type_def field_type_defs)

lemma validateType_plain:
  "validateType field v = Some err \<Longrightarrow> \<not> is_err err s"
  by (auto simp: validateType_def split: if_splits)

lemma validate_fields_None_iff:
  "validate_fields fds props = None \<longleftrightarrow> (\<forall>f \<in> set fds. field_ok props f)"
  by (induction fds)
    (auto simp: field_ok_def validateType_None_iff [symmetric] split: option.splits)

text \<open>Every failure of the field loop is the schema error and no other sentinel.\<close>

lemma validate_fields_error:
  "validate_fields fds props = Some err \<Longrightarrow> is_err err s \<longleftrightarrow> s = ErrInvalidEventSchema"
  by (induction fds)
    (auto dest: validateType_plain split: option.splits if_splits)

text \<open>The error reported is that of the first field that is not acceptable.\<close>

lemma validate_fields_first:
  assumes "\<forall>g \<in> set pre. field_ok props g"
  shows "validate_fields (pre @ post) props = validate_fields post props"
  using assms
  by (induction pre)
    (auto simp: field_ok_def validateType_None_iff [symmetric] split: option.splits)

lemma Validate_None_iff:
  "Validate schema properties = None \<longleftrightarrow>
   (\<exists>props. properties = Some props \<and> (\<forall>f \<in> set (schema_fields schema). field_ok props f))"
  by (auto simp: Validate_def validate_fields_None_iff split: option.splits)

lemma Validate_error:
  "Validate schema properties = Some err \<Longrightarrow>
   is_err err s \<longleftrightarrow> s = (if properties = None then ErrPropertiesRequired else ErrInvalidEventSchema)"
  by (auto simp: Validate_def dest: validate_fields_error split: option.splits)

text \<open>Properties the schema does not name do not matter.\<close>

lemma validate_fields_cong:
  "(\<And>f. f \<in> set fds \<Longrightarrow> map_of props (fd_name f) = map_of props' (fd_name f)) \<Longrightarrow>
   validate_fields fds props = validate_fields fds props'"
  by (induction fds) (auto split: option.splits)

section \<open>Properties\<close>

text \<open>The error of one field that is not acceptable.\<close>

definition field_error :: "(string \<times> gvalue) list \<Rightarrow> field_definition \<Rightarrow> string" where
  "field_error props field =
     ''invalid event schema: '' @ fd_name field @
     (if map_of props (fd_name field) = None then '' is required''
      else if fd_type field = ''string'' then '' must be a string''
      else if fd_type field = ''number'' then '' must be a number'' else '' must be a boolean'')"

definition known_type :: "field_definition \<Rightarrow> bool" where
  "known_type field \<longleftrightarrow> fd_type field \<in> {FieldTypeString, FieldTypeNumber, FieldTypeBool}"

lemma validate_fields_bad:
  assumes "\<not> field_ok props f" and "known_type f"
  shows "\<exists>err. validate_fields (f # fds) props = Some err \<and> error_text err = field_error props f"
  using assms
  by (auto simp: field_ok_def field_error_def known_type_def has_type_def validateType_def
      field_type_defs split: option.splits)

text \<open>C35: the validator accepts exactly the non-nil properties in which every required field of
  the schema is present and every field that is present has a value of its declared type;
  properties the schema does not name play no part.\<close>

theorem validator_accepts_iff:
  "Validate schema properties = None \<longleftrightarrow>
   (\<exists>props. properties = Some props \<and>
      list_all (\<lambda>f. case map_of props (fd_name f) of
                      None \<Rightarrow> \<not> fd_required f
                    | Some v \<Rightarrow> has_type (fd_type f) v) (schema_fields schema))"
  unfolding Validate_None_iff list_all_iff field_ok_def by simp

text \<open>The error the validator reports is that of the first unacceptable field in the
  schema's order, it names the field and what is wrong with it, and it is the schema error and
  no other sentinel.\<close>

lemma validator_reports_first:
  assumes "schema_fields schema = pre @ field # post"
    and "\<forall>g \<in> set pre. field_ok props g" and "\<not> field_ok props field" and "known_type field"
  shows "\<exists>err. Validate schema (Some props) = Some err \<and> error_text err = field_error props field \<and>
    (\<forall>t. is_err err t = (t = ErrInvalidEventSchema))"
proof -
  obtain err where "validate_fields (field # post) props = Some err"
    "error_text err = field_error props field"
    using validate_fields_bad [OF assms(3,4)] by blast
  then have "Validate schema (Some props) = Some err"
    using validate_fields_first [OF assms(2)] assms(1) by (simp add: Validate_def)
  with \<open>error_text err = _\<close> Validate_error [OF this] show ?thesis by auto
qed

end
