(* ===== verification/Ingest.thy ===== *)
theory Ingest
  imports Store Validation
begin

text \<open>
  The ingestion use case (internal/event/application/ingest.go).  \<open>Handle\<close> takes the
  registry's lookup and the two operations of the \<open>EventRepository\<close> interface as
  arguments, as \<open>EventIngestor\<close> holds them in its fields; the contract of that
  interface is the locale \<open>event_repository\<close>, and the Postgres repository is its
  instance.
\<close>

section \<open>The code\<close>

record command =
  cmd_event_id :: uuid
  cmd_type :: string
  cmd_version :: int
  cmd_source :: string
  cmd_user_id :: string
  cmd_anonymous_id :: string
  cmd_session_id :: string
  cmd_timestamp :: time
  cmd_properties :: properties

record ingest_result =
  ir_event :: event
  ir_created :: bool

definition validateCommand :: "command \<Rightarrow> failure" where
  "validateCommand cmd =
     (if cmd_type cmd = [] then Some (Sentinel ErrInvalidEventType)
      else if cmd_version cmd \<le> 0 then Some (Sentinel ErrInvalidEventVersion)
      else if cmd_source cmd = [] then Some (Sentinel ErrInvalidSource)
      else if time_is_zero (cmd_timestamp cmd) then Some (Sentinel ErrTimestampRequired)
      else if cmd_properties cmd = None then Some (Sentinel ErrPropertiesRequired)
      else None)"

text \<open>The event built from the command; \<open>new_id\<close> is the fresh \<open>generateID()\<close>
  and the creation time is left zero.\<close>

definition event_of_command :: "uuid \<Rightarrow> command \<Rightarrow> event" where
  "event_of_command new_id cmd =
     \<lparr>ev_id = new_id, ev_event_id = cmd_event_id cmd, ev_type = cmd_type cmd,
      ev_version = cmd_version cmd, ev_source = cmd_source cmd, ev_user_id = cmd_user_id cmd,
      ev_anonymous_id = cmd_anonymous_id cmd, ev_session_id = cmd_session_id cmd,
      ev_timestamp = cmd_timestamp cmd, ev_properties = cmd_properties cmd,
      ev_created_at = 0\<rparr>"

definition Handle ::
  "(string \<Rightarrow> int \<Rightarrow> event_schema option) \<Rightarrow> (event \<Rightarrow> 's \<Rightarrow> failure \<times> 's) \<Rightarrow>
   (uuid \<Rightarrow> 's \<Rightarrow> event result) \<Rightarrow> uuid \<Rightarrow> command \<Rightarrow> 's \<Rightarrow> ingest_result result \<times> 's"
where
  "Handle get save find_by new_id cmd s =
     (case validateCommand cmd of
        Some err \<Rightarrow> (Inl err, s)
      | None \<Rightarrow>
     (case get (cmd_type cmd) (cmd_version cmd) of
        None \<Rightarrow> (Inl (Sentinel ErrInvalidEventType), s)
      | Some schema \<Rightarrow>
     (case Validate schema (cmd_properties cmd) of
        Some err \<Rightarrow> (Inl err, s)
      | None \<Rightarrow>
     (let ev = event_of_command new_id cmd in
      case save ev s of
        (None, s') \<Rightarrow> (Inr \<lparr>ir_event = ev, ir_created = True\<rparr>, s')
      | (Some err, s') \<Rightarrow>
          if is_err err ErrEventAlreadyExists then
            (case find_by (ev_event_id ev) s' of
               Inl findErr \<Rightarrow> (Inl (wrapf ''find existing event: '' findErr), s')
             | Inr existing \<Rightarrow> (Inr \<lparr>ir_event = existing, ir_created = False\<rparr>, s'))
          else (Inl (wrapf ''save event: '' err), s')))))"

section \<open>Admission\<close>

text \<open>The checks before the database, as one verdict.\<close>

definition admission :: "(string \<Rightarrow> int \<Rightarrow> event_schema option) \<Rightarrow> command \<Rightarrow> failure" where
  "admission get cmd =
     (case validateCommand cmd of
        Some err \<Rightarrow> Some err
      | None \<Rightarrow> (case get (cmd_type cmd) (cmd_version cmd) of
                  None \<Rightarrow> Some (Sentinel ErrInvalidEventType)
                | Some schema \<Rightarrow> Validate schema (cmd_properties cmd)))"

lemma event_of_command_simps [simp]:
  "ev_event_id (event_of_command i cmd) = cmd_event_id cmd"
  "ev_id (event_of_command i cmd) = i"
  "ev_type (event_of_command i cmd) = cmd_type cmd"
  "ev_version (event_of_command i cmd) = cmd_version cmd"
  by (simp_all add: event_of_command_def)

lemma Handle_admission:
  "Handle get save find_by new_id cmd s =
     (case admission get cmd of
        Some err \<Rightarrow> (Inl err, s)
      | None \<Rightarrow>
     (case save (event_of_command new_id cmd) s of
        (None, s') \<Rightarrow> (Inr \<lparr>ir_event = event_of_command new_id cmd, ir_created = True\<rparr>, s')
      | (Some err, s') \<Rightarrow>
          if is_err err ErrEventAlreadyExists then
            (case find_by (cmd_event_id cmd) s' of
               Inl findErr \<Rightarrow> (Inl (wrapf ''find existing event: '' findErr), s')
             | Inr existing \<Rightarrow> (Inr \<lparr>ir_event = existing, ir_created = False\<rparr>, s'))
          else (Inl (wrapf ''save event: '' err), s')))"
  by (simp add: Handle_def admission_def Let_def split: option.splits prod.splits)

lemma validateCommand_None_iff:
  "validateCommand cmd = None \<longleftrightarrow>
     cmd_type cmd \<noteq> [] \<and> 0 < cmd_version cmd \<and> cmd_source cmd \<noteq> [] \<and>
     \<not> time_is_zero (cmd_timestamp cmd) \<and> cmd_properties cmd \<noteq> None"
  by (auto simp: validateCommand_def)

lemma admission_None_iff:
  "admission get cmd = None \<longleftrightarrow>
     cmd_type cmd \<noteq> [] \<and> 0 < cmd_version cmd \<and> cmd_source cmd \<noteq> [] \<and>
     \<not> time_is_zero (cmd_timestamp cmd) \<and>
     (\<exists>schema props. get (cmd_type cmd) (cmd_version cmd) = Some schema \<and>
        cmd_properties cmd = Some props \<and> (\<forall>f \<in> set (schema_fields schema). field_ok props f))"
proof -
  have "admission get cmd = None \<longleftrightarrow> validateCommand cmd = None \<and>
      (\<exists>schema. get (cmd_type cmd) (cmd_version cmd) = Some schema \<and>
         Validate schema (cmd_properties cmd) = None)"
    by (auto simp: admission_def split: option.splits)
  then show ?thesis unfolding validateCommand_None_iff Validate_None_iff by auto
qed

text \<open>Every refusal carries exactly one of the application's sentinels.\<close>

lemma validateCommand_error:
  "validateCommand cmd = Some err \<Longrightarrow>
   \<exists>s \<in> {ErrInvalidEventType, ErrInvalidEventVersion, ErrInvalidSource, ErrTimestampRequired,
         ErrPropertiesRequired}. err = Sentinel s"
  by (auto simp: validateCommand_def split: if_splits)

lemma admission_error:
  assumes "admission get cmd = Some err"
  shows "\<exists>s \<in> {ErrInvalidEventType, ErrInvalidEventVersion, ErrInvalidSource, ErrTimestampRequired,
         ErrPropertiesRequired, ErrInvalidEventSchema}. \<forall>t. is_err err t \<longleftrightarrow> t = s"
proof (cases "validateCommand cmd")
  case (Some e)
  with assms have "validateCommand cmd = Some err" by (simp add: admission_def)
  then show ?thesis by (auto dest!: validateCommand_error)
next
  case None
  show ?thesis
  proof (cases "get (cmd_type cmd) (cmd_version cmd)")
    case no_schema: None
    with None assms have "err = Sentinel ErrInvalidEventType" by (simp add: admission_def)
    then show ?thesis by auto
  next
    case (Some schema)
    with None assms have "Validate schema (cmd_properties cmd) = Some err"
      by (simp add: admission_def)
    from Validate_error [OF this] show ?thesis by (cases "cmd_properties cmd") auto
  qed
qed

section \<open>The repository's contract\<close>

text \<open>\<open>'c\<close> is what varies from call to call (how the database answers, fresh
  identifiers); \<open>fair\<close> calls are those whose infrastructure errors are not the
  domain's sentinel, \<open>smooth\<close> calls meet no infrastructure error at all.\<close>

locale event_repository =
  fixes save :: "'c \<Rightarrow> event \<Rightarrow> 's \<Rightarrow> failure \<times> 's"
    and find_by :: "'c \<Rightarrow> uuid \<Rightarrow> 's \<Rightarrow> event result"
    and stored :: "'s \<Rightarrow> event list"
    and inv :: "'s \<Rightarrow> bool"
    and accepts :: "event \<Rightarrow> bool"
    and fair :: "'c \<Rightarrow> bool"
    and smooth :: "'c \<Rightarrow> bool"
  assumes inv_distinct: "inv s \<Longrightarrow> distinct (map ev_event_id (stored s))"
    and save_inv: "inv s \<Longrightarrow> save c ev s = (f, s') \<Longrightarrow> inv s'"
    and save_grows: "inv s \<Longrightarrow> save c ev s = (f, s') \<Longrightarrow>
      s' = s \<or> (\<exists>r. stored s' = stored s @ [r] \<and> ev_event_id r = ev_event_id ev)"
    and save_stores: "inv s \<Longrightarrow> save c ev s = (None, s') \<Longrightarrow>
      \<exists>r. stored s' = stored s @ [r] \<and> ev_event_id r = ev_event_id ev"
    and save_taken: "inv s \<Longrightarrow> fair c \<Longrightarrow> save c ev s = (Some e, s') \<Longrightarrow>
      is_err e ErrEventAlreadyExists \<Longrightarrow> s' = s \<and> ev_event_id ev \<in> ev_event_id ` set (stored s)"
    and save_conflict: "inv s \<Longrightarrow> smooth c \<Longrightarrow> accepts ev \<Longrightarrow>
      ev_event_id ev \<in> ev_event_id ` set (stored s) \<Longrightarrow>
      save c ev s = (Some (Sentinel ErrEventAlreadyExists), s)"
    and find_sound: "find_by c eid s = Inr ev \<Longrightarrow> ev \<in> set (stored s) \<and> ev_event_id ev = eid"
    and find_complete: "inv s \<Longrightarrow> smooth c \<Longrightarrow> ev \<in> set (stored s) \<Longrightarrow>
      find_by c (ev_event_id ev) s = Inr ev"
begin

definition ingest :: "(string \<Rightarrow> int \<Rightarrow> event_schema option) \<Rightarrow> 'c \<Rightarrow> 'c \<Rightarrow> uuid \<Rightarrow> command \<Rightarrow> 's \<Rightarrow>
    ingest_result result \<times> 's" where
  "ingest get c1 c2 new_id cmd s = Handle get (save c1) (find_by c2) new_id cmd s"

lemma ingest_inv: "inv s \<Longrightarrow> ingest get c1 c2 i cmd s = (r, s') \<Longrightarrow> inv s'"
  by (auto simp: ingest_def Handle_admission dest: save_inv
      split: option.splits prod.splits if_splits sum.splits)

text \<open>Nothing stored is ever changed or lost, and at most one event is added.\<close>

lemma ingest_grows:
  "inv s \<Longrightarrow> ingest get c1 c2 i cmd s = (r, s') \<Longrightarrow>
   s' = s \<or> (\<exists>ev. stored s' = stored s @ [ev] \<and> ev_event_id ev = cmd_event_id cmd)"
  by (auto simp: ingest_def Handle_admission dest: save_grows
      split: option.splits prod.splits if_splits sum.splits)

lemma ingest_refused:
  "admission get cmd = Some err \<Longrightarrow> ingest get c1 c2 i cmd s = (Inl err, s)"
  by (simp add: ingest_def Handle_admission)

lemma ingest_created:
  assumes "inv s" and "ingest get c1 c2 i cmd s = (Inr r, s')" and "ir_created r"
  shows "cmd_event_id cmd \<notin> ev_event_id ` set (stored s) \<and>
    cmd_event_id cmd \<in> ev_event_id ` set (stored s') \<and> ir_event r = event_of_command i cmd"
proof -
  have sv: "save c1 (event_of_command i cmd) s = (None, s')" and "ir_event r = event_of_command i cmd"
    using assms(2,3)
    by (auto simp: ingest_def Handle_admission split: option.splits prod.splits if_splits sum.splits)
  obtain ev where ev: "stored s' = stored s @ [ev]" "ev_event_id ev = cmd_event_id cmd"
    using save_stores [OF assms(1) sv] by auto
  moreover have "distinct (map ev_event_id (stored s'))"
    using save_inv [OF assms(1) sv] by (rule inv_distinct)
  ultimately show ?thesis using \<open>ir_event r = _\<close> by auto
qed

lemma ingest_existing:
  assumes "inv s" and "fair c1" and "ingest get c1 c2 i cmd s = (Inr r, s')" and "\<not> ir_created r"
  shows "s' = s \<and> ir_event r \<in> set (stored s) \<and> ev_event_id (ir_event r) = cmd_event_id cmd"
  using assms
  by (auto simp: ingest_def Handle_admission dest!: find_sound dest: save_taken
      split: option.splits prod.splits if_splits sum.splits)

text \<open>A repeated request answers with the event stored first and changes nothing.\<close>

lemma ingest_again:
  assumes "inv s" and "smooth c1" and "smooth c2" and "admission get cmd = None"
    and "accepts (event_of_command i cmd)" and "ev \<in> set (stored s)"
    and "ev_event_id ev = cmd_event_id cmd"
  shows "ingest get c1 c2 i cmd s = (Inr \<lparr>ir_event = ev, ir_created = False\<rparr>, s)"
proof -
  have "cmd_event_id cmd \<in> ev_event_id ` set (stored s)"
    using assms(6,7) by (metis imageI)
  then have "save c1 (event_of_command i cmd) s = (Some (Sentinel ErrEventAlreadyExists), s)"
    by (intro save_conflict) (use assms in auto)
  moreover have "find_by c2 (cmd_event_id cmd) s = Inr ev"
    using find_complete [OF assms(1,3,6)] assms(7) by simp
  ultimately show ?thesis using assms(4) by (simp add: ingest_def Handle_admission)
qed

text \<open>Whatever the database does, a request for a stored identifier changes nothing and cannot show
  another event.\<close>

lemma ingest_taken:
  assumes "inv s" and "ev \<in> set (stored s)" and "ev_event_id ev = cmd_event_id cmd"
    and "ingest get c1 c2 i cmd s = (answer, s')"
  shows "s' = s" and "answer = Inr r \<Longrightarrow> r = \<lparr>ir_event = ev, ir_created = False\<rparr>"
proof -
  have "distinct (map ev_event_id (stored s'))" by (rule inv_distinct [OF ingest_inv [OF assms(1,4)]])
  then show same: "s' = s" using ingest_grows [OF assms(1,4)] assms(2,3) by force
  assume r: "answer = Inr r"
  have ig: "ingest get c1 c2 i cmd s = (Inr r, s')" using assms(4) r by simp
  have "\<not> ir_created r" using ingest_created [OF assms(1) ig] assms(2,3) by (metis imageI)
  then have "find_by c2 (cmd_event_id cmd) s = Inr (ir_event r)"
    using assms(4) r same
    by (auto simp: ingest_def Handle_admission split: option.splits prod.splits if_splits sum.splits)
  then have "ir_event r \<in> set (stored s)" "ev_event_id (ir_event r) = ev_event_id ev"
    using find_sound assms(3) by auto
  then have "ir_event r = ev" using inv_distinct [OF assms(1)] assms(2) by (metis distinct_key_eq)
  with \<open>\<not> ir_created r\<close> show "r = \<lparr>ir_event = ev, ir_created = False\<rparr>" by (cases r) simp
qed

text \<open>A run of requests, each with its own fresh identifier and its own fate.\<close>

fun ingest_all :: "(string \<Rightarrow> int \<Rightarrow> event_schema option) \<Rightarrow>
    ('c \<times> 'c \<times> uuid \<times> command) list \<Rightarrow> 's \<Rightarrow> 's" where
  "ingest_all get [] s = s"
| "ingest_all get ((c1, c2, i, cmd) # reqs) s =
     ingest_all get reqs (snd (ingest get c1 c2 i cmd s))"

lemma ingest_all_inv: "inv s \<Longrightarrow> inv (ingest_all get reqs s)"
proof (induction reqs arbitrary: s)
  case (Cons q reqs)
  obtain c1 c2 i cmd where q: "q = (c1, c2, i, cmd)" by (cases q)
  have "inv (snd (ingest get c1 c2 i cmd s))"
    using Cons.prems ingest_inv by (metis prod.collapse)
  with Cons.IH q show ?case by simp
qed simp

lemma ingest_all_prefix: "inv s \<Longrightarrow> \<exists>new. stored (ingest_all get reqs s) = stored s @ new"
proof (induction reqs arbitrary: s)
  case (Cons q reqs)
  obtain c1 c2 i cmd where q: "q = (c1, c2, i, cmd)" by (cases q)
  let ?t = "snd (ingest get c1 c2 i cmd s)"
  have "inv ?t" using Cons.prems ingest_inv by (metis prod.collapse)
  then obtain new where new: "stored (ingest_all get reqs ?t) = stored ?t @ new"
    using Cons.IH by blast
  have "\<exists>ev. stored ?t = stored s @ ev"
    using ingest_grows [OF Cons.prems, of get c1 c2 i cmd] by (metis append_Nil2 prod.collapse)
  with new q show ?case by auto
qed simp

lemma ingest_all_distinct: "inv s \<Longrightarrow> distinct (map ev_event_id (stored (ingest_all get reqs s)))"
  by (rule inv_distinct) (rule ingest_all_inv)

end

section \<open>The Postgres repository is an instance\<close>

text \<open>The call's parameters: how Postgres answers and the outbox row's fresh identifier.
  The contract is proved for parameters that satisfy \<open>trusted\<close>.\<close>

definition pg_save :: "externals \<Rightarrow> db_call \<times> uuid \<Rightarrow> event \<Rightarrow> db \<Rightarrow> failure \<times> db" where
  "pg_save x c ev s = Save x (fst c) (snd c) ev s"

definition pg_find :: "db_call \<times> uuid \<Rightarrow> uuid \<Rightarrow> db \<Rightarrow> event result" where
  "pg_find c eid s = FindByEventID (fst c) eid s"

interpretation pg: event_repository "pg_save (trust x)" pg_find db_events wf_db
  "\<lambda>ev. x_pg_event (trust x) ev \<noteq> None" "\<lambda>c. foreign_call (fst c)" "\<lambda>c. smooth_call (fst c)"
  for x
proof unfold_locales
  have tr: "sound_columns (trust x)" "foreign_json (trust x)"
    using trusted_trust [of x] by (auto simp: trusted_def)
  fix s s' :: db and c :: "db_call \<times> uuid" and ev e f
  show "wf_db s \<Longrightarrow> distinct (map ev_event_id (db_events s))"
    by (simp add: wf_db_def)
  show "wf_db s \<Longrightarrow> pg_save (trust x) c ev s = (f, s') \<Longrightarrow> wf_db s'"
    unfolding pg_save_def by (rule Save_wf [OF tr(1)])
  show "wf_db s \<Longrightarrow> pg_save (trust x) c ev s = (f, s') \<Longrightarrow>
      s' = s \<or> (\<exists>r. db_events s' = db_events s @ [r] \<and> ev_event_id r = ev_event_id ev)"
    unfolding pg_save_def using tr(1)
    by (rule_tac Save_cases [of "trust x" "fst c" "snd c" ev s])
      (auto simp: saved_def sound_columns_def)
  show "wf_db s \<Longrightarrow> pg_save (trust x) c ev s = (None, s') \<Longrightarrow>
      \<exists>r. db_events s' = db_events s @ [r] \<and> ev_event_id r = ev_event_id ev"
    unfolding pg_save_def using tr(1) by (auto dest!: Save_None simp: saved_def sound_columns_def)
  show "wf_db s \<Longrightarrow> foreign_call (fst c) \<Longrightarrow> pg_save (trust x) c ev s = (Some e, s') \<Longrightarrow>
      is_err e ErrEventAlreadyExists \<Longrightarrow>
      s' = s \<and> ev_event_id ev \<in> ev_event_id ` set (db_events s)"
  proof -
    assume "foreign_call (fst c)" and sv: "pg_save (trust x) c ev s = (Some e, s')"
      and "is_err e ErrEventAlreadyExists"
    then have "dc_fail (fst c) AtBegin = None" and "insert_event (trust x) (fst c) ev s = NoRow"
      using Save_exists_iff [OF tr(1) _ tr(2), of "fst c" "snd c" ev s e s']
      unfolding pg_save_def by auto
    with sv show "s' = s \<and> ev_event_id ev \<in> ev_event_id ` set (db_events s)"
      by (simp add: pg_save_def Save_def insert_event_NoRow_iff [OF tr(1)])
  qed
  show "wf_db s \<Longrightarrow> smooth_call (fst c) \<Longrightarrow> x_pg_event (trust x) ev \<noteq> None \<Longrightarrow>
      ev_event_id ev \<in> ev_event_id ` set (db_events s) \<Longrightarrow>
      pg_save (trust x) c ev s = (Some (Sentinel ErrEventAlreadyExists), s)"
    unfolding pg_save_def
    by (simp add: Save_def insert_event_NoRow_iff [OF tr(1), THEN iffD2])
  show "pg_find c eid s = Inr ev \<Longrightarrow> ev \<in> set (db_events s) \<and> ev_event_id ev = eid" for eid
    unfolding pg_find_def by (rule FindByEventID_Inr)
  show "wf_db s \<Longrightarrow> smooth_call (fst c) \<Longrightarrow> ev \<in> set (db_events s) \<Longrightarrow>
      pg_find c (ev_event_id ev) s = Inr ev"
    unfolding pg_find_def by (simp add: FindByEventID_present)
qed

section \<open>Requests served by the Postgres repository\<close>

text \<open>A request: how its two database calls go, the fresh identifiers of the event and of the
  outbox row, and its command.\<close>

record request =
  rq_save_call :: db_call
  rq_find_call :: db_call
  rq_id :: uuid
  rq_row_id :: uuid
  rq_command :: command

definition handle_request ::
  "externals \<Rightarrow> (string \<Rightarrow> int \<Rightarrow> event_schema option) \<Rightarrow> request \<Rightarrow> db \<Rightarrow> ingest_result result \<times> db"
where
  "handle_request x get q =
     Handle get (Save x (rq_save_call q) (rq_row_id q)) (FindByEventID (rq_find_call q))
       (rq_id q) (rq_command q)"

fun serve :: "externals \<Rightarrow> (string \<Rightarrow> int \<Rightarrow> event_schema option) \<Rightarrow> request list \<Rightarrow> db \<Rightarrow>
    ingest_result result list \<times> db" where
  "serve x get [] s = ([], s)"
| "serve x get (q # qs) s =
     (let (r, s1) = handle_request x get q s; (rs, s2) = serve x get qs s1 in (r # rs, s2))"

lemma handle_request_pg:
  assumes "trusted x"
  shows "handle_request x get q = pg.ingest x get (rq_save_call q, rq_row_id q)
    (rq_find_call q, undefined) (rq_id q) (rq_command q)"
proof (rule ext)
  fix s
  have 1: "Save x (rq_save_call q) (rq_row_id q) = pg_save (trust x) (rq_save_call q, rq_row_id q)"
    and 2: "FindByEventID (rq_find_call q) = pg_find (rq_find_call q, undefined)"
    using assms by (simp_all add: pg_save_def pg_find_def fun_eq_iff)
  show "handle_request x get q s = pg.ingest x get (rq_save_call q, rq_row_id q)
      (rq_find_call q, undefined) (rq_id q) (rq_command q) s"
    by (simp only: handle_request_def pg.ingest_def 1 2)
qed

definition command_example :: "int \<Rightarrow> command" where
  "command_example v =
     \<lparr>cmd_event_id = 7, cmd_type = ''search'', cmd_version = v, cmd_source = ''web'', cmd_user_id = [],
      cmd_anonymous_id = [], cmd_session_id = [], cmd_timestamp = 5,
      cmd_properties = Some [(''keyword'', GString ''go''), (''result_count'', GFloat64 (Finite 3))]\<rparr>"

definition request_example :: "uuid \<Rightarrow> request" where
  "request_example i =
     \<lparr>rq_save_call = quiet_call 100, rq_find_call = quiet_call 100, rq_id = i, rq_row_id = i,
      rq_command = command_example 1\<rparr>"

definition search_only :: "string \<Rightarrow> int \<Rightarrow> event_schema option" where
  "search_only t v = (if t = ''search'' \<and> v = 1 then Some SearchSchema else None)"

lemma admission_example: "admission search_only (command_example 1) = None"
  by (simp add: admission_None_iff command_example_def search_only_def SearchSchema_def
      time_is_zero_def field_ok_def has_type_def field_type_defs)

section \<open>Properties\<close>

text \<open>What a request can do.  An error answer leaves the database alone unless the commit
  itself was not acknowledged; a "created" answer means that the event identifier was free and
  is now stored; an "existing" answer means that nothing changed and the event shown is the
  one stored under the identifier.\<close>

lemma ingest_outcomes:
  assumes "trusted x" and "wf_db s" and "foreign_call (rq_save_call q)"
    and "handle_request x get q s = (answer, s')"
  shows "case answer of
      Inl err \<Rightarrow> s' = s \<or> dc_end (rq_save_call q) \<noteq> Done
    | Inr r \<Rightarrow>
        if ir_created r
        then cmd_event_id (rq_command q) \<notin> ev_event_id ` set (db_events s) \<and>
          cmd_event_id (rq_command q) \<in> ev_event_id ` set (db_events s') \<and>
          ir_event r = event_of_command (rq_id q) (rq_command q)
        else s' = s \<and> ir_event r \<in> set (db_events s) \<and>
          ev_event_id (ir_event r) = cmd_event_id (rq_command q)"
proof (cases answer)
  case (Inl err)
  show ?thesis
  proof (cases "dc_end (rq_save_call q) = Done")
    case True
    obtain f t where sv: "Save x (rq_save_call q) (rq_row_id q)
        (event_of_command (rq_id q) (rq_command q)) s = (f, t)"
      by fastforce
    have "f \<noteq> None \<Longrightarrow> t = s"
      using sv True
      by (rule_tac Save_cases [of x "rq_save_call q" "rq_row_id q"
            "event_of_command (rq_id q) (rq_command q)" s]) auto
    then have "s' = s"
      using assms(4) Inl sv unfolding handle_request_def Handle_admission
      by (auto split: option.splits if_splits sum.splits)
    with Inl show ?thesis by simp
  qed (use Inl in simp)
next
  case (Inr r)
  with assms(4) have ig: "pg.ingest x get (rq_save_call q, rq_row_id q) (rq_find_call q, undefined)
      (rq_id q) (rq_command q) s = (Inr r, s')"
    by (simp add: handle_request_pg [OF assms(1)])
  show ?thesis
    using pg.ingest_created [OF assms(2) ig] pg.ingest_existing [OF assms(2) _ ig] assms(3) Inr
    by simp
qed

text \<open>The event an answered request leaves in the database: the one it shows, or the one it created,
  as the columns hold it and with the time of the insert.\<close>

lemma answered_stored:
  assumes "trusted x" and "wf_db s" and "foreign_call (rq_save_call q)"
    and "handle_request x get q s = (Inr r, t)"
  shows "\<exists>ev \<in> set (db_events t). ev_event_id ev = cmd_event_id (rq_command q) \<and>
    (if ir_created r
     then \<exists>row. x_pg_event x (ir_event r) = Some row \<and> ev = row\<lparr>ev_created_at := dc_now (rq_save_call q)\<rparr>
     else ir_event r = ev)"
proof (cases "ir_created r")
  case True
  then have sv: "Save x (rq_save_call q) (rq_row_id q) (ir_event r) s = (None, t)"
    and ev: "ir_event r = event_of_command (rq_id q) (rq_command q)"
    using assms(4) by (auto simp: handle_request_def Handle_admission split: option.splits prod.splits if_splits sum.splits)
  obtain row where row: "x_pg_event x (ir_event r) = Some row"
    "db_events t = db_events s @ [row\<lparr>ev_created_at := dc_now (rq_save_call q)\<rparr>]"
    using Save_None [OF sv] by (auto simp: saved_def)
  have "ev_event_id row = cmd_event_id (rq_command q)"
    using row(1) assms(1) ev unfolding trusted_def sound_columns_def by fastforce
  with True row show ?thesis by auto
next
  case False
  then show ?thesis using ingest_outcomes [OF assms] by auto
qed

text \<open>A request for an identifier that is stored already, in any state of the tables.\<close>

lemma repeated_request:
  assumes "trusted x" and "wf_db s" and "ev \<in> set (db_events s)" and "ev_event_id ev = cmd_event_id (rq_command q)"
    and "handle_request x get q s = (answer, t)"
  shows "t = s" and "answer = Inr r \<Longrightarrow> r = \<lparr>ir_event = ev, ir_created = False\<rparr>"
    and "admission get (rq_command q) = None \<Longrightarrow>
      x_pg_event x (event_of_command (rq_id q) (rq_command q)) \<noteq> None \<Longrightarrow>
      smooth_call (rq_save_call q) \<Longrightarrow> smooth_call (rq_find_call q) \<Longrightarrow>
      answer = Inr \<lparr>ir_event = ev, ir_created = False\<rparr>"
proof -
  have ig: "pg.ingest x get (rq_save_call q, rq_row_id q) (rq_find_call q, undefined)
      (rq_id q) (rq_command q) s = (answer, t)"
    using assms(5) by (simp add: handle_request_pg [OF assms(1)])
  show "t = s" and "answer = Inr r \<Longrightarrow> r = \<lparr>ir_event = ev, ir_created = False\<rparr>"
    using pg.ingest_taken [OF assms(2-4) ig] by auto
  assume "admission get (rq_command q) = None" "x_pg_event x (event_of_command (rq_id q) (rq_command q)) \<noteq> None"
    "smooth_call (rq_save_call q)" "smooth_call (rq_find_call q)"
  then show "answer = Inr \<lparr>ir_event = ev, ir_created = False\<rparr>"
    using pg.ingest_again [OF assms(2) _ _ _ _ assms(3,4), of "(rq_save_call q, rq_row_id q)" "(rq_find_call q, undefined)"
        get x "rq_id q"] ig assms(1) by auto
qed

lemma handle_example:
  "fst (handle_request plain_externals search_only (request_example 3) empty_db)
    = Inr \<lparr>ir_event = event_of_command 3 (command_example 1), ir_created = True\<rparr>"
  using admission_example
  by (simp add: handle_request_def Handle_admission request_example_def Save_def insert_event_def
      insert_outbox_def plain_externals_def empty_db_def outbox_payload_def command_example_def
      event_of_command_def properties_value_def)

lemma handle_request_consistent:
  assumes "trusted x" and "wf_db s" and "paired s"
  shows "wf_db (snd (handle_request x get q s)) \<and> paired (snd (handle_request x get q s)) \<and>
    (\<exists>new. db_events (snd (handle_request x get q s)) = db_events s @ new)"
proof -
  have tr: "sound_columns x" using assms(1) by (simp add: trusted_def)
  obtain r s' where h: "handle_request x get q s = (r, s')" by fastforce
  then have ig: "pg.ingest x get (rq_save_call q, rq_row_id q) (rq_find_call q, undefined)
      (rq_id q) (rq_command q) s = (r, s')"
    by (simp add: handle_request_pg [OF assms(1)])
  obtain f t where sv: "Save x (rq_save_call q) (rq_row_id q)
      (event_of_command (rq_id q) (rq_command q)) s = (f, t)" by fastforce
  have "s' = s \<or> s' = t"
    using h sv unfolding handle_request_def Handle_admission
    by (auto split: option.splits if_splits sum.splits)
  then have "paired s'" using assms(3) Save_paired [OF tr assms(3) sv] by auto
  with pg.ingest_inv [OF assms(2) ig] pg.ingest_grows [OF assms(2) ig] h show ?thesis by auto
qed

definition prefix_of :: "'a list \<Rightarrow> 'a list \<Rightarrow> bool" where
  "prefix_of xs ys \<longleftrightarrow> take (length xs) ys = xs"

fun created_ids :: "ingest_result result list \<Rightarrow> uuid list" where
  "created_ids [] = []"
| "created_ids (Inl e # rs) = created_ids rs"
| "created_ids (Inr r # rs) =
     (if ir_created r then ev_event_id (ir_event r) # created_ids rs else created_ids rs)"

lemma serve_created:
  assumes "trusted x" and "wf_db s" and "paired s" and "serve x get qs s = (rs, s')"
  shows "wf_db s' \<and> paired s' \<and> (\<exists>new. db_events s' = db_events s @ new) \<and>
    distinct (created_ids rs) \<and> set (created_ids rs) \<inter> ev_event_id ` set (db_events s) = {}"
  using assms(2-)
proof (induction qs arbitrary: s rs)
  case (Cons q qs)
  obtain r s1 where h: "handle_request x get q s = (r, s1)" by fastforce
  obtain rs1 where sv: "serve x get qs s1 = (rs1, s')" and rs: "rs = r # rs1"
    using Cons.prems h by (auto split: prod.splits)
  have c: "wf_db s1" "paired s1" and "\<exists>new. db_events s1 = db_events s @ new"
    using handle_request_consistent [OF assms(1) Cons.prems(1,2), of get q] h by auto
  then obtain new where new: "db_events s1 = db_events s @ new" by blast
  note ih = Cons.IH [OF c sv]
  have ig: "pg.ingest x get (rq_save_call q, rq_row_id q) (rq_find_call q, undefined)
      (rq_id q) (rq_command q) s = (r, s1)"
    using h by (simp add: handle_request_pg [OF assms(1)])
  show ?case
  proof (cases "created_ids [r]")
    case Nil
    then have "created_ids rs = created_ids rs1" using rs by (cases r) (auto split: if_splits)
    with ih new show ?thesis by auto
  next
    case (Cons i is0)
    then obtain a where a: "r = Inr a" "ir_created a" "i = ev_event_id (ir_event a)" "is0 = []"
      by (cases r) (auto split: if_splits)
    then have "cmd_event_id (rq_command q) \<notin> ev_event_id ` set (db_events s)"
      "cmd_event_id (rq_command q) \<in> ev_event_id ` set (db_events s1)"
      "i = cmd_event_id (rq_command q)"
      using pg.ingest_created [of s x get "(rq_save_call q, rq_row_id q)" "(rq_find_call q, undefined)"
          "rq_id q" "rq_command q" a s1] ig Cons.prems(1) by auto
    with ih new rs a show ?thesis by auto
  qed
qed simp

text \<open>C5: over any run of requests, whatever their order, contents and database failures, at
  most one request per event identifier is ever answered "created", none for an identifier that
  was already stored; stored events are never lost or changed; and the tables stay well formed
  with an outbox row for every event.\<close>

theorem serve_consistent:
  assumes "trusted x" and "wf_db s" and "paired s"
  shows "let (answers, s') = serve x get requests s in
    distinct (created_ids answers) \<and>
    (\<forall>i \<in> set (created_ids answers). i \<notin> ev_event_id ` set (db_events s)) \<and>
    prefix_of (db_events s) (db_events s') \<and> wf_db s' \<and>
    ev_event_id ` set (db_events s') = or_event_id ` set (db_outbox s')"
proof -
  obtain answers s' where sv: "serve x get requests s = (answers, s')" by fastforce
  from serve_created [OF assms this] show ?thesis
    by (auto simp: sv wf_db_def paired_def prefix_of_def)
qed

theorem serve_consistent_witness:
  "let (answers, s') = serve plain_externals search_only [request_example 1, request_example 2] empty_db in
    distinct (created_ids answers) \<and>
    (\<forall>i \<in> set (created_ids answers). i \<notin> ev_event_id ` set (db_events empty_db)) \<and>
    prefix_of (db_events empty_db) (db_events s') \<and> wf_db s' \<and>
    ev_event_id ` set (db_events s') = or_event_id ` set (db_outbox s')"
  by (rule serve_consistent) (simp_all add: wf_db_def paired_def empty_db_def)

end
