(* ===== verification/Config.thy ===== *)
theory Config
  imports Domain
begin

text \<open>
  The configuration (internal/config/config.go): reading of the environment, defaults and
  validation.  The environment is a function from names to values, empty for a variable
  that is not set, as \<open>os.Getenv\<close> reports it.  \<open>time.ParseDuration\<close> and
  \<open>strconv.ParseFloat\<close> are arguments; \<open>Atoi\<close> and \<open>ParseInt\<close> are those of
  \<open>Go_Strings\<close>.  Durations are nanoseconds.
\<close>

section \<open>The code\<close>

type_synonym environment = "string \<Rightarrow> string"

record parsers =
  parse_duration :: "string \<Rightarrow> int result"
  parse_float :: "string \<Rightarrow> f64 result"

record KafkaConfig =
  kc_brokers :: "string list"
  kc_topic :: string
  kc_client_id :: string
  kc_write_timeout :: int
  kc_max_attempts :: int
  kc_batch_timeout :: int

record DatabaseConfig =
  dbc_url :: string
  dbc_max_conns :: int
  dbc_min_conns :: int
  dbc_max_conn_lifetime :: int
  dbc_max_conn_idle_time :: int

record OutboxConfig =
  oc_workers :: int
  oc_batch_size :: int
  oc_interval :: int
  oc_publisher :: string
  oc_stale_timeout :: int
  oc_publish_failure_rate :: f64

record Configuration =
  cf_database :: DatabaseConfig
  cf_outbox :: OutboxConfig
  cf_kafka :: KafkaConfig
  cf_shutdown_timeout :: int

definition Millisecond :: int where "Millisecond = 1000000"
definition Second :: int where "Second = 1000 * Millisecond"
definition Minute :: int where "Minute = 60 * Second"

lemmas time_units = Millisecond_def Second_def Minute_def

definition defaultKafkaBrokers :: string where "defaultKafkaBrokers = ''localhost:9092''"
definition defaultKafkaTopic :: string where "defaultKafkaTopic = ''eventflow.events''"
definition defaultKafkaClientID :: string where "defaultKafkaClientID = ''eventflow-api''"
definition defaultKafkaWriteTimeout :: int where "defaultKafkaWriteTimeout = 10 * Second"
definition defaultKafkaMaxAttempts :: int where "defaultKafkaMaxAttempts = 3"
definition defaultKafkaBatchTimeout :: int where "defaultKafkaBatchTimeout = 10 * Millisecond"

definition OutboxPublisherKafka :: string where "OutboxPublisherKafka = ''kafka''"
definition OutboxPublisherLog :: string where "OutboxPublisherLog = ''log''"
definition defaultOutboxWorkers :: int where "defaultOutboxWorkers = 1"
definition defaultOutboxBatchSize :: int where "defaultOutboxBatchSize = 100"
definition defaultOutboxInterval :: int where "defaultOutboxInterval = 5 * Second"
definition defaultOutboxStaleTimeout :: int where "defaultOutboxStaleTimeout = 5 * Minute"
definition defaultOutboxPublisher :: string where "defaultOutboxPublisher = OutboxPublisherKafka"

lemmas config_defaults = defaultKafkaBrokers_def defaultKafkaTopic_def defaultKafkaClientID_def
  defaultKafkaWriteTimeout_def defaultKafkaMaxAttempts_def defaultKafkaBatchTimeout_def
  OutboxPublisherKafka_def OutboxPublisherLog_def defaultOutboxWorkers_def
  defaultOutboxBatchSize_def defaultOutboxInterval_def defaultOutboxStaleTimeout_def
  defaultOutboxPublisher_def

subsection \<open>Validation\<close>

definition KafkaConfig_Validate :: "KafkaConfig \<Rightarrow> failure" where
  "KafkaConfig_Validate c =
     (if kc_brokers c = [] then Some (ErrorString ''KAFKA_BROKERS is required'')
      else if list_ex (\<lambda>b. b = []) (kc_brokers c) then
        Some (ErrorString ''KAFKA_BROKERS contains an empty broker address'')
      else if kc_topic c = [] then Some (ErrorString ''KAFKA_TOPIC is required'')
      else if kc_client_id c = [] then Some (ErrorString ''KAFKA_CLIENT_ID is required'')
      else if kc_write_timeout c \<le> 0 then
        Some (ErrorString ''KAFKA_WRITE_TIMEOUT must be greater than 0'')
      else if kc_max_attempts c \<le> 0 then
        Some (ErrorString ''KAFKA_MAX_ATTEMPTS must be greater than 0'')
      else if kc_batch_timeout c \<le> 0 then
        Some (ErrorString ''KAFKA_BATCH_TIMEOUT must be greater than 0'')
      else None)"

definition OutboxConfig_Validate :: "OutboxConfig \<Rightarrow> failure" where
  "OutboxConfig_Validate c =
     (if oc_publisher c \<noteq> OutboxPublisherKafka \<and> oc_publisher c \<noteq> OutboxPublisherLog then
        Some (ErrorString (''OUTBOX_PUBLISHER must be '' @ go_quote OutboxPublisherKafka @
                '' or '' @ go_quote OutboxPublisherLog))
      else if oc_workers c \<le> 0 then Some (ErrorString ''OUTBOX_WORKERS must be greater than 0'')
      else if oc_batch_size c \<le> 0 then
        Some (ErrorString ''OUTBOX_BATCH_SIZE must be greater than 0'')
      else if oc_interval c \<le> 0 then Some (ErrorString ''OUTBOX_INTERVAL must be greater than 0'')
      else if oc_stale_timeout c \<le> 0 then
        Some (ErrorString ''OUTBOX_STALE_TIMEOUT must be greater than 0'')
      else if f64_less (oc_publish_failure_rate c) (Finite 0) \<or>
              f64_le (Finite 1) (oc_publish_failure_rate c) then
        Some (ErrorString ''PUBLISH_FAILURE_RATE must be in [0, 1)'')
      else None)"

definition DatabaseConfig_Validate :: "DatabaseConfig \<Rightarrow> failure" where
  "DatabaseConfig_Validate c =
     (if dbc_url c = [] then Some (ErrorString ''DATABASE_URL is required'')
      else if dbc_max_conns c \<le> 0 then Some (ErrorString ''DB_MAX_CONNS must be greater than 0'')
      else if dbc_min_conns c < 0 then
        Some (ErrorString ''DB_MIN_CONNS must be greater than or equal to 0'')
      else if dbc_min_conns c > dbc_max_conns c then
        Some (ErrorString ''DB_MIN_CONNS cannot be greater than DB_MAX_CONNS'')
      else if dbc_max_conn_lifetime c \<le> 0 then
        Some (ErrorString ''DB_MAX_CONN_LIFETIME must be greater than 0'')
      else if dbc_max_conn_idle_time c \<le> 0 then
        Some (ErrorString ''DB_MAX_CONN_IDLE_TIME must be greater than 0'')
      else None)"

subsection \<open>Readers\<close>

definition getStringWithDefault :: "environment \<Rightarrow> string \<Rightarrow> string \<Rightarrow> string" where
  "getStringWithDefault env key fallback =
     (let v = trim_space (env key) in if v = [] then fallback else v)"

definition splitList :: "string \<Rightarrow> string list" where
  "splitList v = filter (\<lambda>part. part \<noteq> []) (map trim_space (split_on CHR '','' v))"

definition getFloatWithDefault :: "parsers \<Rightarrow> environment \<Rightarrow> string \<Rightarrow> f64 \<Rightarrow> f64 result" where
  "getFloatWithDefault ps env key fallback =
     (let v = env key in
      if v = [] then Inr fallback
      else case parse_float ps v of
        Inl e \<Rightarrow> Inl (wrapf (key @ '' must be a number: '') e)
      | Inr r \<Rightarrow> Inr r)"

definition getInt32 :: "environment \<Rightarrow> string \<Rightarrow> int result" where
  "getInt32 env key =
     (let v = env key in
      if v = [] then Inl (ErrorString (key @ '' is required''))
      else case parse_int ''ParseInt'' 32 v of
        Inl e \<Rightarrow> Inl (wrapf (key @ '' must be an integer: '') e)
      | Inr r \<Rightarrow> Inr r)"

definition getIntWithDefault :: "environment \<Rightarrow> string \<Rightarrow> int \<Rightarrow> int result" where
  "getIntWithDefault env key fallback =
     (let v = env key in
      if v = [] then Inr fallback
      else case atoi v of
        Inl e \<Rightarrow> Inl (wrapf (key @ '' must be an integer: '') e)
      | Inr r \<Rightarrow>
          if r \<le> 0 then Inl (ErrorString (key @ '' must be greater than 0'')) else Inr r)"

definition getDurationWithDefault :: "parsers \<Rightarrow> environment \<Rightarrow> string \<Rightarrow> int \<Rightarrow> int result" where
  "getDurationWithDefault ps env key fallback =
     (let v = env key in
      if v = [] then Inr fallback
      else case parse_duration ps v of
        Inl e \<Rightarrow> Inl (wrapf (key @ '' must be a valid duration: '') e)
      | Inr r \<Rightarrow>
          if r \<le> 0 then Inl (ErrorString (key @ '' must be greater than 0'')) else Inr r)"

definition getDuration :: "parsers \<Rightarrow> environment \<Rightarrow> string \<Rightarrow> int result" where
  "getDuration ps env key =
     (let v = env key in
      if v = [] then Inl (ErrorString (key @ '' is required''))
      else case parse_duration ps v of
        Inl e \<Rightarrow> Inl (wrapf (key @ '' must be a valid duration: '') e)
      | Inr r \<Rightarrow> Inr r)"

subsection \<open>Loading\<close>

definition loadKafka :: "parsers \<Rightarrow> environment \<Rightarrow> KafkaConfig result" where
  "loadKafka ps env =
     (let brokers = splitList (getStringWithDefault env ''KAFKA_BROKERS'' defaultKafkaBrokers) in
      bind_result (getDurationWithDefault ps env ''KAFKA_WRITE_TIMEOUT'' defaultKafkaWriteTimeout)
        (\<lambda>writeTimeout.
      bind_result (getIntWithDefault env ''KAFKA_MAX_ATTEMPTS'' defaultKafkaMaxAttempts)
        (\<lambda>maxAttempts.
      bind_result (getDurationWithDefault ps env ''KAFKA_BATCH_TIMEOUT'' defaultKafkaBatchTimeout)
        (\<lambda>batchTimeout.
      let cfg = \<lparr>kc_brokers = brokers,
                 kc_topic = getStringWithDefault env ''KAFKA_TOPIC'' defaultKafkaTopic,
                 kc_client_id = getStringWithDefault env ''KAFKA_CLIENT_ID'' defaultKafkaClientID,
                 kc_write_timeout = writeTimeout, kc_max_attempts = maxAttempts,
                 kc_batch_timeout = batchTimeout\<rparr>
      in case KafkaConfig_Validate cfg of Some e \<Rightarrow> Inl e | None \<Rightarrow> Inr cfg))))"

definition loadOutbox :: "parsers \<Rightarrow> environment \<Rightarrow> OutboxConfig result" where
  "loadOutbox ps env =
     bind_result (getIntWithDefault env ''OUTBOX_WORKERS'' defaultOutboxWorkers) (\<lambda>workers.
     bind_result (getIntWithDefault env ''OUTBOX_BATCH_SIZE'' defaultOutboxBatchSize) (\<lambda>batchSize.
     bind_result (getDurationWithDefault ps env ''OUTBOX_INTERVAL'' defaultOutboxInterval)
       (\<lambda>interval.
     bind_result (getDurationWithDefault ps env ''OUTBOX_STALE_TIMEOUT'' defaultOutboxStaleTimeout)
       (\<lambda>staleTimeout.
     bind_result (getFloatWithDefault ps env ''PUBLISH_FAILURE_RATE'' (Finite 0)) (\<lambda>failureRate.
     if f64_less failureRate (Finite 0) \<or> f64_le (Finite 1) failureRate then
       Inl (ErrorString ''PUBLISH_FAILURE_RATE must be in [0, 1)'')
     else
       let cfg = \<lparr>oc_workers = workers, oc_batch_size = batchSize, oc_interval = interval,
                  oc_publisher = getStringWithDefault env ''OUTBOX_PUBLISHER'' defaultOutboxPublisher,
                  oc_stale_timeout = staleTimeout, oc_publish_failure_rate = failureRate\<rparr>
       in case OutboxConfig_Validate cfg of Some e \<Rightarrow> Inl e | None \<Rightarrow> Inr cfg)))))"

definition Load :: "parsers \<Rightarrow> environment \<Rightarrow> Configuration result" where
  "Load ps env =
     (let databaseURL = env ''DATABASE_URL'' in
      if databaseURL = [] then Inl (ErrorString ''DATABASE_URL is required'')
      else
        bind_result (getInt32 env ''DB_MAX_CONNS'') (\<lambda>maxConns.
        bind_result (getInt32 env ''DB_MIN_CONNS'') (\<lambda>minConns.
        bind_result (getDuration ps env ''DB_MAX_CONN_LIFETIME'') (\<lambda>maxLifetime.
        bind_result (getDuration ps env ''DB_MAX_CONN_IDLE_TIME'') (\<lambda>maxIdleTime.
        bind_result (getDurationWithDefault ps env ''SHUTDOWN_TIMEOUT'' (30 * Second))
          (\<lambda>shutdownTimeout.
        bind_result (loadOutbox ps env) (\<lambda>outbox.
        bind_result (loadKafka ps env) (\<lambda>kafka.
        Inr \<lparr>cf_database = \<lparr>dbc_url = databaseURL, dbc_max_conns = maxConns,
               dbc_min_conns = minConns, dbc_max_conn_lifetime = maxLifetime,
               dbc_max_conn_idle_time = maxIdleTime\<rparr>,
             cf_outbox = outbox, cf_kafka = kafka, cf_shutdown_timeout = shutdownTimeout\<rparr>))))))))"

section \<open>What a loaded configuration guarantees\<close>

text \<open>The rate test rejects everything outside the unit interval except NaN, for which both
  comparisons are false.\<close>

definition rate_in_range :: "f64 \<Rightarrow> bool" where
  "rate_in_range r \<longleftrightarrow> (\<exists>q. r = Finite q \<and> 0 \<le> q \<and> q < 1)"

lemma rate_test_iff:
  "\<not> (f64_less r (Finite 0) \<or> f64_le (Finite 1) r) \<longleftrightarrow> rate_in_range r \<or> r = NaN"
  by (cases r) (auto simp: rate_in_range_def)

lemma OutboxConfig_Validate_None_iff:
  "OutboxConfig_Validate c = None \<longleftrightarrow>
     oc_publisher c \<in> {OutboxPublisherKafka, OutboxPublisherLog} \<and> 0 < oc_workers c \<and>
     0 < oc_batch_size c \<and> 0 < oc_interval c \<and> 0 < oc_stale_timeout c \<and>
     (rate_in_range (oc_publish_failure_rate c) \<or> oc_publish_failure_rate c = NaN)"
  using rate_test_iff [of "oc_publish_failure_rate c"] by (auto simp: OutboxConfig_Validate_def)

lemma KafkaConfig_Validate_None_iff:
  "KafkaConfig_Validate c = None \<longleftrightarrow>
     kc_brokers c \<noteq> [] \<and> [] \<notin> set (kc_brokers c) \<and> kc_topic c \<noteq> [] \<and> kc_client_id c \<noteq> [] \<and>
     0 < kc_write_timeout c \<and> 0 < kc_max_attempts c \<and> 0 < kc_batch_timeout c"
  by (auto simp: KafkaConfig_Validate_def list_ex_iff)

lemma DatabaseConfig_Validate_None_iff:
  "DatabaseConfig_Validate c = None \<longleftrightarrow>
     dbc_url c \<noteq> [] \<and> 0 < dbc_max_conns c \<and> 0 \<le> dbc_min_conns c \<and>
     dbc_min_conns c \<le> dbc_max_conns c \<and> 0 < dbc_max_conn_lifetime c \<and>
     0 < dbc_max_conn_idle_time c"
  by (auto simp: DatabaseConfig_Validate_def)

lemma loadKafka_valid: "loadKafka ps env = Inr cfg \<Longrightarrow> KafkaConfig_Validate cfg = None"
  by (auto simp: loadKafka_def Let_def bind_result_Inr_iff split: option.splits)

lemma loadOutbox_valid: "loadOutbox ps env = Inr cfg \<Longrightarrow> OutboxConfig_Validate cfg = None"
  by (auto simp: loadOutbox_def Let_def bind_result_Inr_iff split: option.splits if_splits)

lemma getDurationWithDefault_pos:
  "getDurationWithDefault ps env key d = Inr r \<Longrightarrow> 0 < d \<Longrightarrow> 0 < r"
  by (auto simp: getDurationWithDefault_def Let_def split: if_splits sum.splits)

lemma getInt32_range: "getInt32 env key = Inr r \<Longrightarrow> - (2 ^ 31) \<le> r \<and> r < 2 ^ 31"
  by (auto simp: getInt32_def Let_def dest!: parse_int_range split: if_splits sum.splits)

lemma Load_parts:
  assumes "Load ps env = Inr cfg"
  shows "loadOutbox ps env = Inr (cf_outbox cfg)" and "loadKafka ps env = Inr (cf_kafka cfg)"
    and "getDurationWithDefault ps env ''SHUTDOWN_TIMEOUT'' (30 * Second) = Inr (cf_shutdown_timeout cfg)"
    and "getInt32 env ''DB_MAX_CONNS'' = Inr (dbc_max_conns (cf_database cfg))"
    and "getInt32 env ''DB_MIN_CONNS'' = Inr (dbc_min_conns (cf_database cfg))"
    and "dbc_url (cf_database cfg) = env ''DATABASE_URL''" and "env ''DATABASE_URL'' \<noteq> []"
  using assms by (auto simp: Load_def Let_def bind_result_Inr_iff split: if_splits)

text \<open>The entries of a split list are trimmed and not blank.\<close>

lemma splitList_entries:
  "b \<in> set (splitList v) \<Longrightarrow> b \<noteq> [] \<and> (\<exists>p \<in> set (split_on CHR '','' v). b = trim_space p)"
  by (auto simp: splitList_def)

section \<open>Rendering a configuration as an environment\<close>

text \<open>Text that needs no trimming: printable ASCII without spaces.\<close>

definition plain_text :: "string \<Rightarrow> bool" where
  "plain_text s \<longleftrightarrow> list_all (\<lambda>c. 32 < (of_char c :: nat) \<and> (of_char c :: nat) < 127) s"

fun comma_list :: "string list \<Rightarrow> string" where
  "comma_list [] = []"
| "comma_list [b] = b"
| "comma_list (b # c # bs) = b @ CHR '','' # comma_list (c # bs)"

definition render_environment :: "(int \<Rightarrow> string) \<Rightarrow> (f64 \<Rightarrow> string) \<Rightarrow> Configuration \<Rightarrow> environment" where
  "render_environment dur flt cfg = (\<lambda>_. [])
     (''DATABASE_URL'' := dbc_url (cf_database cfg),
      ''DB_MAX_CONNS'' := itoa (dbc_max_conns (cf_database cfg)),
      ''DB_MIN_CONNS'' := itoa (dbc_min_conns (cf_database cfg)),
      ''DB_MAX_CONN_LIFETIME'' := dur (dbc_max_conn_lifetime (cf_database cfg)),
      ''DB_MAX_CONN_IDLE_TIME'' := dur (dbc_max_conn_idle_time (cf_database cfg)),
      ''SHUTDOWN_TIMEOUT'' := dur (cf_shutdown_timeout cfg),
      ''OUTBOX_WORKERS'' := itoa (oc_workers (cf_outbox cfg)),
      ''OUTBOX_BATCH_SIZE'' := itoa (oc_batch_size (cf_outbox cfg)),
      ''OUTBOX_INTERVAL'' := dur (oc_interval (cf_outbox cfg)),
      ''OUTBOX_PUBLISHER'' := oc_publisher (cf_outbox cfg),
      ''OUTBOX_STALE_TIMEOUT'' := dur (oc_stale_timeout (cf_outbox cfg)),
      ''PUBLISH_FAILURE_RATE'' := flt (oc_publish_failure_rate (cf_outbox cfg)),
      ''KAFKA_BROKERS'' := comma_list (kc_brokers (cf_kafka cfg)),
      ''KAFKA_TOPIC'' := kc_topic (cf_kafka cfg),
      ''KAFKA_CLIENT_ID'' := kc_client_id (cf_kafka cfg),
      ''KAFKA_WRITE_TIMEOUT'' := dur (kc_write_timeout (cf_kafka cfg)),
      ''KAFKA_MAX_ATTEMPTS'' := itoa (kc_max_attempts (cf_kafka cfg)),
      ''KAFKA_BATCH_TIMEOUT'' := dur (kc_batch_timeout (cf_kafka cfg)))"

definition in_int64 :: "int \<Rightarrow> bool" where
  "in_int64 i \<longleftrightarrow> - (2 ^ 63) \<le> i \<and> i < 2 ^ 63"

definition in_int32 :: "int \<Rightarrow> bool" where
  "in_int32 i \<longleftrightarrow> - (2 ^ 31) \<le> i \<and> i < 2 ^ 31"

text \<open>The parsers read back what was written: every 64-bit duration, and the failure rate.\<close>

definition reads_back :: "parsers \<Rightarrow> (int \<Rightarrow> string) \<Rightarrow> (f64 \<Rightarrow> string) \<Rightarrow> Configuration \<Rightarrow> bool" where
  "reads_back ps dur flt cfg \<longleftrightarrow>
     (\<forall>d. in_int64 d \<longrightarrow> dur d \<noteq> [] \<and> parse_duration ps (dur d) = Inr d) \<and>
     (let r = oc_publish_failure_rate (cf_outbox cfg) in flt r \<noteq> [] \<and> parse_float ps (flt r) = Inr r)"

definition renderable :: "Configuration \<Rightarrow> bool" where
  "renderable cfg \<longleftrightarrow>
     DatabaseConfig_Validate (cf_database cfg) = None \<and>
     OutboxConfig_Validate (cf_outbox cfg) = None \<and>
     KafkaConfig_Validate (cf_kafka cfg) = None \<and> 0 < cf_shutdown_timeout cfg \<and>
     in_int32 (dbc_max_conns (cf_database cfg)) \<and> in_int32 (dbc_min_conns (cf_database cfg)) \<and>
     in_int64 (oc_workers (cf_outbox cfg)) \<and> in_int64 (oc_batch_size (cf_outbox cfg)) \<and>
     in_int64 (kc_max_attempts (cf_kafka cfg)) \<and>
     list_all in_int64 [dbc_max_conn_lifetime (cf_database cfg), dbc_max_conn_idle_time (cf_database cfg),
       cf_shutdown_timeout cfg, oc_interval (cf_outbox cfg), oc_stale_timeout (cf_outbox cfg),
       kc_write_timeout (cf_kafka cfg), kc_batch_timeout (cf_kafka cfg)] \<and>
     plain_text (kc_topic (cf_kafka cfg)) \<and> plain_text (kc_client_id (cf_kafka cfg)) \<and>
     list_all (\<lambda>b. plain_text b \<and> CHR '','' \<notin> set b) (kc_brokers (cf_kafka cfg))"

lemma plain_no_space:
  assumes "plain_text s" and "\<And>p. p \<in> set encs \<Longrightarrow> p \<noteq> [] \<and> \<not> plain_text [hd p]"
  shows "strips_prefix encs s = None"
proof -
  have "take (length p) s \<noteq> p" if "p \<in> set encs" for p
  proof
    assume t: "take (length p) s = p"
    with assms(2) [OF that] have "hd p = hd s" "s \<noteq> []"
      by (metis hd_take length_greater_0_conv, metis take_Nil)
    with assms show False using that by (cases s) (auto simp: plain_text_def)
  qed
  then show ?thesis by (auto simp: strips_prefix_def find_None_iff)
qed

lemma trim_plain [simp]: "plain_text s \<Longrightarrow> trim_space s = s"
proof -
  assume s: "plain_text s"
  then have r: "plain_text (rev s)" by (auto simp: plain_text_def list_all_iff)
  show "trim_space s = s"
    by (rule trim_space_ident; rule plain_no_space [OF s] plain_no_space [OF r])
      (auto simp: space_encodings_def plain_text_def)
qed

lemma plain_comma_list:
  "list_all plain_text bs \<Longrightarrow> plain_text (comma_list bs)"
  by (induction bs rule: comma_list.induct) (auto simp: plain_text_def)

lemma split_comma_list:
  "bs \<noteq> [] \<Longrightarrow> list_all (\<lambda>b. CHR '','' \<notin> set b) bs \<Longrightarrow> split_on CHR '','' (comma_list bs) = bs"
  by (induction bs rule: comma_list.induct) (auto simp: split_on_single split_on_append_sep)

lemma splitList_comma_list:
  assumes "bs \<noteq> []" and "[] \<notin> set bs"
    and "list_all (\<lambda>b. plain_text b \<and> CHR '','' \<notin> set b) bs"
  shows "splitList (comma_list bs) = bs"
proof -
  have "map trim_space bs = bs"
    using assms(3) by (intro map_idI) (simp add: list_all_iff)
  moreover have "filter (\<lambda>p. p \<noteq> []) bs = bs"
    using assms(2) by (intro filter_True) auto
  ultimately show ?thesis
    using split_comma_list [OF assms(1)] assms(3) by (simp add: splitList_def list_all_iff)
qed

lemma getStringWithDefault_plain:
  "plain_text (env key) \<Longrightarrow> env key \<noteq> [] \<Longrightarrow> getStringWithDefault env key d = env key"
  by (simp add: getStringWithDefault_def Let_def)

lemma getInt_read:
  "env key = itoa i \<Longrightarrow> in_int64 i \<Longrightarrow> 0 < i \<Longrightarrow> getIntWithDefault env key d = Inr i"
  "env key = itoa j \<Longrightarrow> in_int32 j \<Longrightarrow> getInt32 env key = Inr j"
  by (simp_all add: getIntWithDefault_def getInt32_def atoi_def parse_int_itoa in_int64_def in_int32_def)

lemma getDuration_read:
  assumes "reads_back ps dur flt cfg"
  shows "env key = dur d \<Longrightarrow> in_int64 d \<Longrightarrow> 0 < d \<Longrightarrow> getDurationWithDefault ps env key e = Inr d"
    and "env key = dur d \<Longrightarrow> in_int64 d \<Longrightarrow> getDuration ps env key = Inr d"
    and "env key = flt (oc_publish_failure_rate (cf_outbox cfg)) \<Longrightarrow>
      getFloatWithDefault ps env key f = Inr (oc_publish_failure_rate (cf_outbox cfg))"
  using assms
  by (auto simp: reads_back_def getDurationWithDefault_def getDuration_def getFloatWithDefault_def Let_def)

lemma render_at:
  "render_environment dur flt cfg ''DATABASE_URL'' = dbc_url (cf_database cfg)"
  "render_environment dur flt cfg ''DB_MAX_CONNS'' = itoa (dbc_max_conns (cf_database cfg))"
  "render_environment dur flt cfg ''DB_MIN_CONNS'' = itoa (dbc_min_conns (cf_database cfg))"
  "render_environment dur flt cfg ''DB_MAX_CONN_LIFETIME'' = dur (dbc_max_conn_lifetime (cf_database cfg))"
  "render_environment dur flt cfg ''DB_MAX_CONN_IDLE_TIME'' = dur (dbc_max_conn_idle_time (cf_database cfg))"
  "render_environment dur flt cfg ''SHUTDOWN_TIMEOUT'' = dur (cf_shutdown_timeout cfg)"
  "render_environment dur flt cfg ''OUTBOX_WORKERS'' = itoa (oc_workers (cf_outbox cfg))"
  "render_environment dur flt cfg ''OUTBOX_BATCH_SIZE'' = itoa (oc_batch_size (cf_outbox cfg))"
  "render_environment dur flt cfg ''OUTBOX_INTERVAL'' = dur (oc_interval (cf_outbox cfg))"
  "render_environment dur flt cfg ''OUTBOX_PUBLISHER'' = oc_publisher (cf_outbox cfg)"
  "render_environment dur flt cfg ''OUTBOX_STALE_TIMEOUT'' = dur (oc_stale_timeout (cf_outbox cfg))"
  "render_environment dur flt cfg ''PUBLISH_FAILURE_RATE'' = flt (oc_publish_failure_rate (cf_outbox cfg))"
  "render_environment dur flt cfg ''KAFKA_BROKERS'' = comma_list (kc_brokers (cf_kafka cfg))"
  "render_environment dur flt cfg ''KAFKA_TOPIC'' = kc_topic (cf_kafka cfg)"
  "render_environment dur flt cfg ''KAFKA_CLIENT_ID'' = kc_client_id (cf_kafka cfg)"
  "render_environment dur flt cfg ''KAFKA_WRITE_TIMEOUT'' = dur (kc_write_timeout (cf_kafka cfg))"
  "render_environment dur flt cfg ''KAFKA_MAX_ATTEMPTS'' = itoa (kc_max_attempts (cf_kafka cfg))"
  "render_environment dur flt cfg ''KAFKA_BATCH_TIMEOUT'' = dur (kc_batch_timeout (cf_kafka cfg))"
  by (simp_all add: render_environment_def)

text \<open>The three groups of variables, each read back on its own.\<close>

lemma loadOutbox_render:
  assumes "renderable cfg" and "reads_back ps dur flt cfg"
  shows "loadOutbox ps (render_environment dur flt cfg) = Inr (cf_outbox cfg)"
proof -
  let ?env = "render_environment dur flt cfg" and ?o = "cf_outbox cfg"
  note v = assms(1) [unfolded renderable_def]
  have o: "0 < oc_workers ?o" "0 < oc_batch_size ?o" "0 < oc_interval ?o" "0 < oc_stale_timeout ?o"
    "oc_publisher ?o \<in> {OutboxPublisherKafka, OutboxPublisherLog}"
    "\<not> (f64_less (oc_publish_failure_rate ?o) (Finite 0) \<or> f64_le (Finite 1) (oc_publish_failure_rate ?o))"
    using v unfolding rate_test_iff OutboxConfig_Validate_None_iff by auto
  have i: "in_int64 (oc_workers ?o)" "in_int64 (oc_batch_size ?o)" "in_int64 (oc_interval ?o)"
    "in_int64 (oc_stale_timeout ?o)" "OutboxConfig_Validate ?o = None"
    using v by simp_all
  have "plain_text (oc_publisher ?o) \<and> oc_publisher ?o \<noteq> []"
    using o(5) by (auto simp: plain_text_def OutboxPublisherKafka_def OutboxPublisherLog_def)
  then have pub: "getStringWithDefault ?env ''OUTBOX_PUBLISHER'' defaultOutboxPublisher = oc_publisher ?o"
    by (simp add: getStringWithDefault_plain render_at)
  have 1: "getIntWithDefault ?env ''OUTBOX_WORKERS'' defaultOutboxWorkers = Inr (oc_workers ?o)"
    by (rule getInt_read(1) [OF _ i(1) o(1)]) (rule render_at)
  have 2: "getIntWithDefault ?env ''OUTBOX_BATCH_SIZE'' defaultOutboxBatchSize = Inr (oc_batch_size ?o)"
    by (rule getInt_read(1) [OF _ i(2) o(2)]) (rule render_at)
  have 3: "getDurationWithDefault ps ?env ''OUTBOX_INTERVAL'' defaultOutboxInterval = Inr (oc_interval ?o)"
    by (rule getDuration_read(1) [OF assms(2) _ i(3) o(3)]) (rule render_at)
  have 4: "getDurationWithDefault ps ?env ''OUTBOX_STALE_TIMEOUT'' defaultOutboxStaleTimeout =
      Inr (oc_stale_timeout ?o)"
    by (rule getDuration_read(1) [OF assms(2) _ i(4) o(4)]) (rule render_at)
  have 5: "getFloatWithDefault ps ?env ''PUBLISH_FAILURE_RATE'' (Finite 0) =
      Inr (oc_publish_failure_rate ?o)"
    by (rule getDuration_read(3) [OF assms(2)]) (rule render_at)
  show ?thesis unfolding loadOutbox_def 1 2 3 4 5 pub bind_result_simps Let_def
    using o(6) i(5) by (cases ?o) simp
qed

lemma loadKafka_render:
  assumes "renderable cfg" and "reads_back ps dur flt cfg"
  shows "loadKafka ps (render_environment dur flt cfg) = Inr (cf_kafka cfg)"
proof -
  let ?env = "render_environment dur flt cfg" and ?k = "cf_kafka cfg"
  note v = assms(1) [unfolded renderable_def]
  have k: "kc_brokers ?k \<noteq> []" "[] \<notin> set (kc_brokers ?k)" "kc_topic ?k \<noteq> []" "kc_client_id ?k \<noteq> []"
    "0 < kc_write_timeout ?k" "0 < kc_max_attempts ?k" "0 < kc_batch_timeout ?k"
    using v unfolding KafkaConfig_Validate_None_iff by auto
  have i: "in_int64 (kc_write_timeout ?k)" "in_int64 (kc_max_attempts ?k)" "in_int64 (kc_batch_timeout ?k)"
    "KafkaConfig_Validate ?k = None" "plain_text (kc_topic ?k)" "plain_text (kc_client_id ?k)"
    and b: "list_all (\<lambda>b. plain_text b \<and> CHR '','' \<notin> set b) (kc_brokers ?k)"
    using v by simp_all
  have "plain_text (comma_list (kc_brokers ?k))"
    using b by (intro plain_comma_list) (simp add: list_all_iff)
  moreover have "comma_list (kc_brokers ?k) \<noteq> []"
    using k(1,2) by (cases "kc_brokers ?k" rule: comma_list.cases) auto
  ultimately have br: "splitList (getStringWithDefault ?env ''KAFKA_BROKERS'' defaultKafkaBrokers) =
      kc_brokers ?k"
    using splitList_comma_list [OF k(1,2) b] by (simp add: getStringWithDefault_plain render_at)
  have tp: "getStringWithDefault ?env ''KAFKA_TOPIC'' defaultKafkaTopic = kc_topic ?k"
    "getStringWithDefault ?env ''KAFKA_CLIENT_ID'' defaultKafkaClientID = kc_client_id ?k"
    using i(5,6) k(3,4) by (simp_all add: getStringWithDefault_plain render_at)
  have 1: "getDurationWithDefault ps ?env ''KAFKA_WRITE_TIMEOUT'' defaultKafkaWriteTimeout =
      Inr (kc_write_timeout ?k)"
    by (rule getDuration_read(1) [OF assms(2) _ i(1) k(5)]) (rule render_at)
  have 2: "getIntWithDefault ?env ''KAFKA_MAX_ATTEMPTS'' defaultKafkaMaxAttempts = Inr (kc_max_attempts ?k)"
    by (rule getInt_read(1) [OF _ i(2) k(6)]) (rule render_at)
  have 3: "getDurationWithDefault ps ?env ''KAFKA_BATCH_TIMEOUT'' defaultKafkaBatchTimeout =
      Inr (kc_batch_timeout ?k)"
    by (rule getDuration_read(1) [OF assms(2) _ i(3) k(7)]) (rule render_at)
  show ?thesis unfolding loadKafka_def 1 2 3 br tp bind_result_simps Let_def
    using i(4) by (cases ?k) simp
qed

section \<open>Properties\<close>

definition example_configuration :: Configuration where
  "example_configuration =
     \<lparr>cf_database = \<lparr>dbc_url = ''postgres://db'', dbc_max_conns = 10, dbc_min_conns = 2,
        dbc_max_conn_lifetime = 60, dbc_max_conn_idle_time = 30\<rparr>,
      cf_outbox = \<lparr>oc_workers = 3, oc_batch_size = 10, oc_interval = 5,
        oc_publisher = OutboxPublisherLog, oc_stale_timeout = 7, oc_publish_failure_rate = Finite 0\<rparr>,
      cf_kafka = \<lparr>kc_brokers = [''a:1'', ''b:2''], kc_topic = ''events'', kc_client_id = ''api'',
        kc_write_timeout = 9, kc_max_attempts = 3, kc_batch_timeout = 8\<rparr>,
      cf_shutdown_timeout = 4\<rparr>"

text \<open>Parsers that read the decimal numerals, and the rate zero.\<close>

definition example_parsers :: parsers where
  "example_parsers = \<lparr>parse_duration = atoi, parse_float = (\<lambda>_. Inr (Finite 0))\<rparr>"

lemma example_renderable: "renderable example_configuration"
  by (simp add: renderable_def example_configuration_def DatabaseConfig_Validate_def
      OutboxConfig_Validate_def KafkaConfig_Validate_def in_int32_def in_int64_def plain_text_def)

lemma Load_rendered:
  assumes "renderable cfg" and "reads_back ps dur flt cfg"
  shows "Load ps (render_environment dur flt cfg) = Inr cfg"
proof -
  let ?env = "render_environment dur flt cfg" and ?d = "cf_database cfg"
  note v = assms(1) [unfolded renderable_def]
  have i: "in_int32 (dbc_max_conns ?d)" "in_int32 (dbc_min_conns ?d)"
    "in_int64 (dbc_max_conn_lifetime ?d)" "in_int64 (dbc_max_conn_idle_time ?d)"
    "in_int64 (cf_shutdown_timeout cfg)" "0 < cf_shutdown_timeout cfg"
    using v by simp_all
  have 0: "?env ''DATABASE_URL'' = dbc_url ?d" "dbc_url ?d \<noteq> []"
    using v by (simp_all add: render_at DatabaseConfig_Validate_None_iff)
  have 1: "getInt32 ?env ''DB_MAX_CONNS'' = Inr (dbc_max_conns ?d)"
    by (rule getInt_read(2) [OF _ i(1)]) (rule render_at)
  have 2: "getInt32 ?env ''DB_MIN_CONNS'' = Inr (dbc_min_conns ?d)"
    by (rule getInt_read(2) [OF _ i(2)]) (rule render_at)
  have 3: "getDuration ps ?env ''DB_MAX_CONN_LIFETIME'' = Inr (dbc_max_conn_lifetime ?d)"
    by (rule getDuration_read(2) [OF assms(2) _ i(3)]) (rule render_at)
  have 4: "getDuration ps ?env ''DB_MAX_CONN_IDLE_TIME'' = Inr (dbc_max_conn_idle_time ?d)"
    by (rule getDuration_read(2) [OF assms(2) _ i(4)]) (rule render_at)
  have 5: "getDurationWithDefault ps ?env ''SHUTDOWN_TIMEOUT'' (30 * Second) = Inr (cf_shutdown_timeout cfg)"
    by (rule getDuration_read(1) [OF assms(2) _ i(5,6)]) (rule render_at)
  show ?thesis
    unfolding Load_def 0(1) 1 2 3 4 5 loadOutbox_render [OF assms] loadKafka_render [OF assms]
      bind_result_simps Let_def
    using 0(2) by simp
qed

lemma example_loaded:
  "Load example_parsers (render_environment itoa (\<lambda>_. ''0'') example_configuration)
    = Inr example_configuration"
  by (rule Load_rendered [OF example_renderable])
    (simp add: reads_back_def example_parsers_def atoi_def parse_int_itoa in_int64_def
      example_configuration_def)

text \<open>C37: a configuration that \<open>Load\<close> accepts is usable.  The database URL is set, the numbers
  and durations of the workers and of the publisher are positive, the publisher is one of the
  two that exist, the broker list is not empty and has no blank entry, and the failure rate is
  in the half-open unit interval or not a number at all.\<close>

theorem Load_guarantees:
  assumes "Load ps env = Inr cfg"
  shows "dbc_url (cf_database cfg) \<noteq> [] \<and> 0 < cf_shutdown_timeout cfg \<and>
    0 < oc_workers (cf_outbox cfg) \<and> 0 < oc_batch_size (cf_outbox cfg) \<and>
    0 < oc_interval (cf_outbox cfg) \<and> 0 < oc_stale_timeout (cf_outbox cfg) \<and>
    oc_publisher (cf_outbox cfg) \<in> {''kafka'', ''log''} \<and>
    (rate_in_range (oc_publish_failure_rate (cf_outbox cfg)) \<or>
      oc_publish_failure_rate (cf_outbox cfg) = NaN) \<and>
    kc_brokers (cf_kafka cfg) \<noteq> [] \<and> [] \<notin> set (kc_brokers (cf_kafka cfg)) \<and>
    kc_topic (cf_kafka cfg) \<noteq> [] \<and> 0 < kc_write_timeout (cf_kafka cfg) \<and>
    0 < kc_max_attempts (cf_kafka cfg) \<and>
    - (2 ^ 31) \<le> dbc_max_conns (cf_database cfg) \<and> dbc_max_conns (cf_database cfg) < 2 ^ 31"
proof -
  note parts = Load_parts [OF assms]
  have "0 < cf_shutdown_timeout cfg"
    using getDurationWithDefault_pos [OF parts(3)] by (simp add: time_units)
  then show ?thesis
    using loadOutbox_valid [OF parts(1)] loadKafka_valid [OF parts(2)] getInt32_range [OF parts(4)]
      parts(6,7)
    by (simp add: OutboxConfig_Validate_None_iff KafkaConfig_Validate_None_iff
        OutboxPublisherKafka_def OutboxPublisherLog_def)
qed

text \<open>C36: reading inverts writing: every valid configuration, written into the environment variable
  by variable, is read back unchanged, for all parsers of durations and floats that invert the
  texts they are written with.\<close>

theorem Load_render:
  assumes "renderable cfg" and "reads_back ps dur flt cfg"
  shows "Load ps (render_environment dur flt cfg) = Inr cfg"
  using assms by (rule Load_rendered)

theorem Load_render_witness:
  "Load example_parsers (render_environment itoa (\<lambda>_. ''0'') example_configuration)
    = Inr example_configuration"
  by (rule Load_render [OF example_renderable])
    (simp add: reads_back_def example_parsers_def atoi_def parse_int_itoa in_int64_def
      example_configuration_def)

theorem Load_guarantees_witness:
  "let cfg = example_configuration in
    dbc_url (cf_database cfg) \<noteq> [] \<and> 0 < cf_shutdown_timeout cfg \<and>
    0 < oc_workers (cf_outbox cfg) \<and> 0 < oc_batch_size (cf_outbox cfg) \<and>
    0 < oc_interval (cf_outbox cfg) \<and> 0 < oc_stale_timeout (cf_outbox cfg) \<and>
    oc_publisher (cf_outbox cfg) \<in> {''kafka'', ''log''} \<and>
    (rate_in_range (oc_publish_failure_rate (cf_outbox cfg)) \<or>
      oc_publish_failure_rate (cf_outbox cfg) = NaN) \<and>
    kc_brokers (cf_kafka cfg) \<noteq> [] \<and> [] \<notin> set (kc_brokers (cf_kafka cfg)) \<and>
    kc_topic (cf_kafka cfg) \<noteq> [] \<and> 0 < kc_write_timeout (cf_kafka cfg) \<and>
    0 < kc_max_attempts (cf_kafka cfg) \<and>
    - (2 ^ 31) \<le> dbc_max_conns (cf_database cfg) \<and> dbc_max_conns (cf_database cfg) < 2 ^ 31"
  unfolding Let_def by (rule Load_guarantees [OF example_loaded])

text \<open>A failure rate that is not a number passes every validation a rate of zero passes: the
  two comparisons of the check are false for it.\<close>

lemma NaN_rate_accepted:
  "OutboxConfig_Validate (c\<lparr>oc_publish_failure_rate := NaN\<rparr>) =
   OutboxConfig_Validate (c\<lparr>oc_publish_failure_rate := Finite 0\<rparr>)"
  by (simp add: OutboxConfig_Validate_def)

end
