(* ===== verification/Postgres.thy ===== *)
theory Postgres
  imports Config Store
begin

text \<open>
  The Postgres pool and the migration runner (internal/platform/postgres/postgres.go and
  migration.go).  pgx's pool, the file system and what a script does to a database are
  arguments.
\<close>

section \<open>The pool\<close>

text \<open>The settings \<open>NewDB\<close> puts into the parsed configuration; the rest of it is opaque.\<close>

record 'o pool_config =
  pool_options :: 'o
  pool_max_conns :: int
  pool_min_conns :: int
  pool_max_lifetime :: int
  pool_max_idle_time :: int

definition NewDB ::
  "(string \<Rightarrow> 'o pool_config result) \<Rightarrow> ('o pool_config \<Rightarrow> 'p result) \<Rightarrow> DatabaseConfig \<Rightarrow> 'p option result" where
  "NewDB parse_config new_with_config cfg =
     (case parse_config (dbc_url cfg) of
        Inl err \<Rightarrow> Inl (wrapf ''parse postgres config: '' err)
      | Inr poolConfig \<Rightarrow>
          (case new_with_config (poolConfig\<lparr>pool_max_conns := dbc_max_conns cfg, pool_min_conns := dbc_min_conns cfg,
               pool_max_lifetime := dbc_max_conn_lifetime cfg, pool_max_idle_time := dbc_max_conn_idle_time cfg\<rparr>) of
             Inl err \<Rightarrow> Inl (wrapf ''create postgres pool: '' err)
           | Inr pool \<Rightarrow> Inr (Some pool)))"

text \<open>A nil receiver and a nil pool are the same case.\<close>

definition Ping :: "('p \<Rightarrow> failure) \<Rightarrow> 'p option \<Rightarrow> failure" where
  "Ping pool_ping db =
     (case db of
        None \<Rightarrow> Some (ErrorString ''database pool is nil'')
      | Some pool \<Rightarrow> map_option (wrapf ''ping postgres: '') (pool_ping pool))"

definition Close :: "('p \<Rightarrow> 's \<Rightarrow> 's) \<Rightarrow> 'p option \<Rightarrow> 's \<Rightarrow> 's" where
  "Close pool_close db s = (case db of None \<Rightarrow> s | Some pool \<Rightarrow> pool_close pool s)"

section \<open>The migration runner\<close>

record file_system =
  fs_stat :: "string \<Rightarrow> bool result"                        \<comment> \<open>is it a directory\<close>
  fs_read_dir :: "string \<Rightarrow> (string \<times> bool) list result"  \<comment> \<open>names, directories marked\<close>
  fs_read_file :: "string \<Rightarrow> string result"

definition migration_candidates :: "string list" where
  "migration_candidates = [''migrations'', ''../../migrations'', ''/app/migrations'', ''/src/migrations'']"

fun first_directory :: "file_system \<Rightarrow> string list \<Rightarrow> string option" where
  "first_directory fs [] = None"
| "first_directory fs (c # cs) =
     (case fs_stat fs c of
        Inl _ \<Rightarrow> first_directory fs cs
      | Inr is_dir \<Rightarrow> if is_dir then Some c else first_directory fs cs)"

text \<open>\<open>%v\<close> of a slice of strings.\<close>

definition slice_text :: "string list \<Rightarrow> string" where
  "slice_text ss = ''['' @ join '' '' ss @ '']''"

definition findMigrationDir :: "file_system \<Rightarrow> string result" where
  "findMigrationDir fs =
     (case first_directory fs migration_candidates of
        Some c \<Rightarrow> Inr c
      | None \<Rightarrow> Inl (ErrorString (''migration directory not found (tried: '' @
          slice_text migration_candidates @ '')'')))"

definition has_suffix :: "string \<Rightarrow> string \<Rightarrow> bool" where
  "has_suffix suffix s \<longleftrightarrow> length suffix \<le> length s \<and> drop (length s - length suffix) s = suffix"

definition migration_files :: "(string \<times> bool) list \<Rightarrow> string list" where
  "migration_files entries =
     sort (map fst (filter (\<lambda>(name, is_dir). \<not> is_dir \<and> has_suffix ''.sql'' name) entries))"

text \<open>\<open>filepath.Join\<close> of a clean directory and the name of an entry.\<close>

definition join_path :: "string \<Rightarrow> string \<Rightarrow> string" where
  "join_path dir name = dir @ ''/'' @ name"

text \<open>How the transaction of one file goes; \<open>exec\<close> says what a script makes of the
  database.\<close>

record migration_call =
  mc_begin :: failure
  mc_exec :: failure
  mc_end :: outcome

definition runMigration ::
  "file_system \<Rightarrow> (string \<Rightarrow> 's \<Rightarrow> 's result) \<Rightarrow> migration_call \<Rightarrow> string \<Rightarrow> string \<Rightarrow> 's \<Rightarrow> failure \<times> 's"
where
  "runMigration fs exec c dir fileName s =
     (case fs_read_file fs (join_path dir fileName) of
        Inl err \<Rightarrow> (Some (wrapf (''read migration '' @ fileName @ '': '') err), s)
      | Inr sqlContent \<Rightarrow>
     (case mc_begin c of
        Some err \<Rightarrow> (Some (wrapf (''begin migration '' @ fileName @ '': '') err), s)
      | None \<Rightarrow>
     (case (case mc_exec c of Some err \<Rightarrow> Inl err | None \<Rightarrow> exec sqlContent s) of
        Inl err \<Rightarrow> (Some (wrapf (''run migration '' @ fileName @ '': '') err), s)
      | Inr s1 \<Rightarrow>
     (case finish (mc_end c) s s1 of
        (Some err, s') \<Rightarrow> (Some (wrapf (''commit migration '' @ fileName @ '': '') err), s')
      | (None, s') \<Rightarrow> (None, s')))))"

fun run_migrations ::
  "file_system \<Rightarrow> (string \<Rightarrow> 's \<Rightarrow> 's result) \<Rightarrow> (string \<Rightarrow> migration_call) \<Rightarrow> string \<Rightarrow> string list \<Rightarrow> 's \<Rightarrow>
   failure \<times> 's"
where
  "run_migrations fs exec calls dir [] s = (None, s)"
| "run_migrations fs exec calls dir (f # files) s =
     (case runMigration fs exec (calls f) dir f s of
        (Some err, s') \<Rightarrow> (Some err, s')
      | (None, s') \<Rightarrow> run_migrations fs exec calls dir files s')"

definition Migrate ::
  "file_system \<Rightarrow> (string \<Rightarrow> 's \<Rightarrow> 's result) \<Rightarrow> (string \<Rightarrow> migration_call) \<Rightarrow> 'p option \<Rightarrow> 's \<Rightarrow> failure \<times> 's"
where
  "Migrate fs exec calls db s =
     (case db of
        None \<Rightarrow> (Some (ErrorString ''database pool is nil''), s)
      | Some _ \<Rightarrow>
     (case findMigrationDir fs of
        Inl err \<Rightarrow> (Some err, s)
      | Inr dir \<Rightarrow>
     (case fs_read_dir fs dir of
        Inl err \<Rightarrow> (Some (wrapf ''read migration directory: '' err), s)
      | Inr files \<Rightarrow> run_migrations fs exec calls dir (migration_files files) s)))"

section \<open>What a run of migrations does\<close>

text \<open>The effect of the scripts of a list of files, one after the other.\<close>

fun apply_scripts :: "file_system \<Rightarrow> (string \<Rightarrow> 's \<Rightarrow> 's result) \<Rightarrow> string \<Rightarrow> string list \<Rightarrow> 's \<Rightarrow> 's option" where
  "apply_scripts fs exec dir [] s = Some s"
| "apply_scripts fs exec dir (f # files) s =
     (case fs_read_file fs (join_path dir f) of
        Inl _ \<Rightarrow> None
      | Inr sql \<Rightarrow> (case exec sql s of Inl _ \<Rightarrow> None | Inr s' \<Rightarrow> apply_scripts fs exec dir files s'))"

lemma runMigration_cases:
  assumes "runMigration fs exec c dir f s = (res, s')"
  shows "s' = s \<and> res \<noteq> None \<or>
    apply_scripts fs exec dir [f] s = Some s' \<and> (res = None \<longleftrightarrow> mc_end c = Done)"
proof (cases "mc_end c")
  case Done
  then show ?thesis using assms by (auto simp: runMigration_def split: sum.splits option.splits)
next
  case (Lost e)
  then show ?thesis using assms by (auto simp: runMigration_def split: sum.splits option.splits)
next
  case (AckLost e)
  then show ?thesis using assms by (auto simp: runMigration_def split: sum.splits option.splits)
qed

lemma run_migrations_prefix:
  assumes "run_migrations fs exec calls dir files s = (res, s')"
  shows "\<exists>n \<le> length files. apply_scripts fs exec dir (take n files) s = Some s' \<and>
    (res = None \<longrightarrow> n = length files)"
  using assms
proof (induction files arbitrary: s)
  case (Cons f files)
  obtain r t where r: "runMigration fs exec (calls f) dir f s = (r, t)" by fastforce
  note c = runMigration_cases [OF r]
  show ?case
  proof (cases r)
    case None
    then have app: "apply_scripts fs exec dir [f] s = Some t" using c by blast
    have "run_migrations fs exec calls dir files t = (res, s')" using Cons.prems r None by simp
    from Cons.IH [OF this] obtain n where
      "n \<le> length files" "apply_scripts fs exec dir (take n files) t = Some s'" "res = None \<longrightarrow> n = length files"
      by blast
    then show ?thesis using app
      by (intro exI [of _ "Suc n"]) (auto split: sum.splits)
  next
    case (Some e)
    then have "res = Some e" "s' = t" using Cons.prems r by simp_all
    with c Some show ?thesis
      by (cases "t = s") (auto intro: exI [of _ 0] exI [of _ "Suc 0"])
  qed
qed simp

lemma set_migration_files:
  "f \<in> set (migration_files entries) \<longleftrightarrow> (f, False) \<in> set entries \<and> has_suffix ''.sql'' f"
  by (force simp: migration_files_def)

section \<open>Properties\<close>

text \<open>C27: migrations are a prefix of the sorted scripts, each whole.  Whatever fails, the database is
  what the first so many \<open>.sql\<close> files of the directory, in the order of their names, make
  of it, no file half applied; nil means that all of them are applied; and files that are
  directories or end differently are never run.\<close>

theorem Migrate_applies_prefix:
  assumes "Migrate fs exec calls db s = (res, s')"
  shows "s' = s \<and> res \<noteq> None \<or>
    (\<exists>dir entries files n. findMigrationDir fs = Inr dir \<and> fs_read_dir fs dir = Inr entries \<and>
       sorted files \<and> mset files = mset (map fst (filter (\<lambda>e. \<not> snd e \<and> has_suffix ''.sql'' (fst e)) entries)) \<and>
       n \<le> length files \<and> apply_scripts fs exec dir (take n files) s = Some s' \<and>
       (res = None \<longrightarrow> n = length files))"
proof (cases "\<exists>dir entries. db \<noteq> None \<and> findMigrationDir fs = Inr dir \<and> fs_read_dir fs dir = Inr entries")
  case True
  then obtain dir entries where d: "db \<noteq> None" "findMigrationDir fs = Inr dir" "fs_read_dir fs dir = Inr entries"
    by blast
  then have "run_migrations fs exec calls dir (migration_files entries) s = (res, s')"
    using assms by (auto simp: Migrate_def)
  from run_migrations_prefix [OF this] obtain n where
    "n \<le> length (migration_files entries)" "res = None \<longrightarrow> n = length (migration_files entries)"
    "apply_scripts fs exec dir (take n (migration_files entries)) s = Some s'"
    by blast
  moreover have "sorted (migration_files entries)"
    "mset (migration_files entries) = mset (map fst (filter (\<lambda>e. \<not> snd e \<and> has_suffix ''.sql'' (fst e)) entries))"
    by (simp_all add: migration_files_def split_beta)
  ultimately show ?thesis using d by blast
next
  case False
  then show ?thesis using assms by (auto simp: Migrate_def split: option.splits sum.splits)
qed

text \<open>The directory of this repository, with a script that notes its text in the order of
  execution.\<close>

definition repo_files :: file_system where
  "repo_files =
     \<lparr>fs_stat = (\<lambda>p. if p = ''migrations'' then Inr True else Inl (ErrorString ''no such file'')),
      fs_read_dir = (\<lambda>_. Inr [(''README.md'', False), (''002_create_outbox_events.sql'', False),
        (''001-create-events.sql'', False)]),
      fs_read_file = (\<lambda>p. Inr p)\<rparr>"

definition note_script :: "string \<Rightarrow> string list \<Rightarrow> string list result" where
  "note_script sql s = Inr (s @ [sql])"

definition smooth_migration :: migration_call where
  "smooth_migration = \<lparr>mc_begin = None, mc_exec = None, mc_end = Done\<rparr>"

lemma repo_migration:
  "Migrate repo_files note_script (\<lambda>_. smooth_migration) (Some ()) [] =
     (None, [''migrations/001-create-events.sql'', ''migrations/002_create_outbox_events.sql''])"
  by code_simp

theorem Migrate_applies_prefix_witness:
  "\<exists>files n. sorted files \<and> n \<le> length files \<and>
    apply_scripts repo_files note_script ''migrations'' (take n files) [] =
      Some [''migrations/001-create-events.sql'', ''migrations/002_create_outbox_events.sql'']"
proof -
  have d: "findMigrationDir repo_files = Inr ''migrations''"
    by (simp add: findMigrationDir_def migration_candidates_def repo_files_def)
  from Migrate_applies_prefix [OF repo_migration] d show ?thesis by fastforce
qed

text \<open>A run of the repository's migrations that meets no failure and changes nothing.\<close>

lemma run_migrations_calm:
  "run_migrations repo_files (\<lambda>_ s. Inr s) (\<lambda>_. smooth_migration) dir files s = (None, s)"
  by (induction files) (simp_all add: runMigration_def repo_files_def smooth_migration_def)

lemma Migrate_calm: "Migrate repo_files (\<lambda>_ s. Inr s) (\<lambda>_. smooth_migration) (Some ()) s = (None, s)"
proof -
  have "findMigrationDir repo_files = Inr ''migrations''"
    by (simp add: findMigrationDir_def migration_candidates_def repo_files_def)
  moreover have "\<exists>entries. fs_read_dir repo_files ''migrations'' = Inr entries" by (simp add: repo_files_def)
  ultimately show ?thesis by (auto simp: Migrate_def run_migrations_calm)
qed

end
