(* ===== verification/Go_Time.thy ===== *)
theory Go_Time
  imports Domain
begin

text \<open>
  The text of an instant: \<open>t.UTC().Format("2006-01-02T15:04:05Z07:00")\<close> of Go's
  \<open>time\<close> package, on instants counted in nanoseconds from January 1, year 1 UTC.  The
  civil date is computed from the day number, counted from March 1 of year 0, so that the
  leap day ends a year, four hundred years having 146097 days.
\<close>

definition day_ns :: int where "day_ns = 86400000000000"
definition second_ns :: int where "second_ns = 1000000000"

text \<open>Year, month and day of a day number.\<close>

definition civil :: "int \<Rightarrow> int \<times> int \<times> int" where
  "civil days =
     (let z = days + 306;
          era = z div 146097;
          doe = z mod 146097;
          yoe = (doe - doe div 1460 + doe div 36524 - doe div 146096) div 365;
          doy = doe - (365 * yoe + yoe div 4 - yoe div 100);
          mp = (5 * doy + 2) div 153;
          d = doy - (153 * mp + 2) div 5 + 1;
          m = (if mp < 10 then mp + 3 else mp - 9);
          y = yoe + era * 400 + (if m \<le> 2 then 1 else 0)
      in (y, m, d))"

definition pad :: "nat \<Rightarrow> int \<Rightarrow> string" where
  "pad n i = (let s = itoa i in replicate (n - length s) CHR ''0'' @ s)"

definition format_year :: "int \<Rightarrow> string" where
  "format_year y = (if y < 0 then CHR ''-'' # pad 4 (- y) else pad 4 y)"

definition format_utc :: "time \<Rightarrow> string" where
  "format_utc t =
     (let (y, m, d) = civil (t div day_ns);
          s = (t mod day_ns) div second_ns
      in format_year y @ ''-'' @ pad 2 m @ ''-'' @ pad 2 d @ ''T'' @ pad 2 (s div 3600) @ '':'' @
         pad 2 (s div 60 mod 60) @ '':'' @ pad 2 (s mod 60) @ ''Z'')"

lemma format_utc_zero: "format_utc 0 = ''0001-01-01T00:00:00Z''"
  by code_simp

end
