(* ===== verification/Http.thy ===== *)
theory Http
  imports Ingest Postgres Go_Time
begin

text \<open>
  The HTTP transport (internal/transport/http): binding of the request, the reflective copy of
  the request into the command, the mapping of errors to status codes, the responses, health and
  readiness, the router with its middleware.  Decoding of the body (encoding/json with the
  field types' own decoders) is an argument; the \<open>binding\<close> tags are modelled.
\<close>

section \<open>Requests\<close>

text \<open>The location of a \<open>time.Time\<close> matters to the tag \<open>required\<close>, which asks
  whether the whole struct is zero: \<open>ier_timestamp_zone\<close> says that a location other
  than UTC is set.\<close>

record ingest_event_request =
  ier_type :: string
  ier_event_id :: uuid
  ier_version :: int
  ier_source :: string
  ier_user_id :: string
  ier_anonymous_id :: string
  ier_session_id :: string
  ier_timestamp :: time
  ier_timestamp_zone :: bool
  ier_properties :: properties

definition binding_ok :: "ingest_event_request \<Rightarrow> bool" where
  "binding_ok req \<longleftrightarrow>
     ier_type req \<noteq> [] \<and> ier_event_id req \<noteq> 0 \<and> 0 < ier_version req \<and> ier_source req \<noteq> [] \<and>
     (ier_timestamp req \<noteq> 0 \<or> ier_timestamp_zone req) \<and> ier_properties req \<noteq> None"

record 'b http_codec =
  decode_body :: "'b \<Rightarrow> ingest_event_request result"
  tag_errors :: "ingest_event_request \<Rightarrow> string"

definition ShouldBindJSON :: "'b http_codec \<Rightarrow> 'b \<Rightarrow> ingest_event_request result" where
  "ShouldBindJSON k body =
     (case decode_body k body of
        Inl e \<Rightarrow> Inl e
      | Inr req \<Rightarrow> if binding_ok req then Inr req else Inl (ErrorString (tag_errors k req)))"

section \<open>The reflective copy\<close>

text \<open>Struct values as reflection sees them.  \<open>conv\<close> stands for \<open>ConvertibleTo\<close> and
  \<open>Convert\<close>: the conversion between two types, if there is one.\<close>

datatype go_type = KString | KInt | KInt32 | KInt64 | KFloat64 | KBool | KUUID | KTime | KMap | KNamed string

record struct_field =
  sf_name :: string
  sf_exported :: bool
  sf_settable :: bool
  sf_type :: go_type
  sf_value :: gvalue

datatype struct_or_not = Struct "struct_field list" | NonStruct

datatype reflected = NilPointer | Pointer struct_or_not | Direct struct_or_not

type_synonym conversion = "go_type \<Rightarrow> go_type \<Rightarrow> (gvalue \<Rightarrow> gvalue) option"

definition FieldByName :: "struct_field list \<Rightarrow> string \<Rightarrow> struct_field option" where
  "FieldByName fs n = find (\<lambda>f. sf_name f = n) fs"

definition map_field :: "conversion \<Rightarrow> struct_field list \<Rightarrow> struct_field \<Rightarrow> struct_field" where
  "map_field conv src df =
     (if \<not> sf_exported df then df
      else case FieldByName src (sf_name df) of
             None \<Rightarrow> df
           | Some sf \<Rightarrow>
               if \<not> sf_settable df then df
               else if sf_type sf = sf_type df then df\<lparr>sf_value := sf_value sf\<rparr>
               else case conv (sf_type sf) (sf_type df) of
                      None \<Rightarrow> df
                    | Some c \<Rightarrow> df\<lparr>sf_value := c (sf_value sf)\<rparr>)"

text \<open>The result is what the destination points to afterwards.\<close>

definition Map :: "conversion \<Rightarrow> reflected \<Rightarrow> reflected \<Rightarrow> struct_field list result" where
  "Map conv dst src =
     (case dst of
        Pointer d \<Rightarrow>
          (case src of
             NilPointer \<Rightarrow> Inl (ErrorString ''src pointer is nil'')
           | Pointer NonStruct \<Rightarrow> Inl (ErrorString ''src must be a struct or pointer to struct'')
           | Direct NonStruct \<Rightarrow> Inl (ErrorString ''src must be a struct or pointer to struct'')
           | Pointer (Struct sv) \<Rightarrow>
               (case d of Struct dv \<Rightarrow> Inr (map (map_field conv sv) dv)
                | NonStruct \<Rightarrow> Inl (ErrorString ''dst must point to a struct''))
           | Direct (Struct sv) \<Rightarrow>
               (case d of Struct dv \<Rightarrow> Inr (map (map_field conv sv) dv)
                | NonStruct \<Rightarrow> Inl (ErrorString ''dst must point to a struct'')))
      | _ \<Rightarrow> Inl (ErrorString ''dst must be a non-nil pointer to a struct''))"

definition field :: "string \<Rightarrow> go_type \<Rightarrow> gvalue \<Rightarrow> struct_field" where
  "field n ty v = \<lparr>sf_name = n, sf_exported = True, sf_settable = True, sf_type = ty, sf_value = v\<rparr>"

definition request_struct :: "ingest_event_request \<Rightarrow> struct_field list" where
  "request_struct req =
     [field ''Type'' KString (GString (ier_type req)),
      field ''EventID'' KUUID (GUUID (ier_event_id req)),
      field ''Version'' KInt (GInt (ier_version req)),
      field ''Source'' KString (GString (ier_source req)),
      field ''UserID'' KString (GString (ier_user_id req)),
      field ''AnonymousID'' KString (GString (ier_anonymous_id req)),
      field ''SessionID'' KString (GString (ier_session_id req)),
      field ''Timestamp'' KTime (GTime (ier_timestamp req)),
      field ''Properties'' KMap (properties_value (ier_properties req))]"

definition command_struct :: "command \<Rightarrow> struct_field list" where
  "command_struct cmd =
     [field ''EventID'' KUUID (GUUID (cmd_event_id cmd)),
      field ''Type'' KString (GString (cmd_type cmd)),
      field ''Version'' KInt (GInt (cmd_version cmd)),
      field ''Source'' KString (GString (cmd_source cmd)),
      field ''UserID'' KString (GString (cmd_user_id cmd)),
      field ''AnonymousID'' KString (GString (cmd_anonymous_id cmd)),
      field ''SessionID'' KString (GString (cmd_session_id cmd)),
      field ''Timestamp'' KTime (GTime (cmd_timestamp cmd)),
      field ''Properties'' KMap (properties_value (cmd_properties cmd))]"

text \<open>The zero command, and the command a struct of its type holds.\<close>

definition zero_command :: command where
  "zero_command =
     \<lparr>cmd_event_id = 0, cmd_type = [], cmd_version = 0, cmd_source = [], cmd_user_id = [],
      cmd_anonymous_id = [], cmd_session_id = [], cmd_timestamp = 0, cmd_properties = None\<rparr>"

fun command_of_struct :: "struct_field list \<Rightarrow> command" where
  "command_of_struct fs =
     (case map sf_value fs of
        [GUUID i, GString t, GInt v, GString src, GString u, GString a, GString s, GTime ts, p] \<Rightarrow>
          \<lparr>cmd_event_id = i, cmd_type = t, cmd_version = v, cmd_source = src, cmd_user_id = u,
           cmd_anonymous_id = a, cmd_session_id = s, cmd_timestamp = ts,
           cmd_properties = (case p of GMap kvs \<Rightarrow> Some kvs | _ \<Rightarrow> None)\<rparr>
      | _ \<Rightarrow> zero_command)"

definition toCommand :: "conversion \<Rightarrow> ingest_event_request \<Rightarrow> command" where
  "toCommand conv req =
     (case Map conv (Pointer (Struct (command_struct zero_command))) (Direct (Struct (request_struct req))) of
        Inl _ \<Rightarrow> zero_command
      | Inr fs \<Rightarrow> command_of_struct fs)"

section \<open>Responses\<close>

record event_response =
  er_id :: uuid
  er_event_id :: uuid
  er_type :: string
  er_version :: int
  er_source :: string
  er_user_id :: string
  er_anonymous_id :: string
  er_session_id :: string
  er_timestamp :: string
  er_properties :: properties
  er_created_at :: string

definition fromEvent :: "event \<Rightarrow> event_response" where
  "fromEvent ev =
     \<lparr>er_id = ev_id ev, er_event_id = ev_event_id ev, er_type = ev_type ev, er_version = ev_version ev,
      er_source = ev_source ev, er_user_id = ev_user_id ev, er_anonymous_id = ev_anonymous_id ev,
      er_session_id = ev_session_id ev, er_timestamp = format_utc (ev_timestamp ev),
      er_properties = ev_properties ev, er_created_at = format_utc (ev_created_at ev)\<rparr>"

datatype response_body =
    EventBody event_response
  | ErrorBody string string              \<comment> \<open>code and message\<close>
  | StatusBody string
  | MetricsBody
  | NotFoundBody

record response =
  resp_status :: int
  resp_body :: response_body

definition mapError :: "gerror \<Rightarrow> int \<times> string" where
  "mapError err =
     (if is_err err ErrInvalidEventType then (400, ''INVALID_EVENT_TYPE'')
      else if is_err err ErrInvalidEventVersion then (400, ''INVALID_EVENT_VERSION'')
      else if is_err err ErrInvalidSource then (400, ''INVALID_EVENT_SOURCE'')
      else if is_err err ErrInvalidEventSchema then (400, ''INVALID_EVENT_SCHEMA'')
      else if is_err err ErrPropertiesRequired then (400, ''INVALID_PROPERTIES'')
      else if is_err err ErrInvalidRequest then (400, ''INVALID_REQUEST'')
      else (500, ''INTERNAL_ERROR''))"

definition writeError :: "gerror \<Rightarrow> response" where
  "writeError err =
     (let (status, code) = mapError err
      in \<lparr>resp_status = status, resp_body = ErrorBody code (error_text err)\<rparr>)"

text \<open>The handler of \<open>POST /api/v1/events\<close>.  \<open>q\<close> holds what varies besides the
  body: how the database calls go and the fresh identifiers.\<close>

definition invalid_request :: "gerror \<Rightarrow> gerror" where
  "invalid_request err =
     WrapError (application_error_text ErrInvalidRequest @ '': '' @ error_text err) [Sentinel ErrInvalidRequest]"

definition Ingest_handler ::
  "externals \<Rightarrow> (string \<Rightarrow> int \<Rightarrow> event_schema option) \<Rightarrow> conversion \<Rightarrow> 'b http_codec \<Rightarrow>
   request \<Rightarrow> 'b \<Rightarrow> db \<Rightarrow> response \<times> db" where
  "Ingest_handler x get conv k q body s =
     (case ShouldBindJSON k body of
        Inl err \<Rightarrow> (writeError (invalid_request err), s)
      | Inr req \<Rightarrow>
          (case handle_request x get (q\<lparr>rq_command := toCommand conv req\<rparr>) s of
             (Inl err, s') \<Rightarrow> (writeError err, s')
           | (Inr r, s') \<Rightarrow>
               let status = (if \<not> ir_created r then 200 else 201)
               in (\<lparr>resp_status = status, resp_body = EventBody (fromEvent (ir_event r))\<rparr>, s')))"

definition Health :: response where
  "Health = \<lparr>resp_status = 200, resp_body = StatusBody ''ok''\<rparr>"

definition Ready :: "('p \<Rightarrow> failure) \<Rightarrow> 'p option \<Rightarrow> response" where
  "Ready pool_ping db =
     (if Ping pool_ping db \<noteq> None then \<lparr>resp_status = 503, resp_body = StatusBody ''not_ready''\<rparr>
      else \<lparr>resp_status = 200, resp_body = StatusBody ''ready''\<rparr>)"

section \<open>Router and middleware\<close>

datatype endpoint = PostEvents | GetHealth | GetReady | GetMetrics

definition route :: "string \<Rightarrow> string \<Rightarrow> endpoint option" where
  "route meth path =
     (if meth = ''POST'' \<and> path = ''/api/v1/events'' then Some PostEvents
      else if meth = ''GET'' \<and> path = ''/health'' then Some GetHealth
      else if meth = ''GET'' \<and> path = ''/ready'' then Some GetReady
      else if meth = ''GET'' \<and> path = ''/metrics'' then Some GetMetrics
      else None)"

definition RequestIDHeader :: string where "RequestIDHeader = ''X-Request-ID''"
definition requestIDKey :: string where "requestIDKey = ''request_id''"

text \<open>A request on the wire, its context's values, and the line the logger writes.\<close>

record 'b http_request =
  hq_method :: string
  hq_path :: string
  hq_headers :: "string \<rightharpoonup> string"
  hq_body :: 'b
  hq_client_ip :: string
  hq_context :: "string \<rightharpoonup> string"

record log_line =
  ll_method :: string
  ll_path :: string
  ll_status :: int
  ll_client_ip :: string
  ll_request_id :: string

record wire_response =
  wr_response :: response
  wr_headers :: "string \<rightharpoonup> string"
  wr_log :: log_line

definition GetHeader :: "'b http_request \<Rightarrow> string \<Rightarrow> string" where
  "GetHeader r h = (case hq_headers r h of None \<Rightarrow> [] | Some v \<Rightarrow> v)"

definition GetRequestID :: "(string \<rightharpoonup> string) \<Rightarrow> string" where
  "GetRequestID ctx = (case ctx requestIDKey of None \<Rightarrow> [] | Some i \<Rightarrow> i)"

text \<open>The middleware \<open>RequestID\<close>: the request with its context extended, and the response
  header; \<open>fresh\<close> is \<open>uuid.NewString()\<close>.\<close>

definition RequestID :: "string \<Rightarrow> 'b http_request \<Rightarrow> 'b http_request \<times> (string \<rightharpoonup> string)" where
  "RequestID fresh r =
     (let requestID = GetHeader r RequestIDHeader;
          requestID = (if requestID = [] then fresh else requestID)
      in (r\<lparr>hq_context := (hq_context r)(requestIDKey \<mapsto> requestID)\<rparr>, [RequestIDHeader \<mapsto> requestID]))"

definition Logging :: "'b http_request \<Rightarrow> response \<Rightarrow> log_line" where
  "Logging r resp =
     \<lparr>ll_method = hq_method r, ll_path = hq_path r, ll_status = resp_status resp,
      ll_client_ip = hq_client_ip r, ll_request_id = GetRequestID (hq_context r)\<rparr>"

text \<open>What gin answers by itself before any handler, its redirect of a path with a trailing slash, is not
  modelled: such a path is answered here like any unknown one.\<close>

definition NewRouter ::
  "externals \<Rightarrow> (string \<Rightarrow> int \<Rightarrow> event_schema option) \<Rightarrow> conversion \<Rightarrow> 'b http_codec \<Rightarrow>
   ('p \<Rightarrow> failure) \<Rightarrow> 'p option \<Rightarrow> string \<Rightarrow> request \<Rightarrow> 'b http_request \<Rightarrow> db \<Rightarrow> wire_response \<times> db"
where
  "NewRouter x get conv k pool_ping pool fresh q r0 s =
     (let (r, hdrs) = RequestID fresh r0;
          (resp, s') =
            (case route (hq_method r) (hq_path r) of
               Some PostEvents \<Rightarrow> Ingest_handler x get conv k q (hq_body r) s
             | Some GetHealth \<Rightarrow> (Health, s)
             | Some GetReady \<Rightarrow> (Ready pool_ping pool, s)
             | Some GetMetrics \<Rightarrow> (\<lparr>resp_status = 200, resp_body = MetricsBody\<rparr>, s)
             | None \<Rightarrow> (\<lparr>resp_status = 404, resp_body = NotFoundBody\<rparr>, s))
      in (\<lparr>wr_response = resp, wr_headers = hdrs, wr_log = Logging r resp\<rparr>, s'))"

section \<open>The copy into the command\<close>

definition command_of_request :: "ingest_event_request \<Rightarrow> command" where
  "command_of_request req =
     \<lparr>cmd_event_id = ier_event_id req, cmd_type = ier_type req, cmd_version = ier_version req,
      cmd_source = ier_source req, cmd_user_id = ier_user_id req,
      cmd_anonymous_id = ier_anonymous_id req, cmd_session_id = ier_session_id req,
      cmd_timestamp = ier_timestamp req, cmd_properties = ier_properties req\<rparr>"

lemma toCommand_eq: "toCommand conv req = command_of_request req"
  by (simp add: toCommand_def Map_def command_struct_def request_struct_def field_def zero_command_def
      map_field_def FieldByName_def command_of_request_def properties_value_def split: option.split)

text \<open>In general: a field of the destination takes the value of the source's field of its name and
  type, and is left alone where the source has none.\<close>

lemma Map_fields:
  assumes "Map conv (Pointer (Struct dv)) (Direct (Struct sv)) = Inr fs" and "df \<in> set dv"
    and "sf_exported df" and "sf_settable df" and "FieldByName sv (sf_name df) = Some sf"
    and "sf_type sf = sf_type df"
  shows "df\<lparr>sf_value := sf_value sf\<rparr> \<in> set fs"
proof -
  have "map_field conv sv df = df\<lparr>sf_value := sf_value sf\<rparr>"
    using assms(3-) by (simp add: map_field_def)
  moreover have "map_field conv sv df \<in> set fs" using assms(1,2) by (auto simp: Map_def)
  ultimately show ?thesis by simp
qed

section \<open>Which errors are the client's\<close>

definition client_sentinels :: "sentinel set" where
  "client_sentinels = {ErrInvalidEventType, ErrInvalidEventVersion, ErrInvalidSource, ErrInvalidEventSchema,
     ErrPropertiesRequired, ErrInvalidRequest}"

definition client_codes :: "string list" where
  "client_codes = [''INVALID_EVENT_TYPE'', ''INVALID_EVENT_VERSION'', ''INVALID_EVENT_SOURCE'',
     ''INVALID_EVENT_SCHEMA'', ''INVALID_PROPERTIES'', ''INVALID_REQUEST'']"

text \<open>The errors of the driver and of the encoder are not the application's.\<close>

definition infra :: "gerror \<Rightarrow> bool" where
  "infra e \<longleftrightarrow> (\<forall>t \<in> client_sentinels. \<not> is_err e t)"

definition infra_call :: "db_call \<Rightarrow> bool" where
  "infra_call c \<longleftrightarrow> foreign_call c \<and> (\<forall>st e. dc_fail c st = Some e \<longrightarrow> infra e) \<and>
     (\<forall>e. dc_end c = Lost e \<or> dc_end c = AckLost e \<longrightarrow> infra e) \<and> infra (dc_reject c)"

definition infra_json :: "externals \<Rightarrow> bool" where
  "infra_json x \<longleftrightarrow> (\<forall>t e. x_time_json x t = Inl e \<longrightarrow> infra e)"

lemma infra_simps [simp]:
  "infra (wrapf p e) = infra e" "infra (ErrorString t)" "infra (Sentinel ErrEventAlreadyExists)"
  "infra (Sentinel ErrEventNotFound)" "infra (Sentinel ErrTimestampRequired)"
  by (simp_all add: infra_def client_sentinels_def)

lemma infra_plain [simp]: "infra_call (quiet_call t)" "infra_json plain_externals"
  by (simp_all add: infra_call_def infra_json_def quiet_call_def foreign_call_def plain_externals_def)

lemma mapError_400:
  "\<not> infra err \<Longrightarrow> \<exists>code \<in> set client_codes. mapError err = (400, code)"
  by (auto simp: infra_def client_sentinels_def client_codes_def mapError_def)

lemma mapError_500: "infra err \<Longrightarrow> mapError err = (500, ''INTERNAL_ERROR'')"
  by (simp add: infra_def client_sentinels_def mapError_def)

lemma writeError_400:
  "\<not> infra err \<Longrightarrow> resp_status (writeError err) = 400 \<and>
     (\<exists>code \<in> set client_codes. resp_body (writeError err) = ErrorBody code (error_text err))"
  by (auto simp: writeError_def dest: mapError_400)

lemma writeError_500:
  "infra err \<Longrightarrow> writeError err = \<lparr>resp_status = 500, resp_body = ErrorBody ''INTERNAL_ERROR'' (error_text err)\<rparr>"
  by (simp add: writeError_def mapError_500)

lemma infra_invalid_request [simp]: "\<not> infra (invalid_request err)"
  by (simp add: invalid_request_def infra_def client_sentinels_def)

lemma invalid_request_neq [simp]: "invalid_request err \<noteq> Sentinel t"
  by (simp add: invalid_request_def)

lemma admission_infra_iff:
  assumes "admission get cmd = Some err"
  shows "infra err \<longleftrightarrow> err = Sentinel ErrTimestampRequired"
proof -
  have v: "validateCommand cmd = Some err \<or> (\<exists>s. is_err err s \<and> s \<in> client_sentinels)"
  proof (cases "validateCommand cmd")
    case None
    have "(\<exists>schema. Validate schema (cmd_properties cmd) = Some err) \<or> err = Sentinel ErrInvalidEventType"
      using assms None by (auto simp: admission_def split: option.splits)
    then show ?thesis
    proof
      assume "\<exists>schema. Validate schema (cmd_properties cmd) = Some err"
      then obtain schema where "Validate schema (cmd_properties cmd) = Some err" ..
      from Validate_error [OF this] show ?thesis
        by (cases "cmd_properties cmd") (auto simp: client_sentinels_def)
    qed (simp add: client_sentinels_def)
  qed (use assms in \<open>simp add: admission_def\<close>)
  show ?thesis
  proof
    assume "infra err"
    with v have "validateCommand cmd = Some err" by (auto simp: infra_def)
    from validateCommand_error [OF this] \<open>infra err\<close> show "err = Sentinel ErrTimestampRequired"
      by (auto simp: infra_def client_sentinels_def)
  qed simp
qed

lemma json_infra:
  "infra_json x \<Longrightarrow> json_marshal x v = Inl e \<Longrightarrow> infra e"
  "infra_json x \<Longrightarrow> json_elems x vs = Inl e \<Longrightarrow> infra e"
  "infra_json x \<Longrightarrow> json_members x kvs = Inl e \<Longrightarrow> infra e"
proof (induction x v and x vs and x kvs rule: json_marshal_json_elems_json_members.induct)
  case (6 x f)
  then show ?case by (cases f) auto
next
  case (7 x f)
  then show ?case by (cases f) auto
qed (auto simp: infra_json_def split: sum.splits)

lemma Save_infra:
  assumes "infra_call c" and "infra_json x" and "Save x c rid ev s = (Some e, s')"
  shows "infra e"
proof -
  have fail: "dc_fail c st = Some e \<Longrightarrow> infra e" "dc_end c = Lost e \<Longrightarrow> infra e"
    "dc_end c = AckLost e \<Longrightarrow> infra e" "infra (dc_reject c)" for st e
    using assms(1) by (auto simp: infra_call_def)
  have "insert_event x c ev s = StmtError e \<Longrightarrow> infra e" for e
    using fail by (auto simp: insert_event_def split: option.splits if_splits)
  moreover have "insert_outbox x c rid ev j t = Inl e \<Longrightarrow> infra e" for j t e
    using fail by (auto simp: insert_outbox_def split: option.splits if_splits)
  moreover have "finish (dc_end c) t u = (Some e, s'') \<Longrightarrow> infra e" for t u e s''
    using fail by (cases "dc_end c") auto
  moreover note fail(1) json_infra(1) [OF assms(2)]
  ultimately show ?thesis using assms(3)
    by (fastforce simp: Save_def split: option.splits sum.splits insert_result.splits prod.splits)
qed

lemma handle_request_error:
  assumes "infra_call (rq_save_call q)" and "infra_call (rq_find_call q)" and "infra_json x"
    and "handle_request x get q s = (Inl err, s')"
  shows "admission get (rq_command q) = Some err \<or> admission get (rq_command q) = None \<and> infra err"
proof (cases "admission get (rq_command q)")
  case None
  obtain f t where sv: "Save x (rq_save_call q) (rq_row_id q) (event_of_command (rq_id q) (rq_command q)) s = (f, t)"
    by fastforce
  have find: "infra e" if "FindByEventID (rq_find_call q) i t = Inl e" for i t e
    using that assms(2) by (auto simp: FindByEventID_def infra_call_def split: option.splits)
  have "infra err"
    using assms(4) None sv Save_infra [OF assms(1,3), of "rq_row_id q" "event_of_command (rq_id q) (rq_command q)" s _ t]
    unfolding handle_request_def Handle_admission
    by (auto split: option.splits if_splits sum.splits dest: find)
  with None show ?thesis by simp
qed (use assms(4) in \<open>simp add: handle_request_def Handle_admission\<close>)

section \<open>Properties\<close>

definition verdict :: "(string \<Rightarrow> int \<Rightarrow> event_schema option) \<Rightarrow> 'b http_codec \<Rightarrow> 'b \<Rightarrow> failure" where
  "verdict get k body =
     (case ShouldBindJSON k body of
        Inl err \<Rightarrow> Some (invalid_request err)
      | Inr req \<Rightarrow> admission get (command_of_request req))"

lemma Ingest_handler_cases:
  assumes "Ingest_handler x get conv k q body s = (resp, s')"
  obtains (unbound) err where "ShouldBindJSON k body = Inl err" and "resp = writeError (invalid_request err)"
      and "s' = s"
  | (failed) req err where "ShouldBindJSON k body = Inr req"
      and "handle_request x get (q\<lparr>rq_command := command_of_request req\<rparr>) s = (Inl err, s')"
      and "resp = writeError err"
  | (answered) req r where "ShouldBindJSON k body = Inr req"
      and "handle_request x get (q\<lparr>rq_command := command_of_request req\<rparr>) s = (Inr r, s')"
      and "resp = \<lparr>resp_status = (if ir_created r then 201 else 200), resp_body = EventBody (fromEvent (ir_event r))\<rparr>"
  using assms
  by (auto simp: Ingest_handler_def toCommand_eq Let_def split: sum.splits prod.splits)

text \<open>C6: what the API answers and what the answer says of the database, for every body and every
  way the database calls can go.  The status is one of four.  It is 400 exactly when the body
  does not bind or the command is refused for a reason other than its timestamp, and then nothing
  was written and the code is one of the six documented ones; 201 means that the event
  identifier was free and is now stored; 200 that nothing changed and that the event shown is the
  stored one; 500 that nothing changed, unless the acknowledgement of the commit was lost.\<close>

theorem http_ingest_contract:
  assumes "trusted x" and "wf_db s" and "infra_json x"
    and "infra_call (rq_save_call q)" and "infra_call (rq_find_call q)"
    and "Ingest_handler x get conv k q body s = (resp, s')"
  shows "(resp_status resp = 400 \<longleftrightarrow> (\<exists>e. verdict get k body = Some e \<and> e \<noteq> Sentinel ErrTimestampRequired)) \<and>
    (resp_status resp = 400 \<and> s' = s \<and>
       (\<exists>code \<in> set client_codes. \<exists>msg. resp_body resp = ErrorBody code msg) \<or>
     resp_status resp = 500 \<and> (s' = s \<or> dc_end (rq_save_call q) \<noteq> Done) \<and>
       (\<exists>msg. resp_body resp = ErrorBody ''INTERNAL_ERROR'' msg) \<or>
     (\<exists>req. ShouldBindJSON k body = Inr req \<and>
       (resp_status resp = 201 \<and> ier_event_id req \<notin> ev_event_id ` set (db_events s) \<and>
          ier_event_id req \<in> ev_event_id ` set (db_events s') \<and>
          resp_body resp = EventBody (fromEvent (event_of_command (rq_id q) (command_of_request req))) \<or>
        resp_status resp = 200 \<and> s' = s \<and>
          (\<exists>ev \<in> set (db_events s). ev_event_id ev = ier_event_id req \<and>
             resp_body resp = EventBody (fromEvent ev)))))"
  using assms(6)
proof (cases rule: Ingest_handler_cases)
  case (unbound err)
  then show ?thesis using writeError_400 [OF infra_invalid_request [of err]] by (auto simp: verdict_def)
next
  case (failed req err)
  let ?q = "q\<lparr>rq_command := command_of_request req\<rparr>"
  have same: "s' = s \<or> dc_end (rq_save_call q) \<noteq> Done"
    using ingest_outcomes [OF assms(1,2) _ failed(2)] assms(4) by (simp add: infra_call_def)
  have v: "verdict get k body = admission get (command_of_request req)"
    by (simp add: verdict_def failed(1))
  have h: "admission get (command_of_request req) = Some err \<or>
      admission get (command_of_request req) = None \<and> infra err"
    using handle_request_error [OF _ _ assms(3) failed(2)] assms(4,5) by simp
  show ?thesis
  proof (cases "infra err")
    case True
    then have "\<not> (\<exists>e. verdict get k body = Some e \<and> e \<noteq> Sentinel ErrTimestampRequired)"
      using h v admission_infra_iff [of get "command_of_request req" err] by auto
    then show ?thesis using same writeError_500 [OF True] failed(3) by auto
  next
    case False
    then have a: "admission get (command_of_request req) = Some err" using h by blast
    then have "s' = s" using failed(2) by (simp add: handle_request_def Handle_admission)
    moreover have "err \<noteq> Sentinel ErrTimestampRequired" using False by auto
    ultimately show ?thesis using a v writeError_400 [OF False] failed(3) by auto
  qed
next
  case (answered req r)
  let ?q = "q\<lparr>rq_command := command_of_request req\<rparr>"
  have "admission get (command_of_request req) = None"
    using answered(2) by (auto simp: handle_request_def Handle_admission split: option.splits)
  then have "verdict get k body = None" by (simp add: verdict_def answered(1))
  moreover have "if ir_created r
      then ier_event_id req \<notin> ev_event_id ` set (db_events s) \<and>
        ier_event_id req \<in> ev_event_id ` set (db_events s') \<and>
        ir_event r = event_of_command (rq_id q) (command_of_request req)
      else s' = s \<and> ir_event r \<in> set (db_events s) \<and> ev_event_id (ir_event r) = ier_event_id req"
    using ingest_outcomes [OF assms(1,2) _ answered(2)] assms(4)
    by (simp add: infra_call_def command_of_request_def split: if_splits)
  ultimately show ?thesis using answered(1,3) by (cases "ir_created r") auto
qed

text \<open>A codec whose bodies are requests already, and a request it accepts.\<close>

definition plain_codec :: "ingest_event_request http_codec" where
  "plain_codec = \<lparr>decode_body = Inr, tag_errors = (\<lambda>_. ''tag'')\<rparr>"

definition search_request :: "time \<Rightarrow> bool \<Rightarrow> ingest_event_request" where
  "search_request t zone =
     \<lparr>ier_type = ''search'', ier_event_id = 7, ier_version = 1, ier_source = ''web'', ier_user_id = [],
      ier_anonymous_id = [], ier_session_id = [], ier_timestamp = t, ier_timestamp_zone = zone,
      ier_properties = Some [(''keyword'', GString ''go''), (''result_count'', GFloat64 (Finite 3))]\<rparr>"

lemma search_request_command: "command_of_request (search_request 5 z) = command_example 1"
  by (simp add: command_of_request_def search_request_def command_example_def)

lemma search_request_binds: "t \<noteq> 0 \<or> z \<Longrightarrow> ShouldBindJSON plain_codec (search_request t z) = Inr (search_request t z)"
  by (auto simp: ShouldBindJSON_def plain_codec_def binding_ok_def search_request_def)

theorem http_ingest_contract_witness:
  "resp_status (fst (Ingest_handler plain_externals search_only (\<lambda>_ _. None) plain_codec
     (request_example 3) (search_request 5 False) empty_db)) \<noteq> 400"
proof -
  let ?r = "Ingest_handler plain_externals search_only (\<lambda>_ _. None) plain_codec
     (request_example 3) (search_request 5 False) empty_db"
  have v: "verdict search_only plain_codec (search_request 5 False) = None"
    using admission_example
    by (simp add: verdict_def search_request_binds search_request_command)
  show ?thesis
    using http_ingest_contract [OF trusted_plain _ _ _ _ prod.collapse [symmetric, of ?r]] v
    by (simp add: wf_db_def empty_db_def request_example_def)
qed

text \<open>C33: the one refusal that is not the client's.  Take any body that binds, through any decoder, to
  a request whose timestamp denotes the zero instant.  It then carries a zone other than UTC, or
  the tag \<open>required\<close>, which looks at the whole struct, had refused it; and whatever else it says, it
  is refused by the command's own check with an error that the mapping does not know: the client
  is told of an internal error, and neither the registry nor the database is asked.\<close>

theorem http_zero_instant_is_500:
  assumes "ShouldBindJSON k body = Inr req" and "time_is_zero (ier_timestamp req)"
  shows "ier_timestamp_zone req \<and>
    Ingest_handler x get conv k q body s =
      (\<lparr>resp_status = 500, resp_body = ErrorBody ''INTERNAL_ERROR'' ''timestamp is required''\<rparr>, s)"
proof -
  have b: "binding_ok req" using assms(1) by (auto simp: ShouldBindJSON_def split: sum.splits if_splits)
  have "validateCommand (command_of_request req) = Some (Sentinel ErrTimestampRequired)"
    using b assms(2) by (simp add: validateCommand_def command_of_request_def binding_ok_def)
  then have "handle_request x get (q\<lparr>rq_command := command_of_request req\<rparr>) s = (Inl (Sentinel ErrTimestampRequired), s)"
    by (simp add: handle_request_def Handle_def)
  then have "Ingest_handler x get conv k q body s =
      (\<lparr>resp_status = 500, resp_body = ErrorBody ''INTERNAL_ERROR'' ''timestamp is required''\<rparr>, s)"
    by (simp add: Ingest_handler_def assms(1) toCommand_eq writeError_500)
  with b assms(2) show ?thesis by (simp add: binding_ok_def time_is_zero_def)
qed

theorem http_zero_instant_is_500_witness:
  "resp_status (fst (Ingest_handler plain_externals search_only (\<lambda>_ _. None) plain_codec (request_example 3)
     (search_request 0 True) empty_db)) = 500"
proof -
  have "time_is_zero (ier_timestamp (search_request 0 True))" by (simp add: search_request_def time_is_zero_def)
  from http_zero_instant_is_500 [OF search_request_binds this] show ?thesis by simp
qed

text \<open>A "created" answer shows no creation time.  Whatever the clock, the body of a 201 says
  the record was created in year 1, since only the database sets the time and nothing is read
  back; the answer to a repetition of the request shows the stored time.\<close>

lemma http_created_at_unset:
  assumes "trusted x" and "wf_db s" and "infra_json x"
    and "infra_call (rq_save_call q)" and "infra_call (rq_find_call q)"
    and "Ingest_handler x get conv k q body s = (resp, s')" and "resp_status resp = 201"
  shows "\<exists>r. resp_body resp = EventBody r \<and> er_created_at r = ''0001-01-01T00:00:00Z'' \<and>
    (\<exists>stored \<in> set (db_events s'). ev_event_id stored = er_event_id r \<and>
       ev_created_at stored = dc_now (rq_save_call q))"
  using assms(6)
proof (cases rule: Ingest_handler_cases)
  case (unbound err)
  then show ?thesis using assms(7) writeError_400 [OF infra_invalid_request [of err]] by simp
next
  case (failed req err)
  have "resp_status (writeError err) \<noteq> 201"
    using writeError_400 [of err] writeError_500 [of err] by (cases "infra err") auto
  then show ?thesis using assms(7) failed(3) by simp
next
  case (answered req r)
  let ?ev = "event_of_command (rq_id q) (command_of_request req)"
  have c: "ir_created r" using assms(7) answered(3) by (auto split: if_splits)
  have ev: "ir_event r = ?ev" and sv: "Save x (rq_save_call q) (rq_row_id q) ?ev s = (None, s')"
    using answered(2) c
    by (auto simp: handle_request_def Handle_admission split: option.splits prod.splits if_splits sum.splits)
  obtain row where row: "x_pg_event x ?ev = Some row"
    "db_events s' = db_events s @ [row\<lparr>ev_created_at := dc_now (rq_save_call q)\<rparr>]"
    using Save_None [OF sv] by (auto simp: saved_def)
  have "ev_event_id row = ev_event_id ?ev"
    using row(1) assms(1) unfolding trusted_def sound_columns_def by blast
  then show ?thesis using answered(3) c ev row(2)
    by (auto simp: fromEvent_def event_of_command_def format_utc_zero)
qed

lemma search_created:
  "fst (Ingest_handler plain_externals search_only (\<lambda>_ _. None) plain_codec (request_example 3)
     (search_request 5 False) empty_db) =
   \<lparr>resp_status = 201, resp_body = EventBody (fromEvent (event_of_command 3 (command_example 1)))\<rparr>"
proof -
  have "(request_example 3)\<lparr>rq_command := command_example 1\<rparr> = request_example 3"
    by (simp add: request_example_def)
  then show ?thesis
    using handle_example
    by (cases "handle_request plain_externals search_only (request_example 3) empty_db")
      (simp add: Ingest_handler_def search_request_binds toCommand_eq search_request_command)
qed

text \<open>Every answer carries a request identifier, whatever the route: the client's own if it
  sent one, a fresh one otherwise; the log line of the request shows the same identifier, the
  request's method and path, and the status that was answered.\<close>

lemma every_response_is_identified:
  "case NewRouter x get conv k pool_ping pool fresh q r s of (wire, s') \<Rightarrow>
     \<exists>i. wr_headers wire RequestIDHeader = Some i \<and> (if GetHeader r RequestIDHeader = [] then i = fresh else i = GetHeader r RequestIDHeader) \<and>
       ll_request_id (wr_log wire) = i \<and> ll_status (wr_log wire) = resp_status (wr_response wire) \<and>
       ll_method (wr_log wire) = hq_method r \<and> ll_path (wr_log wire) = hq_path r \<and>
       (hq_method r = ''POST'' \<and> hq_path r = ''/api/v1/events'' \<or> s' = s)"
  by (auto simp: NewRouter_def RequestID_def Logging_def GetRequestID_def Let_def route_def
      split: prod.splits option.splits endpoint.splits if_splits)

end
