(* ===== verification/Json_Valid.thy ===== *)
theory Json_Valid
  imports Store
begin

text \<open>
  The two halves of \<open>encoding/json\<close> fit together: what \<open>json.Marshal\<close> writes,
  \<open>json.Valid\<close> accepts, as long as values nest no deeper than the scanner's limit; and the
  fuel of the scanner is enough for every text, so that it rejects only what is malformed.
\<close>

section \<open>Strings\<close>

lemma byte_eq_iff: "byte c = byte d \<longleftrightarrow> c = d"
  by (simp add: byte_def)

lemma byte_special [simp]: "byte dquote = 34" "byte bslash = 92"
  by (simp_all add: byte_def dquote_def bslash_def)

lemma dquote_iff: "c = dquote \<longleftrightarrow> byte c = 34" and bslash_iff: "c = bslash \<longleftrightarrow> byte c = 92"
  using byte_eq_iff [of c dquote] byte_eq_iff [of c bslash] by simp_all

definition plain_char :: "char \<Rightarrow> bool" where
  "plain_char c \<longleftrightarrow> 32 \<le> byte c \<and> byte c \<noteq> 34 \<and> byte c \<noteq> 92"

lemma scan_string_quote [simp]: "scan_string (dquote # s) = Some s"
  by simp

lemma scan_string_char: "plain_char c \<Longrightarrow> scan_string (c # s) = scan_string s"
  by (simp add: plain_char_def dquote_iff bslash_iff)

lemma scan_string_plain:
  "(\<And>c. c \<in> set u \<Longrightarrow> plain_char c) \<Longrightarrow> scan_string (u @ s) = scan_string s"
  by (induction u) (simp_all add: scan_string_char del: scan_string.simps)

lemma utf8_len_bytes:
  "128 \<le> byte c \<Longrightarrow> b \<in> set (take (utf8_len (c # cs)) (c # cs)) \<Longrightarrow> 128 \<le> byte b"
  by (auto simp: is_cont_def take_Cons' split: list.splits if_splits)

lemma is_hex_digit: "n < 16 \<Longrightarrow> is_hex (hex_digit n)"
  by (simp add: is_hex_def is_digit_def hex_digit_def byte_def)

lemma scan_string_u:
  "is_hex a \<Longrightarrow> is_hex b \<Longrightarrow> is_hex c \<Longrightarrow> is_hex d \<Longrightarrow>
   scan_string (bslash # CHR ''u'' # a # b # c # d # s) = scan_string s"
  by (simp add: bslash_def dquote_def)

lemma scan_string_short [simp]:
  "scan_string (bslash # dquote # s) = scan_string s" "scan_string (bslash # bslash # s) = scan_string s"
  "scan_string (bslash # CHR ''b'' # s) = scan_string s" "scan_string (bslash # CHR ''f'' # s) = scan_string s"
  "scan_string (bslash # CHR ''n'' # s) = scan_string s" "scan_string (bslash # CHR ''r'' # s) = scan_string s"
  "scan_string (bslash # CHR ''t'' # s) = scan_string s"
  by (simp_all add: bslash_def dquote_def)

lemma scan_string_escape_byte:
  assumes "byte c < 128"
  shows "scan_string (escape_byte c @ s) = scan_string s"
proof -
  have u: "scan_string (bslash # CHR ''u'' # CHR ''0'' # CHR ''0'' # hex_digit (byte c div 16) #
      hex_digit (byte c mod 16) # s) = scan_string s"
    by (rule scan_string_u) (use assms is_hex_digit in \<open>simp_all add: is_hex_def is_digit_def byte_def\<close>)
  have self: "scan_string (bslash # c # s) = scan_string s" if "byte c = 34 \<or> byte c = 92"
    using that by (auto simp: dquote_iff [symmetric] bslash_iff [symmetric] simp del: scan_string.simps)
  have pc: "\<not> byte c < 32 \<Longrightarrow> byte c \<noteq> 34 \<Longrightarrow> byte c \<noteq> 92 \<Longrightarrow> scan_string (c # s) = scan_string s"
    by (rule scan_string_char) (simp add: plain_char_def)
  show ?thesis
    unfolding escape_byte_def Let_def using self u pc
    by (simp del: scan_string.simps split del: if_split add: if_distrib [of "\<lambda>u. scan_string (u @ s)"] cong: if_cong)
      (simp del: scan_string.simps)
qed

lemma hex_chars:
  "is_hex CHR ''f''" "is_hex CHR ''d''" "is_hex CHR ''2''" "is_hex CHR ''0''" "is_hex CHR ''8''" "is_hex CHR ''9''"
  by (simp_all add: is_hex_def is_digit_def byte_def)

lemma scan_string_escape: "scan_string (escape_string fuel u @ dquote # s) = Some s"
proof (induction fuel u rule: escape_string.induct)
  case (3 fuel c cs)
  let ?n = "utf8_len (c # cs)"
  show ?case
  proof (cases "byte c < 128")
    case True
    then show ?thesis using "3.IH"(1) [OF True] by (simp del: scan_string.simps add: scan_string_escape_byte)
  next
    case False
    have pl: "scan_string (take ?n (c # cs) @ t) = scan_string t" for t
      by (rule scan_string_plain) (use utf8_len_bytes [of c _ cs] False in \<open>force simp: plain_char_def\<close>)
    show ?thesis
      using False "3.IH"(2-) [OF False refl] pl
      by (simp del: scan_string.simps utf8_len.simps add: Let_def scan_string_u hex_chars)
  qed
qed simp_all

lemma json_string_eq: "json_string u = dquote # escape_string (length u) u @ [dquote]"
  by (simp add: json_string_def)

section \<open>Numbers\<close>

text \<open>What may follow a value inside a document.\<close>

definition delim :: "string \<Rightarrow> bool" where
  "delim s \<longleftrightarrow> (case s of [] \<Rightarrow> True | c # _ \<Rightarrow> c \<in> {CHR '','', CHR '']'', CHR 0x7D})"

lemma delim_simps [simp]:
  "delim []" "delim (CHR '','' # s)" "delim (CHR '']'' # s)" "delim (CHR 0x7D # s)"
  by (simp_all add: delim_def)

lemma delim_no_digit: "delim r \<Longrightarrow> dropWhile is_digit r = r"
  by (auto simp: delim_def is_digit_def byte_def split: list.splits)

lemma dropWhile_delim:
  assumes "delim r"
  shows "dropWhile is_digit (s @ r) = dropWhile is_digit s @ r"
  by (induction s) (simp_all add: delim_no_digit [OF assms])

lemma scan_digits_delim:
  assumes "delim r" and "scan_digits s = Some t"
  shows "scan_digits (s @ r) = Some (t @ r)"
proof (cases s)
  case (Cons c cs)
  then have "is_digit c" and t: "t = dropWhile is_digit cs"
    using assms(2) by (auto simp: scan_digits_def split: if_splits)
  then show ?thesis using dropWhile_delim [OF assms(1), of cs] by (simp add: scan_digits_def Cons)
qed (use assms(2) in \<open>simp add: scan_digits_def\<close>)

lemma scan_integer_delim:
  "delim r \<Longrightarrow> scan_integer s = Some t \<Longrightarrow> scan_integer (s @ r) = Some (t @ r)"
  using scan_digits_delim [of r s t]
  by (cases s) (auto simp: scan_integer_def split: if_splits)

lemma scan_fraction_delim:
  assumes "delim r" and "scan_fraction s = Some t"
  shows "scan_fraction (s @ r) = Some (t @ r)"
proof (cases s)
  case Nil
  then show ?thesis using assms by (auto simp: scan_fraction_def delim_def split: list.splits)
next
  case (Cons c cs)
  then show ?thesis using assms scan_digits_delim [OF assms(1), of cs t]
    by (auto simp: scan_fraction_def split: if_splits)
qed

lemma scan_exponent_delim:
  assumes "delim r" and "scan_exponent s = Some t"
  shows "scan_exponent (s @ r) = Some (t @ r)"
proof (cases s)
  case Nil
  then show ?thesis using assms by (auto simp: scan_exponent_def delim_def split: list.splits)
next
  case (Cons c cs)
  show ?thesis
  proof (cases cs)
    case Nil
    then show ?thesis using assms(2) Cons by (auto simp: scan_exponent_def split: if_splits)
  next
    case (Cons d ds)
    then show ?thesis
      using assms(2) \<open>s = c # cs\<close> scan_digits_delim [OF assms(1), of ds t]
        scan_digits_delim [OF assms(1), of "d # ds" t]
      by (auto simp: scan_exponent_def split: if_splits)
  qed
qed

lemma scan_number_delim:
  assumes "delim r" and "scan_number s = Some t"
  shows "scan_number (s @ r) = Some (t @ r)"
proof -
  define u where "u = (case s of c # cs \<Rightarrow> if c = CHR ''-'' then cs else s | [] \<Rightarrow> s)"
  obtain a b where ab: "scan_integer u = Some a" "scan_fraction a = Some b" "scan_exponent b = Some t"
    using assms(2) by (auto simp: scan_number_def u_def [symmetric] Let_def bind_eq_Some_conv)
  moreover have "s \<noteq> []" using ab(1) by (auto simp: u_def scan_integer_def)
  then have "(case s @ r of c # cs \<Rightarrow> if c = CHR ''-'' then cs else s @ r | [] \<Rightarrow> s @ r) = u @ r"
    by (cases s) (simp_all add: u_def)
  ultimately show ?thesis
    using assms(1) by (simp add: scan_number_def Let_def scan_integer_delim scan_fraction_delim scan_exponent_delim)
qed

lemma digit_val_is_digit: "digit_val c \<noteq> None \<longleftrightarrow> is_digit c"
  by (auto simp: digit_val_def is_digit_def byte_def Let_def)

lemma scan_digits_all: "s \<noteq> [] \<Longrightarrow> (\<And>c. c \<in> set s \<Longrightarrow> is_digit c) \<Longrightarrow> scan_digits s = Some []"
  by (cases s) (auto simp: scan_digits_def)

lemma dec_nat_zero_head: "dec_nat n = CHR ''0'' # cs \<Longrightarrow> cs = []"
proof (induction n arbitrary: cs rule: dec_nat.induct)
  case (1 n)
  show ?case
  proof (cases "n < 10")
    case True
    then show ?thesis using "1.prems" by (subst (asm) dec_nat.simps) simp
  next
    case False
    obtain c ds where d: "dec_nat (n div 10) = c # ds" by (cases "dec_nat (n div 10)") simp_all
    then have "c = CHR ''0''" using "1.prems" False by (subst (asm) dec_nat.simps) simp
    with "1.IH" [OF False] d have "dec_nat (n div 10) = [CHR ''0'']" by simp
    then have "digits_val 0 [CHR ''0''] = Some (n div 10)" using digits_val_dec_nat [of "n div 10"] by simp
    moreover have "digits_val 0 [CHR ''0''] = Some 0" by (simp add: digit_val_def)
    ultimately show ?thesis using False by simp
  qed
qed

lemma scan_integer_dec: "scan_integer (dec_nat n) = Some []"
proof (cases "dec_nat n")
  case (Cons c cs)
  have d: "is_digit e" if "e \<in> set (dec_nat n)" for e
    using dec_nat_digits [OF that] digit_val_is_digit by blast
  show ?thesis
  proof (cases "c = CHR ''0''")
    case True
    then show ?thesis using dec_nat_zero_head [of n cs] Cons by (simp add: scan_integer_def)
  next
    case False
    have "scan_digits (dec_nat n) = Some []" by (rule scan_digits_all [OF _ d]) simp_all
    then show ?thesis using False Cons by (simp add: scan_integer_def)
  qed
qed simp

lemma scan_number_itoa: "scan_number (itoa i) = Some []"
proof -
  have f: "scan_fraction [] = Some []" "scan_exponent [] = Some []"
    by (simp_all add: scan_fraction_def scan_exponent_def)
  have "(case dec_nat n of c # cs \<Rightarrow> if c = CHR ''-'' then cs else dec_nat n | [] \<Rightarrow> dec_nat n) = dec_nat n" for n
    by (cases "dec_nat n") auto
  then show ?thesis by (simp add: scan_number_def itoa_def scan_integer_dec f Let_def)
qed

section \<open>Documents\<close>

text \<open>How deep a value nests.\<close>

fun fits :: "nat \<Rightarrow> gvalue \<Rightarrow> bool" where
  "fits n (GSlice vs) = (case n of 0 \<Rightarrow> False | Suc m \<Rightarrow> list_all (fits m) vs)"
| "fits n (GMap kvs) = (case n of 0 \<Rightarrow> False | Suc m \<Rightarrow> list_all (\<lambda>kv. fits m (snd kv)) kvs)"
| "fits n v = True"

text \<open>What is relied on of the texts the model does not produce itself: a finite float is written
  as a JSON number, an instant as a JSON string, and a JSONB column returns a JSON text.\<close>

definition json_texts :: "externals \<Rightarrow> bool" where
  "json_texts x \<longleftrightarrow>
     (\<forall>bits q. scan_number (x_float_text x bits q) = Some []) \<and>
     (\<forall>t s. x_time_json x t = Inr s \<longrightarrow> (\<exists>u. s = json_string u)) \<and>
     (\<forall>s t. x_pg_payload x s = Some t \<longrightarrow> json_valid s \<longrightarrow> json_valid t)"

lemma json_texts_time: "json_texts x \<Longrightarrow> x_time_json x t = Inr s \<Longrightarrow> \<exists>u. s = json_string u"
  by (simp add: json_texts_def)

definition scans :: "nat \<Rightarrow> string \<Rightarrow> bool" where
  "scans n s \<longleftrightarrow>
     (\<exists>c cs. s = c # cs \<and> \<not> is_json_space c \<and> c \<noteq> CHR '']'' \<and> c \<noteq> CHR 0x7D) \<and>
     (\<forall>fuel d r. 2 * length s \<le> fuel \<longrightarrow> int n \<le> d \<longrightarrow> delim r \<longrightarrow> scan_value fuel d (s @ r) = Some r)"

lemma scansD:
  assumes "scans n s"
  shows "2 * length s \<le> fuel \<Longrightarrow> int n \<le> d \<Longrightarrow> delim r \<Longrightarrow> scan_value fuel d (s @ r) = Some r"
    and "\<exists>c cs. s = c # cs \<and> \<not> is_json_space c \<and> c \<noteq> CHR '']'' \<and> c \<noteq> CHR 0x7D"
  using assms by (simp_all add: scans_def)

lemma skip_space_no [simp]: "\<not> is_json_space c \<Longrightarrow> skip_space (c # cs) = c # cs"
  by (simp add: skip_space_def)

lemma not_space [simp]:
  "\<not> is_json_space CHR '',''" "\<not> is_json_space CHR '']''" "\<not> is_json_space CHR 0x7D"
  "\<not> is_json_space CHR ''[''" "\<not> is_json_space CHR 0x7B" "\<not> is_json_space CHR '':''"
  "\<not> is_json_space dquote" "\<not> is_json_space CHR 0x22" "\<not> is_json_space CHR ''-''" "is_digit c \<Longrightarrow> \<not> is_json_space c"
  by (auto simp: is_json_space_def is_digit_def byte_def dquote_def)

text \<open>Scalars.\<close>

lemma scans_number:
  assumes "scan_number s = Some []"
  shows "scans n s"
proof -
  obtain c cs where s: "s = c # cs"
    using assms by (cases s) (auto simp: scan_number_def scan_integer_def)
  have c: "c = CHR ''-'' \<or> is_digit c"
    using assms s by (auto simp: scan_number_def scan_integer_def scan_digits_def bind_eq_Some_conv
        is_digit_def byte_def split: if_splits)
  then have "\<not> is_json_space c" by auto
  moreover from c have "c \<noteq> dquote" "c \<noteq> CHR ''[''" "c \<noteq> CHR 0x7B" "c \<noteq> CHR ''t''" "c \<noteq> CHR ''f''" "c \<noteq> CHR ''n''"
    "c \<noteq> CHR '']''" "c \<noteq> CHR 0x7D"
    by (auto simp: is_digit_def byte_def dquote_def)
  moreover have "scan_value fuel d (s @ r) = Some r" if "2 * length s \<le> fuel" "delim r" for fuel d r
  proof (cases fuel)
    case (Suc f)
    have "scan_number (c # cs @ r) = Some r" using scan_number_delim [OF that(2) assms] s by simp
    with Suc s calculation show ?thesis by simp
  qed (use that s in simp)
  ultimately show ?thesis by (auto simp: scans_def s)
qed

lemma scans_string: "scans n (json_string u)"
  unfolding scans_def json_string_eq
proof (intro conjI allI impI)
  show "\<exists>c cs. dquote # escape_string (length u) u @ [dquote] = c # cs \<and> \<not> is_json_space c \<and>
      c \<noteq> CHR '']'' \<and> c \<noteq> CHR 0x7D" by (simp add: dquote_def)
  fix fuel d r assume "2 * length (dquote # escape_string (length u) u @ [dquote]) \<le> fuel"
  then show "scan_value fuel d ((dquote # escape_string (length u) u @ [dquote]) @ r) = Some r"
    by (cases fuel) (simp_all add: scan_string_escape del: scan_string.simps)
qed

lemma scans_literal:
  "scans n ''null''" "scans n ''true''" "scans n ''false''"
proof -
  have *: "\<not> is_json_space CHR ''n''" "\<not> is_json_space CHR ''t''" "\<not> is_json_space CHR ''f''"
    by (simp_all add: is_json_space_def byte_def)
  have "scan_value fuel d (s @ r) = Some r"
    if "s \<in> {''null'', ''true'', ''false''}" "2 * length s \<le> fuel" for s fuel d r
    using that * by (cases fuel) (auto simp: scan_literal_def dquote_def)
  note sc = this
  show "scans n ''null''" "scans n ''true''" "scans n ''false''"
    unfolding scans_def
    by (intro conjI allI impI; (rule sc)?; simp add: * )+
qed

text \<open>Arrays and objects.\<close>

lemma scan_elems_join:
  assumes "ss \<noteq> []" and "\<And>s. s \<in> set ss \<Longrightarrow> scans n s" and "2 * length (join '','' ss) + 1 \<le> fuel"
    and "int n \<le> d"
  shows "scan_elems fuel d (join '','' ss @ CHR '']'' # r) = Some r"
  using assms
proof (induction "'',''" ss arbitrary: fuel rule: join.induct)
  case (2 s)
  then obtain f where f: "fuel = Suc f" by (cases fuel) simp_all
  have "scan_value f d (s @ CHR '']'' # r) = Some (CHR '']'' # r)"
    by (rule scansD(1) [of n]) (use 2 f in simp_all)
  then show ?case by (simp add: f)
next
  case (3 s t ss)
  then obtain f where f: "fuel = Suc f" by (cases fuel) simp_all
  let ?rest = "join '','' (t # ss) @ CHR '']'' # r"
  have "scan_value f d (s @ CHR '','' # ?rest) = Some (CHR '','' # ?rest)"
    by (rule scansD(1) [of n]) (use 3 f in simp_all)
  moreover have "scan_elems f d ?rest = Some r"
    by (rule "3.hyps") (use "3.prems" f in simp_all)
  ultimately show ?case by (simp add: f)
qed simp

lemma scan_members_join:
  assumes "ms \<noteq> []" and "\<And>k s. (k, s) \<in> set ms \<Longrightarrow> scans n s"
    and "2 * length (join '','' (map json_member ms)) + 1 \<le> fuel" and "int n \<le> d"
  shows "scan_members fuel d (join '','' (map json_member ms) @ CHR 0x7D # r) = Some r"
  using assms
proof (induction ms arbitrary: fuel)
  case (Cons m ms)
  obtain k s where m: "m = (k, s)" by (cases m) simp
  obtain f where f: "fuel = Suc f" using Cons.prems(3) by (cases fuel) simp_all
  let ?after = "if ms = [] then CHR 0x7D # r else CHR '','' # join '','' (map json_member ms) @ CHR 0x7D # r"
  have j: "join '','' (map json_member (m # ms)) @ CHR 0x7D # r = json_member m @ ?after"
    by (cases ms) simp_all
  have len: "length (json_member m) + (if ms = [] then 0 else 1 + length (join '','' (map json_member ms))) =
      length (join '','' (map json_member (m # ms)))"
    by (cases ms) simp_all
  have "length s < length (json_member m)" by (simp add: m json_member_def json_string_def)
  then have "scan_value f d (s @ ?after) = Some ?after"
    by (intro scansD(1) [of n]) (use Cons.prems f m len in auto)
  moreover have "scan_members f d (join '','' (map json_member ms) @ CHR 0x7D # r) = Some r" if "ms \<noteq> []"
    by (rule Cons.IH) (use Cons.prems f that len in \<open>auto split: if_splits\<close>)
  moreover have "scan_string (escape_string (length k) k @ dquote # CHR '':'' # s @ ?after) =
      Some (CHR '':'' # s @ ?after)"
    by (rule scan_string_escape)
  ultimately show ?case
    unfolding j by (simp add: f m json_member_def json_string_eq del: scan_string.simps)
qed simp

lemma scans_array:
  assumes "\<And>s. s \<in> set ss \<Longrightarrow> scans n s"
  shows "scans (Suc n) (json_array ss)"
  unfolding scans_def
proof (intro conjI allI impI)
  show "\<exists>c cs. json_array ss = c # cs \<and> \<not> is_json_space c \<and> c \<noteq> CHR '']'' \<and> c \<noteq> CHR 0x7D"
    by (simp add: json_array_def)
  fix fuel d r assume h: "2 * length (json_array ss) \<le> fuel" "int (Suc n) \<le> d"
  obtain f where f: "fuel = Suc f" using h(1) by (cases fuel) (simp_all add: json_array_def)
  show "scan_value fuel d (json_array ss @ r) = Some r"
  proof (cases ss)
    case Nil
    then show ?thesis using h(2) by (simp add: f json_array_def dquote_def)
  next
    case (Cons s ts)
    obtain c cs where s: "s = c # cs" "\<not> is_json_space c" "c \<noteq> CHR '']''"
      using scansD(2) [OF assms, of s] Cons by auto
    then obtain ds where j: "join '','' ss = c # ds" using Cons by (cases ts) simp_all
    have "scan_elems f (d - 1) (join '','' ss @ CHR '']'' # r) = Some r"
      by (rule scan_elems_join [of _ n]) (use assms h f Cons in \<open>simp_all add: json_array_def\<close>)
    then show ?thesis using h(2) s j by (simp add: f json_array_def dquote_def)
  qed
qed

lemma scans_object:
  assumes "\<And>k s. (k, s) \<in> set ms \<Longrightarrow> scans n s"
  shows "scans (Suc n) (json_object ms)"
  unfolding scans_def
proof (intro conjI allI impI)
  show "\<exists>c cs. json_object ms = c # cs \<and> \<not> is_json_space c \<and> c \<noteq> CHR '']'' \<and> c \<noteq> CHR 0x7D"
    by (simp add: json_object_def)
  fix fuel d r assume h: "2 * length (json_object ms) \<le> fuel" "int (Suc n) \<le> d"
  define ks where "ks = sort_key fst ms"
  obtain f where f: "fuel = Suc f" using h(1) by (cases fuel) (simp_all add: json_object_def)
  show "scan_value fuel d (json_object ms @ r) = Some r"
  proof (cases ks)
    case Nil
    then show ?thesis using h(2) by (simp add: f json_object_def ks_def [symmetric] dquote_def)
  next
    case (Cons k ts)
    then obtain cs where j: "join '','' (map json_member ks) = dquote # cs"
      by (cases ts) (simp_all add: json_member_def json_string_def)
    have "(k, s) \<in> set ks \<Longrightarrow> scans n s" for k s using assms by (simp add: ks_def)
    then have "scan_members f (d - 1) (join '','' (map json_member ks) @ CHR 0x7D # r) = Some r"
      by (rule scan_members_join [rotated]) (use h f Cons in \<open>simp_all add: json_object_def ks_def [symmetric]\<close>)
    then show ?thesis using h(2) j
      by (simp add: f json_object_def ks_def [symmetric] dquote_def)
  qed
qed

lemma json_float_scans:
  "json_texts x \<Longrightarrow> json_float x bits f = Inr s \<Longrightarrow> scans n s"
  by (cases f) (auto simp: json_texts_def intro: scans_number)

lemma json_marshal_scans:
  "json_marshal x v = Inr s \<Longrightarrow> json_texts x \<Longrightarrow> fits n v \<Longrightarrow> scans n s"
  "json_elems x vs = Inr ss \<Longrightarrow> json_texts x \<Longrightarrow> list_all (fits n) vs \<Longrightarrow> \<forall>s \<in> set ss. scans n s"
  "json_members x kvs = Inr ms \<Longrightarrow> json_texts x \<Longrightarrow> list_all (\<lambda>kv. fits n (snd kv)) kvs \<Longrightarrow>
     \<forall>(k, s) \<in> set ms. scans n s"
proof (induction x v and x vs and x kvs arbitrary: n s and n ss and n ms
    rule: json_marshal_json_elems_json_members.induct)
  case (10 x t)
  then obtain u where "s = json_string u" using json_texts_time [of x t s] by auto
  then show ?case by (simp add: scans_string)
next
  case (11 x vs)
  then show ?case by (auto split: sum.splits nat.splits intro!: scans_array)
next
  case (12 x kvs)
  then show ?case by (fastforce split: sum.splits nat.splits intro!: scans_object)
next
  case (15 x v vs)
  then show ?case by (auto split: sum.splits)
next
  case (17 x k v kvs)
  then show ?case by (fastforce split: sum.splits)
qed (auto intro: scans_literal scans_string scans_number scan_number_itoa json_float_scans split: if_splits)

lemma marshal_valid:
  assumes "json_marshal x v = Inr s" and "json_texts x" and "fits n v" and "int n \<le> maxNestingDepth"
  shows "json_valid s"
proof -
  have "scan_value (2 * length s + 2) maxNestingDepth (s @ []) = Some []"
    by (rule scansD(1) [OF json_marshal_scans(1) [OF assms(1-3)]]) (simp_all add: assms(4))
  then show ?thesis by (simp add: json_valid_def skip_space_def)
qed

section \<open>The fuel is enough\<close>

lemma length_skip_space: "skip_space s = c # cs \<Longrightarrow> length cs < length s"
  using length_dropWhile_le [of is_json_space s] by (simp add: skip_space_def)

lemma scan_string_shrinks: "scan_string s = Some r \<Longrightarrow> length r < length s"
proof (induction s rule: measure_induct_rule [of length])
  case (less s)
  then show ?case
    by (cases s) (auto dest!: less.IH [rotated] split: if_splits list.splits)
qed

lemma scan_digits_shrinks: "scan_digits s = Some r \<Longrightarrow> length r < length s"
  using length_dropWhile_le [of is_digit "tl s"]
  by (auto simp: scan_digits_def split: list.splits if_splits)

lemma scan_number_shrinks:
  assumes "scan_number s = Some r"
  shows "length r < length s"
proof -
  define u where "u = (case s of c # cs \<Rightarrow> if c = CHR ''-'' then cs else s | [] \<Rightarrow> s)"
  obtain a b where ab: "scan_integer u = Some a" "scan_fraction a = Some b" "scan_exponent b = Some r"
    using assms by (auto simp: scan_number_def u_def [symmetric] Let_def bind_eq_Some_conv)
  have "length a < length u"
    using ab(1) by (auto simp: scan_integer_def dest: scan_digits_shrinks split: list.splits if_splits)
  moreover have "length b \<le> length a"
    using ab(2) by (auto simp: scan_fraction_def dest: scan_digits_shrinks split: list.splits if_splits)
  moreover have "length r \<le> length b"
    using ab(3) by (auto simp: scan_exponent_def dest!: scan_digits_shrinks split: list.splits if_splits)
  moreover have "length u \<le> length s" by (auto simp: u_def split: list.splits)
  ultimately show ?thesis by simp
qed

lemma scan_literal_shrinks: "scan_literal lit s = Some r \<Longrightarrow> lit \<noteq> [] \<Longrightarrow> length r < length s"
  by (cases lit; cases s) (auto simp: scan_literal_def split: if_splits)

lemma scan_shrinks_all:
  "(\<forall>d s r. scan_value f d s = Some r \<longrightarrow> length r < length s) \<and>
   (\<forall>d s r. scan_elems f d s = Some r \<longrightarrow> length r < length s) \<and>
   (\<forall>d s r. scan_members f d s = Some r \<longrightarrow> length r < length s)"
proof (induction f)
  case (Suc f)
  then have ih: "scan_value f d s = Some r \<Longrightarrow> length r < length s"
    "scan_elems f d s = Some r \<Longrightarrow> length r < length s"
    "scan_members f d s = Some r \<Longrightarrow> length r < length s" for d s r
    by blast+
  note shrink = ih length_skip_space scan_string_shrinks scan_number_shrinks scan_literal_shrinks
  have "length r < length s" if v: "scan_value (Suc f) d s = Some r" for d s r
  proof -
    obtain c cs where s: "skip_space s = c # cs" using v by (auto split: list.splits)
    have "length r < length (c # cs)"
      using v unfolding scan_value.simps(2) s list.case
      by (auto dest!: shrink split: if_splits list.splits)
    moreover have "length (c # cs) \<le> length s" using length_skip_space [OF s] by simp
    ultimately show ?thesis by simp
  qed
  moreover have "length r < length s" if "scan_elems (Suc f) d s = Some r" for d s r
    using that by (auto dest!: shrink split: option.splits list.splits if_splits)
  moreover have "length r < length s" if "scan_members (Suc f) d s = Some r" for d s r
    using that by (auto dest!: shrink split: option.splits list.splits if_splits)
  ultimately show ?case by blast
qed simp

lemma scan_shrinks:
  "scan_value f d s = Some r \<Longrightarrow> length r < length s"
  using scan_shrinks_all by blast

lemma scan_fuel:
  "(\<forall>d f g. 2 * length s \<le> f \<longrightarrow> 2 * length s \<le> g \<longrightarrow> scan_value f d s = scan_value g d s) \<and>
   (\<forall>d f g. 2 * length s + 1 \<le> f \<longrightarrow> 2 * length s + 1 \<le> g \<longrightarrow> scan_elems f d s = scan_elems g d s) \<and>
   (\<forall>d f g. 2 * length s + 1 \<le> f \<longrightarrow> 2 * length s + 1 \<le> g \<longrightarrow> scan_members f d s = scan_members g d s)"
proof (induction s rule: measure_induct_rule [of length])
  case (less s)
  have shorter: "scan_value f d t = scan_value g d t"
    if "length t < length s" "2 * length t \<le> f" "2 * length t \<le> g" for t f g d
    using less that by blast
  have elems: "scan_elems f d t = scan_elems g d t" and members: "scan_members f d t = scan_members g d t"
    if "length t < length s" "2 * length t + 1 \<le> f" "2 * length t + 1 \<le> g" for t f g d
    using less that by blast+
  have v: "scan_value f d s = scan_value g d s" if le: "2 * length s \<le> f" "2 * length s \<le> g" for d f g
  proof (cases "skip_space s")
    case Nil
    then show ?thesis by (cases f; cases g) simp_all
  next
    case (Cons c cs)
    then have l: "length cs < length s" by (rule length_skip_space)
    then obtain f' g' where fg: "f = Suc f'" "g = Suc g'" using le by (cases f; cases g) simp_all
    have "scan_elems f' (d - 1) cs = scan_elems g' (d - 1) cs"
      by (rule elems) (use l le fg in simp_all)
    moreover have "scan_members f' (d - 1) cs = scan_members g' (d - 1) cs"
      by (rule members) (use l le fg in simp_all)
    ultimately show ?thesis by (simp add: fg Cons del: scan_string.simps split: list.split)
  qed
  have e: "scan_elems f d s = scan_elems g d s" if le: "2 * length s + 1 \<le> f" "2 * length s + 1 \<le> g" for d f g
  proof -
    obtain f' g' where fg: "f = Suc f'" "g = Suc g'" using le by (cases f; cases g) simp_all
    have "scan_value f' d s = scan_value g' d s" by (rule v) (use le fg in simp_all)
    moreover have "scan_elems f' d cs = scan_elems g' d cs"
      if "scan_value g' d s = Some r" "skip_space r = c # cs" for r c cs
      by (rule elems) (use scan_shrinks [OF that(1)] length_skip_space [OF that(2)] le fg in simp_all)
    ultimately show ?thesis by (simp add: fg split: option.splits list.splits)
  qed
  have m: "scan_members f d s = scan_members g d s" if le: "2 * length s + 1 \<le> f" "2 * length s + 1 \<le> g" for d f g
  proof -
    obtain f' g' where fg: "f = Suc f'" "g = Suc g'" using le by (cases f; cases g) simp_all
    have vv: "scan_value f' d cs = scan_value g' d cs"
      if "skip_space s = q # qs" "scan_string qs = Some r" "skip_space r = c # cs" for q qs r c cs
      by (rule shorter) (use length_skip_space [OF that(1)] scan_string_shrinks [OF that(2)]
          length_skip_space [OF that(3)] le fg in simp_all)
    moreover have "scan_members f' d es = scan_members g' d es"
      if "skip_space s = q # qs" "scan_string qs = Some r" "skip_space r = c # cs"
        "scan_value g' d cs = Some r'" "skip_space r' = e # es" for q qs r c cs r' e es
      by (rule members) (use length_skip_space [OF that(1)] scan_string_shrinks [OF that(2)]
          length_skip_space [OF that(3)] scan_shrinks [OF that(4)] length_skip_space [OF that(5)]
          le fg in simp_all)
    ultimately show ?thesis by (simp add: fg split: option.splits list.splits)
  qed
  show ?case using v e m by blast
qed

section \<open>The fuel is enough\<close>

text \<open>The scanner needs no more fuel than it is given: from twice the length of the text on, the
  answer no longer changes, so \<open>json_valid\<close> rejects a text only for its syntax or its depth.\<close>

lemma json_scan_terminates:
  assumes "2 * length s \<le> fuel"
  shows "json_valid s \<longleftrightarrow>
    (\<exists>r. scan_value fuel maxNestingDepth s = Some r \<and> skip_space r = [] \<and> length r < length s)"
proof -
  have "scan_value fuel maxNestingDepth s = scan_value (2 * length s + 2) maxNestingDepth s"
    using scan_fuel [of s] assms by (metis le_add1)
  then show ?thesis
    by (auto simp: json_valid_def split: option.splits dest: scan_shrinks)
qed

end
