(* ===== verification/Outbox_Store.thy ===== *)
theory Outbox_Store
  imports Store
begin

text \<open>
  The outbox repository (internal/platform/postgres/outbox_repository.go): claiming a batch
  under \<open>FOR UPDATE SKIP LOCKED\<close>, reclaiming stale rows and the three marks.  The
  life of one row is the relation \<open>row_step\<close>; every operation of the repository moves
  every row by at most one such step.
\<close>

section \<open>The code\<close>

definition scan_row :: "outbox_row \<Rightarrow> outbox_event" where
  "scan_row r =
     \<lparr>oe_id = or_id r, oe_event_id = or_event_id r, oe_event_type = or_event_type r,
      oe_payload = or_payload r, oe_status = status_text (or_status r),
      oe_attempts = or_attempts r, oe_available_at = or_available_at r,
      oe_created_at = or_created_at r, oe_published_at = or_published_at r,
      oe_last_error = or_last_error r\<rparr>"

text \<open>The \<open>WHERE\<close> clause of the claim query, with the rows other transactions have
  locked skipped, and its \<open>ORDER BY created_at LIMIT\<close>; rows of equal creation time
  come in the table's order.\<close>

definition eligible :: "db_call \<Rightarrow> outbox_row \<Rightarrow> bool" where
  "eligible c r \<longleftrightarrow>
     or_status r = PENDING \<and> or_available_at r \<le> dc_now c \<and> or_id r \<notin> set (dc_locked c)"

definition select_pending :: "db_call \<Rightarrow> int \<Rightarrow> outbox_row list \<Rightarrow> outbox_row list" where
  "select_pending c limit rows = first_by or_created_at (nat limit) (filter (eligible c) rows)"

definition set_processing :: "time \<Rightarrow> outbox_row \<Rightarrow> outbox_row" where
  "set_processing now r = r\<lparr>or_status := PROCESSING, or_processing_at := Some now\<rparr>"

definition update_outbox :: "(outbox_row \<Rightarrow> bool) \<Rightarrow> (outbox_row \<Rightarrow> outbox_row) \<Rightarrow> db \<Rightarrow> db" where
  "update_outbox p f s = s\<lparr>db_outbox := update_where p f (db_outbox s)\<rparr>"

text \<open>A negative limit makes \<open>make([]OutboxEvent, 0, limit)\<close> panic, which ends the process and
  with it the open transaction; the panic is an error value here, and the configuration and the
  theorems exclude it.\<close>

definition makeslice_panic :: gerror where
  "makeslice_panic = ErrorString ''runtime error: makeslice: cap out of range''"

definition ClaimPending :: "db_call \<Rightarrow> int \<Rightarrow> db \<Rightarrow> outbox_event list result \<times> db" where
  "ClaimPending c limit s =
     (case dc_fail c AtBegin of
        Some e \<Rightarrow> (Inl (wrapf ''begin claim transaction: '' e), s)
      | None \<Rightarrow>
     (case dc_fail c AtQuery of
        Some e \<Rightarrow> (Inl (wrapf ''query pending outbox events: '' e), s)
      | None \<Rightarrow>
     if limit < 0 then (Inl makeslice_panic, s) else
     (case dc_fail c AtScan of
        Some e \<Rightarrow> (Inl (wrapf ''scan outbox event: '' e), s)
      | None \<Rightarrow>
     (case dc_fail c AtRows of
        Some e \<Rightarrow> (Inl (wrapf ''iterate outbox events: '' e), s)
      | None \<Rightarrow>
     (let events = map scan_row (select_pending c limit (db_outbox s)) in
      if events = [] then
        (case finish (dc_end c) s s of
           (Some e, s') \<Rightarrow> (Inl (wrapf ''commit empty claim transaction: '' e), s')
         | (None, s') \<Rightarrow> (Inr events, s'))
      else
        let ids = map oe_id events in
        (case dc_fail c AtExec of
           Some e \<Rightarrow> (Inl (wrapf ''mark outbox events processing: '' e), s)
         | None \<Rightarrow>
        (case finish (dc_end c) s
                (update_outbox (\<lambda>r. or_id r \<in> set ids) (set_processing (dc_now c)) s) of
           (Some e, s') \<Rightarrow> (Inl (wrapf ''commit claim transaction: '' e), s')
         | (None, s') \<Rightarrow> (Inr (map (\<lambda>ev. ev\<lparr>oe_status := ''PROCESSING''\<rparr>) events), s'))))))))"

text \<open>An autocommitted \<open>UPDATE\<close>: the number of rows it affected, or its error.\<close>

definition exec_update ::
  "db_call \<Rightarrow> (outbox_row \<Rightarrow> bool) \<Rightarrow> (outbox_row \<Rightarrow> outbox_row) \<Rightarrow> db \<Rightarrow> nat result \<times> db"
where
  "exec_update c p f s =
     (case finish (dc_end c) s (update_outbox p f s) of
        (Some e, s') \<Rightarrow> (Inl e, s')
      | (None, s') \<Rightarrow> (Inr (affected p (db_outbox s)), s'))"

definition stale :: "db_call \<Rightarrow> int \<Rightarrow> outbox_row \<Rightarrow> bool" where
  "stale c staleAfter r \<longleftrightarrow>
     or_status r = PROCESSING \<and>
     (case or_processing_at r of None \<Rightarrow> True | Some t \<Rightarrow> t \<le> dc_now c - staleAfter) \<and>
     or_id r \<notin> set (dc_locked c)"

definition set_reclaimed :: "time \<Rightarrow> outbox_row \<Rightarrow> outbox_row" where
  "set_reclaimed now r = r\<lparr>or_status := PENDING, or_available_at := now, or_processing_at := None\<rparr>"

definition ReclaimStale :: "db_call \<Rightarrow> int \<Rightarrow> db \<Rightarrow> int result \<times> db" where
  "ReclaimStale c staleAfter s =
     (case exec_update c (stale c staleAfter) (set_reclaimed (dc_now c)) s of
        (Inl e, s') \<Rightarrow> (Inl (wrapf ''reclaim stale outbox events: '' e), s')
      | (Inr n, s') \<Rightarrow> (Inr (int n), s'))"

definition set_published :: "time \<Rightarrow> outbox_row \<Rightarrow> outbox_row" where
  "set_published now r = r\<lparr>or_status := PUBLISHED, or_published_at := Some now\<rparr>"

definition MarkPublished :: "externals \<Rightarrow> db_call \<Rightarrow> uuid \<Rightarrow> db \<Rightarrow> failure \<times> db" where
  "MarkPublished x c i s =
     (case exec_update c (\<lambda>r. or_id r = i) (set_published (dc_now c)) s of
        (Inl e, s') \<Rightarrow> (Some (wrapf ''mark outbox event as published: '' e), s')
      | (Inr n, s') \<Rightarrow>
          if n = 0 then (Some (ErrorString (''outbox event not found: '' @ x_uuid_string x i)), s')
          else (None, s'))"

definition set_failed :: "string \<Rightarrow> time \<Rightarrow> outbox_row \<Rightarrow> outbox_row" where
  "set_failed errMsg nextAttemptAt r =
     r\<lparr>or_status := PENDING, or_attempts := or_attempts r + 1,
       or_available_at := nextAttemptAt, or_last_error := Some errMsg\<rparr>"

definition int4_max :: int where
  "int4_max = 2147483647"

text \<open>The attempts column is a 32-bit integer: the statement fails where the increment
  overflows it.\<close>

definition MarkFailed :: "externals \<Rightarrow> db_call \<Rightarrow> uuid \<Rightarrow> string \<Rightarrow> time \<Rightarrow> db \<Rightarrow> failure \<times> db" where
  "MarkFailed x c i errMsg nextAttemptAt s =
     (let p = (\<lambda>r. or_id r = i \<and> or_status r = PROCESSING) in
      if list_ex (\<lambda>r. p r \<and> int4_max \<le> or_attempts r) (db_outbox s) then
        (Some (wrapf ''mark outbox event as failed: '' (dc_reject c)), s)
      else
        (case exec_update c p (set_failed errMsg nextAttemptAt) s of
           (Inl e, s') \<Rightarrow> (Some (wrapf ''mark outbox event as failed: '' e), s')
         | (Inr n, s') \<Rightarrow>
             if n = 0 then
               (Some (ErrorString (''outbox event not found or not pending: '' @ x_uuid_string x i)), s')
             else (None, s')))"

definition set_closed :: "string \<Rightarrow> outbox_row \<Rightarrow> outbox_row" where
  "set_closed errMsg r = r\<lparr>or_status := CLOSE, or_last_error := Some errMsg\<rparr>"

definition MarkClose :: "externals \<Rightarrow> db_call \<Rightarrow> uuid \<Rightarrow> string \<Rightarrow> db \<Rightarrow> failure \<times> db" where
  "MarkClose x c i errMsg s =
     (case exec_update c (\<lambda>r. or_id r = i \<and> or_status r = PROCESSING) (set_closed errMsg) s of
        (Inl e, s') \<Rightarrow> (Some (wrapf ''mark outbox event as closed: '' e), s')
      | (Inr n, s') \<Rightarrow>
          if n = 0 then
            (Some (ErrorString (''outbox event not found or not processing: '' @ x_uuid_string x i)), s')
          else (None, s'))"

lemmas row_writers = set_processing_def set_reclaimed_def set_published_def set_failed_def
  set_closed_def

lemma row_writers_fun:
  "set_failed msg t = (\<lambda>r. r\<lparr>or_status := PENDING, or_attempts := or_attempts r + 1,
     or_available_at := t, or_last_error := Some msg\<rparr>)"
  "set_closed msg = (\<lambda>r. r\<lparr>or_status := CLOSE, or_last_error := Some msg\<rparr>)"
  "set_published now = (\<lambda>r. r\<lparr>or_status := PUBLISHED, or_published_at := Some now\<rparr>)"
  by (rule ext, simp add: row_writers)+

section \<open>The life of a row\<close>

text \<open>The abstract specification of the repository: what may happen to one row.  Publishing
  is the only step that does not ask for \<open>PROCESSING\<close>.\<close>

datatype row_label = Claimed | Reclaimed | Published | Failed string time | Closed string

inductive row_step :: "time \<Rightarrow> row_label \<Rightarrow> outbox_row \<Rightarrow> outbox_row \<Rightarrow> bool" where
  claim: "or_status r = PENDING \<Longrightarrow> or_available_at r \<le> now \<Longrightarrow>
    row_step now Claimed r (r\<lparr>or_status := PROCESSING, or_processing_at := Some now\<rparr>)"
| reclaim: "or_status r = PROCESSING \<Longrightarrow>
    row_step now Reclaimed r (r\<lparr>or_status := PENDING, or_available_at := now, or_processing_at := None\<rparr>)"
| publish: "row_step now Published r (r\<lparr>or_status := PUBLISHED, or_published_at := Some now\<rparr>)"
| fail: "or_status r = PROCESSING \<Longrightarrow> or_attempts r < int4_max \<Longrightarrow>
    row_step now (Failed msg t) r (r\<lparr>or_status := PENDING, or_attempts := or_attempts r + 1,
      or_available_at := t, or_last_error := Some msg\<rparr>)"
| close: "or_status r = PROCESSING \<Longrightarrow>
    row_step now (Closed msg) r (r\<lparr>or_status := CLOSE, or_last_error := Some msg\<rparr>)"

inductive_cases row_stepE: "row_step now l r r'"
inductive_cases row_step_ClaimedE: "row_step now Claimed r r'"

inductive_simps row_step_simps:
  "row_step now Claimed r r'" "row_step now Reclaimed r r'" "row_step now Published r r'"
  "row_step now (Failed msg t) r r'" "row_step now (Closed msg) r r'"

text \<open>The writers of the repository make these steps.\<close>

lemma row_step_code:
  "or_status r = PENDING \<Longrightarrow> or_available_at r \<le> now \<Longrightarrow> row_step now Claimed r (set_processing now r)"
  "or_status r = PROCESSING \<Longrightarrow> row_step now Reclaimed r (set_reclaimed now r)"
  "row_step now Published r (set_published now r)"
  "or_status r = PROCESSING \<Longrightarrow> or_attempts r < int4_max \<Longrightarrow> row_step now (Failed msg t) r (set_failed msg t r)"
  "or_status r = PROCESSING \<Longrightarrow> row_step now (Closed msg) r (set_closed msg r)"
  by (simp_all add: row_writers row_step.intros)

text \<open>A row stays or makes a step with a label of a given set; a table moves row by row.\<close>

definition row_moves :: "time \<Rightarrow> (row_label \<Rightarrow> bool) \<Rightarrow> outbox_row \<Rightarrow> outbox_row \<Rightarrow> bool" where
  "row_moves now L r r' \<longleftrightarrow> r' = r \<or> (\<exists>l. L l \<and> row_step now l r r')"

definition table_moves :: "time \<Rightarrow> (row_label \<Rightarrow> bool) \<Rightarrow> db \<Rightarrow> db \<Rightarrow> bool" where
  "table_moves now L s s' \<longleftrightarrow>
     db_events s' = db_events s \<and> list_all2 (row_moves now L) (db_outbox s) (db_outbox s')"

text \<open>What no step changes.\<close>

definition row_frame :: "outbox_row \<Rightarrow> uuid \<times> uuid \<times> string \<times> string \<times> time" where
  "row_frame r = (or_id r, or_event_id r, or_event_type r, or_payload r, or_created_at r)"

lemma row_step_frame: "row_step now l r r' \<Longrightarrow> row_frame r' = row_frame r"
  by (auto simp: row_frame_def row_writers elim: row_stepE)

lemma row_step_attempts:
  "row_step now l r r' \<Longrightarrow>
   or_attempts r' = or_attempts r + (case l of Failed _ _ \<Rightarrow> 1 | _ \<Rightarrow> 0)"
  by (auto simp: row_writers elim: row_stepE)

lemma row_moves_refl [simp]: "row_moves now L r r"
  by (simp add: row_moves_def)

lemma row_moves_frame: "row_moves now L r r' \<Longrightarrow> row_frame r' = row_frame r"
  by (auto simp: row_moves_def dest: row_step_frame)

lemma table_moves_refl [simp]: "table_moves now L s s"
  by (simp add: table_moves_def list_all2_refl)

lemma table_moves_frame:
  assumes "table_moves now L s s'"
  shows "map row_frame (db_outbox s') = map row_frame (db_outbox s)"
proof -
  have "list_all2 (row_moves now L) (db_outbox s) (db_outbox s')"
    using assms by (simp add: table_moves_def)
  then show ?thesis
    by (induction rule: list_all2_induct) (auto dest: row_moves_frame)
qed

lemma table_moves_ids:
  assumes "table_moves now L s s'"
  shows "map or_id (db_outbox s') = map or_id (db_outbox s)"
    and "map or_event_id (db_outbox s') = map or_event_id (db_outbox s)"
proof -
  have "map (fst \<circ> row_frame) (db_outbox s') = map (fst \<circ> row_frame) (db_outbox s)"
    and "map (fst \<circ> snd \<circ> row_frame) (db_outbox s') = map (fst \<circ> snd \<circ> row_frame) (db_outbox s)"
    using table_moves_frame [OF assms] unfolding map_map [symmetric] by simp_all
  then show "map or_id (db_outbox s') = map or_id (db_outbox s)"
    and "map or_event_id (db_outbox s') = map or_event_id (db_outbox s)"
    by (simp_all add: row_frame_def comp_def)
qed

lemma table_moves_wf:
  assumes "table_moves now L s s'"
  shows "wf_db s' = wf_db s" and "paired s' = paired s"
proof -
  have e: "db_events s' = db_events s" using assms by (simp add: table_moves_def)
  have "set (map or_event_id (db_outbox s')) = set (map or_event_id (db_outbox s))"
    using table_moves_ids [OF assms] by simp
  then have "or_event_id ` set (db_outbox s') = or_event_id ` set (db_outbox s)" by simp
  then show "wf_db s' = wf_db s" and "paired s' = paired s"
    using table_moves_ids [OF assms] e by (simp_all add: wf_db_def paired_def)
qed

text \<open>Where the row of an identifier goes.\<close>

definition outbox_row_of :: "uuid \<Rightarrow> db \<Rightarrow> outbox_row option" where
  "outbox_row_of i s = row_of or_id i (db_outbox s)"

lemma table_moves_row:
  assumes "table_moves now L s s'"
  shows "rel_option (row_moves now L) (outbox_row_of i s) (outbox_row_of i s')"
proof -
  have "list_all2 (row_moves now L) (db_outbox s) (db_outbox s')"
    using assms by (simp add: table_moves_def)
  then show ?thesis unfolding outbox_row_of_def
  proof (induction rule: list_all2_induct)
    case (Cons r rs r' rs')
    then have "or_id r' = or_id r" by (auto simp: row_frame_def dest: row_moves_frame)
    with Cons show ?case by simp
  qed simp
qed

lemma update_outbox_moves:
  assumes "\<And>r. r \<in> set (db_outbox s) \<Longrightarrow> p r \<Longrightarrow> \<exists>l. L l \<and> row_step now l r (f r)"
  shows "table_moves now L s (update_outbox p f s)"
  using assms
  by (auto simp: table_moves_def update_outbox_def update_where_def list_all2_map2 row_moves_def
      intro!: list.rel_refl_strong)

lemma outbox_row_of_update:
  "(\<And>r. or_id (f r) = or_id r) \<Longrightarrow>
   outbox_row_of i (update_outbox p f s) =
   map_option (\<lambda>r. if p r then f r else r) (outbox_row_of i s)"
  by (simp add: outbox_row_of_def update_outbox_def row_of_update_where)

lemma or_id_writers [simp]:
  "or_id (set_processing now r) = or_id r" "or_id (set_reclaimed now r) = or_id r"
  "or_id (set_published now r) = or_id r" "or_id (set_failed msg t r) = or_id r"
  "or_id (set_closed msg r) = or_id r"
  by (simp_all add: row_writers)

section \<open>The operations implement the row steps\<close>

definition claimed_event :: "outbox_row \<Rightarrow> outbox_event" where
  "claimed_event r = (scan_row r)\<lparr>oe_status := ''PROCESSING''\<rparr>"

lemma claimed_event_simps [simp]:
  "oe_id (claimed_event r) = or_id r" "oe_attempts (claimed_event r) = or_attempts r"
  "oe_event_id (claimed_event r) = or_event_id r" "oe_payload (claimed_event r) = or_payload r"
  "oe_event_type (claimed_event r) = or_event_type r"
  by (simp_all add: claimed_event_def scan_row_def)

lemma set_select_pending:
  "r \<in> set (select_pending c n rows) \<Longrightarrow> r \<in> set rows \<and> eligible c r"
  using set_first_by unfolding select_pending_def by fastforce

lemma select_by_id:
  assumes "wf_db s" and "r \<in> set (db_outbox s)"
  shows "or_id r \<in> or_id ` set (select_pending c n (db_outbox s)) \<longleftrightarrow>
    r \<in> set (select_pending c n (db_outbox s))"
proof
  assume "or_id r \<in> or_id ` set (select_pending c n (db_outbox s))"
  then obtain q where q: "q \<in> set (select_pending c n (db_outbox s))" "or_id q = or_id r" by auto
  then have "q \<in> set (db_outbox s)" by (auto dest: set_select_pending)
  with assms q have "q = r" by (auto simp: wf_db_def dest: distinct_key_eq)
  with q show "r \<in> set (select_pending c n (db_outbox s))" by simp
qed simp

lemma claim_update_eq:
  assumes "wf_db s"
  shows "update_outbox (\<lambda>r. or_id r \<in> set (map oe_id (map scan_row (select_pending c n (db_outbox s))))) f s
    = update_outbox (\<lambda>r. r \<in> set (select_pending c n (db_outbox s))) f s"
proof -
  let ?sel = "select_pending c n (db_outbox s)"
  have ids: "map oe_id (map scan_row ?sel) = map or_id ?sel"
    by (simp add: scan_row_def)
  have "update_where (\<lambda>r. or_id r \<in> or_id ` set ?sel) f (db_outbox s) =
      update_where (\<lambda>r. r \<in> set ?sel) f (db_outbox s)"
    by (rule update_where_cong) (rule select_by_id [OF assms])
  then show ?thesis unfolding update_outbox_def ids by simp
qed

text \<open>The result of a claim, in terms of the rows selected.\<close>

lemma ClaimPending_cases:
  assumes "wf_db s" and "ClaimPending c n s = (res, s')"
  defines "sel \<equiv> select_pending c n (db_outbox s)"
  defines "t \<equiv> update_outbox (\<lambda>r. r \<in> set sel) (set_processing (dc_now c)) s"
  shows "(\<exists>e. res = Inl e \<and> (s' = s \<or> s' = t \<and> dc_end c \<noteq> Done))
    \<or> (res = Inr (map claimed_event sel) \<and> s' = t)"
proof (cases "sel = []")
  case True
  then have "t = s"
    by (simp add: t_def update_outbox_def update_where_def)
  with True assms(2) show ?thesis unfolding sel_def
    by (cases "dc_end c")
      (auto simp: ClaimPending_def Let_def split: option.splits if_splits prod.splits)
next
  case False
  with assms(2) claim_update_eq [OF assms(1), of c n "set_processing (dc_now c)"] show ?thesis
    unfolding t_def sel_def
    by (cases "dc_end c")
      (auto simp: ClaimPending_def Let_def claimed_event_def comp_def
        split: option.splits if_splits prod.splits)
qed

lemma claim_moves:
  "table_moves (dc_now c) (\<lambda>l. l = Claimed) s
     (update_outbox (\<lambda>r. r \<in> set (select_pending c n (db_outbox s))) (set_processing (dc_now c)) s)"
  by (rule update_outbox_moves)
    (auto simp: eligible_def dest!: set_select_pending intro: row_step_code(1))

lemma ClaimPending_moves:
  assumes "wf_db s" and "ClaimPending c n s = (res, s')"
  shows "table_moves (dc_now c) (\<lambda>l. l = Claimed) s s'"
  using ClaimPending_cases [OF assms] claim_moves by auto

text \<open>A smooth claim succeeds for every limit that is not negative.\<close>

lemma ClaimPending_smooth:
  assumes "wf_db s" and "smooth_call c" and "0 \<le> n"
  shows "ClaimPending c n s = (Inr (map claimed_event (select_pending c n (db_outbox s))),
    update_outbox (\<lambda>r. r \<in> set (select_pending c n (db_outbox s))) (set_processing (dc_now c)) s)"
proof -
  have "\<exists>evs s'. ClaimPending c n s = (Inr evs, s')"
    using assms(2,3) by (auto simp: ClaimPending_def Let_def)
  then obtain evs s' where r: "ClaimPending c n s = (Inr evs, s')" by blast
  with ClaimPending_cases [OF assms(1) r] show ?thesis by simp
qed

lemma exec_update_cases:
  assumes "exec_update c p f s = (res, s')"
  obtains (lost) e where "res = Inl e" and "s' = s"
  | (ack_lost) e where "res = Inl e" and "s' = update_outbox p f s" and "dc_end c = AckLost e"
  | (committed) "res = Inr (affected p (db_outbox s))" and "s' = update_outbox p f s"
      and "dc_end c = Done"
  using assms by (cases "dc_end c") (auto simp: exec_update_def)

lemma exec_update_moves:
  assumes "exec_update c p f s = (res, s')"
    and "\<And>r. r \<in> set (db_outbox s) \<Longrightarrow> p r \<Longrightarrow> \<exists>l. L l \<and> row_step now l r (f r)"
  shows "table_moves now L s s'"
  using assms(1) by (rule exec_update_cases) (auto intro: update_outbox_moves [OF assms(2)])

lemma ReclaimStale_moves:
  assumes "ReclaimStale c d s = (res, s')"
  shows "table_moves (dc_now c) (\<lambda>l. l = Reclaimed) s s'"
proof -
  obtain r where "exec_update c (stale c d) (set_reclaimed (dc_now c)) s = (r, s')"
    using assms by (auto simp: ReclaimStale_def split: prod.splits sum.splits)
  then show ?thesis
    by (rule exec_update_moves) (auto simp: stale_def intro: row_step_code(2))
qed

lemma MarkPublished_moves:
  assumes "MarkPublished x c i s = (res, s')"
  shows "table_moves (dc_now c) (\<lambda>l. l = Published) s s'"
proof -
  obtain r where "exec_update c (\<lambda>r. or_id r = i) (set_published (dc_now c)) s = (r, s')"
    using assms by (auto simp: MarkPublished_def split: prod.splits sum.splits if_splits)
  then show ?thesis by (rule exec_update_moves) (auto intro: row_step_code(3))
qed

lemma MarkFailed_moves:
  assumes "MarkFailed x c i msg t s = (res, s')"
  shows "table_moves now (\<lambda>l. l = Failed msg t) s s'"
proof (cases "list_ex (\<lambda>r. (or_id r = i \<and> or_status r = PROCESSING) \<and> int4_max \<le> or_attempts r)
    (db_outbox s)")
  case True
  with assms show ?thesis by (simp add: MarkFailed_def)
next
  case False
  with assms obtain r where
    "exec_update c (\<lambda>r. or_id r = i \<and> or_status r = PROCESSING) (set_failed msg t) s = (r, s')"
    by (auto simp: MarkFailed_def Let_def split: prod.splits sum.splits if_splits)
  then show ?thesis
    by (rule exec_update_moves) (use False in \<open>force simp: list_ex_iff intro: row_step_code(4)\<close>)
qed

lemma MarkClose_moves:
  assumes "MarkClose x c i msg s = (res, s')"
  shows "table_moves now (\<lambda>l. l = Closed msg) s s'"
proof -
  obtain r where
    "exec_update c (\<lambda>r. or_id r = i \<and> or_status r = PROCESSING) (set_closed msg) s = (r, s')"
    using assms by (auto simp: MarkClose_def split: prod.splits sum.splits if_splits)
  then show ?thesis by (rule exec_update_moves) (auto intro: row_step_code(5))
qed

lemmas outbox_moves = ClaimPending_moves ReclaimStale_moves MarkPublished_moves
  MarkFailed_moves MarkClose_moves

section \<open>What a mark answers and does\<close>

lemma affected_outbox_iff:
  "affected p (db_outbox s) = 0 \<longleftrightarrow> (\<forall>r \<in> set (db_outbox s). \<not> p r)"
  by (rule affected_zero_iff)

text \<open>A mark that answers nil has met its row in the state it asks for, and moved it.\<close>

lemma MarkPublished_nil:
  assumes "wf_db s" and "MarkPublished x c i s = (None, s')"
  shows "\<exists>r. outbox_row_of i s = Some r \<and> outbox_row_of i s' = Some (set_published (dc_now c) r)"
proof -
  have s': "s' = update_outbox (\<lambda>r. or_id r = i) (set_published (dc_now c)) s"
    and "affected (\<lambda>r. or_id r = i) (db_outbox s) \<noteq> 0"
    using assms(2)
    by (auto simp: MarkPublished_def exec_update_def split: prod.splits sum.splits if_splits option.splits)
  then obtain r where "r \<in> set (db_outbox s)" "or_id r = i" by (auto simp: affected_outbox_iff)
  then have "outbox_row_of i s = Some r"
    using assms(1) by (simp add: outbox_row_of_def wf_db_def row_of_Some_iff)
  with s' \<open>or_id r = i\<close> show ?thesis by (simp add: outbox_row_of_update)
qed

lemma MarkPublished_done:
  assumes "wf_db s" and "dc_end c = Done" and "outbox_row_of i s = Some r"
  shows "MarkPublished x c i s =
    (None, update_outbox (\<lambda>r. or_id r = i) (set_published (dc_now c)) s)"
proof -
  have "r \<in> set (db_outbox s)" "or_id r = i"
    using assms(3) by (auto simp: outbox_row_of_def dest: row_of_SomeD)
  then have "affected (\<lambda>r. or_id r = i) (db_outbox s) \<noteq> 0" by (auto simp: affected_outbox_iff)
  then show ?thesis using assms(2) by (simp add: MarkPublished_def exec_update_def)
qed

section \<open>Properties\<close>

text \<open>C22: every operation of the outbox repository moves each row of the table by at most one
  step of the row's life, with the label of the operation, and touches nothing else: a claim
  takes a due PENDING row to PROCESSING, a reclaim takes PROCESSING back to PENDING, a failure
  and a closing need PROCESSING, and only publishing has no guard.  This holds on every path,
  lost commits and lost acknowledgements included.\<close>

theorem repository_refines_row_life:
  assumes "wf_db s"
  shows "table_moves (dc_now c) (\<lambda>l. l = Claimed) s (snd (ClaimPending c limit s)) \<and>
    table_moves (dc_now c) (\<lambda>l. l = Reclaimed) s (snd (ReclaimStale c d s)) \<and>
    table_moves (dc_now c) (\<lambda>l. l = Published) s (snd (MarkPublished x c i s)) \<and>
    table_moves (dc_now c) (\<lambda>l. l = Failed msg t) s (snd (MarkFailed x c i msg t s)) \<and>
    table_moves (dc_now c) (\<lambda>l. l = Closed msg) s (snd (MarkClose x c i msg s))"
  by (intro conjI outbox_moves(2-) [OF surjective_pairing]
      ClaimPending_moves [OF assms surjective_pairing])

definition example_row :: "uuid \<Rightarrow> time \<Rightarrow> outbox_status \<Rightarrow> outbox_row" where
  "example_row i t st =
     \<lparr>or_id = i, or_event_id = i, or_event_type = ''search'', or_payload = ''{}'', or_status = st,
      or_attempts = 0, or_available_at = t, or_created_at = t, or_published_at = None,
      or_last_error = None,
      or_processing_at = (if st = PROCESSING then Some t else None)\<rparr>"

definition example_event :: "uuid \<Rightarrow> event" where
  "example_event i =
     \<lparr>ev_id = i, ev_event_id = i, ev_type = ''search'', ev_version = 1, ev_source = ''web'',
      ev_user_id = [], ev_anonymous_id = [], ev_session_id = [], ev_timestamp = 1,
      ev_properties = Some [], ev_created_at = 0\<rparr>"

definition example_db :: "(uuid \<times> time \<times> outbox_status) list \<Rightarrow> db" where
  "example_db rows =
     \<lparr>db_events = map (example_event \<circ> fst) rows,
      db_outbox = map (\<lambda>(i, t, st). example_row i t st) rows\<rparr>"

lemmas example_defs = example_db_def example_row_def example_event_def wf_db_def

theorem repository_refines_row_life_witness:
  "let s = example_db [(1, 10, PENDING), (2, 5, PROCESSING)]; c = quiet_call 20 in
    table_moves (dc_now c) (\<lambda>l. l = Claimed) s (snd (ClaimPending c 4 s)) \<and>
    table_moves (dc_now c) (\<lambda>l. l = Reclaimed) s (snd (ReclaimStale c 3 s)) \<and>
    table_moves (dc_now c) (\<lambda>l. l = Published) s
      (snd (MarkPublished undefined c 1 s)) \<and>
    table_moves (dc_now c) (\<lambda>l. l = Failed ''e'' 30) s (snd (MarkFailed undefined c 1 ''e'' 30 s)) \<and>
    table_moves (dc_now c) (\<lambda>l. l = Closed ''e'') s (snd (MarkClose undefined c 1 ''e'' s))"
  unfolding Let_def by (rule repository_refines_row_life) (simp add: example_defs)

lemma claim_takes_eligible:
  assumes "wf_db s" and "smooth_call c" and "0 \<le> limit"
  shows "\<exists>rows. ClaimPending c limit s =
      (Inr (map claimed_event rows),
       update_outbox (\<lambda>r. r \<in> set rows) (set_processing (dc_now c)) s)
    \<and> sorted (map or_created_at rows) \<and> distinct (map or_id rows)
    \<and> length rows = min (nat limit) (length (filter (eligible c) (db_outbox s)))
    \<and> (\<forall>r \<in> set rows. r \<in> set (db_outbox s) \<and> eligible c r \<and>
        (\<forall>q \<in> set (db_outbox s) - set rows. eligible c q \<longrightarrow> or_created_at r \<le> or_created_at q))"
proof (intro exI conjI ballI impI)
  let ?rows = "select_pending c limit (db_outbox s)"
  show "ClaimPending c limit s = (Inr (map claimed_event ?rows),
      update_outbox (\<lambda>r. r \<in> set ?rows) (set_processing (dc_now c)) s)"
    by (rule ClaimPending_smooth [OF assms])
  show "sorted (map or_created_at ?rows)" and
    "length ?rows = min (nat limit) (length (filter (eligible c) (db_outbox s)))"
    by (simp_all add: select_pending_def sorted_first_by length_first_by)
  show "distinct (map or_id ?rows)"
    using assms(1) unfolding select_pending_def
    by (intro distinct_first_by) (auto simp: wf_db_def distinct_map_filter)
  fix r assume r: "r \<in> set ?rows"
  then show "r \<in> set (db_outbox s)" and "eligible c r"
    by (auto dest: set_select_pending)
  fix q assume "q \<in> set (db_outbox s) - set ?rows" and "eligible c q"
  then show "or_created_at r \<le> or_created_at q"
    using r unfolding select_pending_def by (intro first_by_smallest) auto
qed

text \<open>C23: a claim that meets no database error returns the due PENDING rows that no other
  transaction has locked, oldest first and at most \<open>limit\<close> of them; no due row it leaves
  behind is older than one it takes, and it stops short of the limit only when no due row is
  left; exactly the returned rows become PROCESSING, stamped with the claim's time.\<close>

theorem claim_takes_oldest_due:
  assumes "wf_db s" and "smooth_call c" and "0 \<le> limit"
  shows "let due = (\<lambda>r. or_status r = PENDING \<and> or_available_at r \<le> dc_now c \<and> or_id r \<notin> set (dc_locked c)) in
   \<exists>rows. ClaimPending c limit s =
      (Inr (map claimed_event rows), s\<lparr>db_outbox := map (\<lambda>r. if r \<in> set rows
         then r\<lparr>or_status := PROCESSING, or_processing_at := Some (dc_now c)\<rparr> else r) (db_outbox s)\<rparr>)
    \<and> sorted (map or_created_at rows) \<and> distinct (map or_id rows)
    \<and> length rows = min (nat limit) (length (filter due (db_outbox s)))
    \<and> (\<forall>r \<in> set rows. r \<in> set (db_outbox s) \<and> due r \<and>
        (\<forall>q \<in> set (db_outbox s) - set rows. due q \<longrightarrow> or_created_at r \<le> or_created_at q))"
  using claim_takes_eligible [OF assms]
  unfolding Let_def update_outbox_def update_where_def set_processing_def eligible_def .

theorem claim_takes_oldest_due_witness:
  "let s = example_db [(1, 10, PENDING), (2, 5, PROCESSING), (3, 4, PENDING), (4, 50, PENDING)];
       c = quiet_call 20; limit = 1;
       due = (\<lambda>r. or_status r = PENDING \<and> or_available_at r \<le> dc_now c \<and> or_id r \<notin> set (dc_locked c)) in
   \<exists>rows. ClaimPending c limit s =
      (Inr (map claimed_event rows), s\<lparr>db_outbox := map (\<lambda>r. if r \<in> set rows
         then r\<lparr>or_status := PROCESSING, or_processing_at := Some (dc_now c)\<rparr> else r) (db_outbox s)\<rparr>)
    \<and> sorted (map or_created_at rows) \<and> distinct (map or_id rows)
    \<and> length rows = min (nat limit) (length (filter due (db_outbox s)))
    \<and> (\<forall>r \<in> set rows. r \<in> set (db_outbox s) \<and> due r \<and>
        (\<forall>q \<in> set (db_outbox s) - set rows. due q \<longrightarrow> or_created_at r \<le> or_created_at q))"
  using claim_takes_oldest_due [of "example_db [(1, 10, PENDING), (2, 5, PROCESSING), (3, 4, PENDING), (4, 50, PENDING)]"
    "quiet_call 20" 1] by (simp add: example_defs Let_def)

text \<open>A reclaim that meets no database error takes back exactly the rows that are PROCESSING
  with no claim time or a claim older than the stale timeout, and that no other transaction has
  locked: they become PENDING and due at once with their attempts unchanged; every other row
  stays as it is, and the answer is the number of rows taken back.\<close>

lemma reclaim_exactly_stale:
  assumes "dc_end c = Done"
  shows "\<exists>s'. ReclaimStale c d s = (Inr (int (length (filter (stale c d) (db_outbox s)))), s')
    \<and> db_events s' = db_events s
    \<and> db_outbox s' = map (\<lambda>r.
        if or_status r = PROCESSING
           \<and> (or_processing_at r = None \<or> the (or_processing_at r) \<le> dc_now c - d)
           \<and> or_id r \<notin> set (dc_locked c)
        then r\<lparr>or_status := PENDING, or_available_at := dc_now c, or_processing_at := None\<rparr>
        else r) (db_outbox s)"
  using assms
  by (auto simp: ReclaimStale_def exec_update_def update_outbox_def update_where_def affected_def
      stale_def set_reclaimed_def split: option.splits)

lemma exec_update_done:
  "dc_end c = Done \<Longrightarrow> exec_update c p f s = (Inr (affected p (db_outbox s)), update_outbox p f s)"
  by (simp add: exec_update_def)

lemma update_outbox_none:
  "affected p (db_outbox s) = 0 \<Longrightarrow> update_outbox p f s = s"
  by (simp add: update_outbox_def affected_zero_iff update_where_none)

text \<open>With unique identifiers a guarded update of one row is the unguarded one where the guard
  holds, and nothing where it does not.\<close>

lemma update_outbox_guard:
  assumes "wf_db s" and "outbox_row_of i s = Some r" and "q r"
  shows "update_outbox (\<lambda>r. or_id r = i \<and> q r) f s = update_outbox (\<lambda>r. or_id r = i) f s"
proof -
  have "q r'" if "r' \<in> set (db_outbox s)" "or_id r' = i" for r'
  proof -
    have "r' = r" using assms(1,2) that by (auto simp: outbox_row_of_def wf_db_def row_of_Some_iff dest: distinct_key_eq)
    then show ?thesis using assms(3) by simp
  qed
  then have "update_where (\<lambda>r. or_id r = i \<and> q r) f (db_outbox s) =
      update_where (\<lambda>r. or_id r = i) f (db_outbox s)"
    by (intro update_where_cong) auto
  then show ?thesis by (simp add: update_outbox_def)
qed

lemma affected_id_iff:
  assumes "wf_db s"
  shows "affected (\<lambda>r. or_id r = i \<and> q r) (db_outbox s) = 0 \<longleftrightarrow>
    \<not> (\<exists>r. outbox_row_of i s = Some r \<and> q r)"
  using assms by (auto simp: affected_zero_iff outbox_row_of_def wf_db_def row_of_Some_iff)

lemma MarkPublished_answer:
  assumes "wf_db s" and "dc_end c = Done"
  shows "(fst (MarkPublished x c i s) = None) = (\<exists>r. outbox_row_of i s = Some r)"
    and "snd (MarkPublished x c i s) =
      (if \<exists>r. outbox_row_of i s = Some r
       then update_outbox (\<lambda>r. or_id r = i) (set_published (dc_now c)) s else s)"
  using assms affected_id_iff [OF assms(1), of i "\<lambda>_. True"]
  by (auto simp: MarkPublished_def exec_update_done update_outbox_none)

lemma MarkClose_answer:
  assumes "wf_db s" and "dc_end c = Done"
  shows "(fst (MarkClose x c i msg s) = None) =
      (\<exists>r. outbox_row_of i s = Some r \<and> or_status r = PROCESSING)"
    and "snd (MarkClose x c i msg s) =
      (if \<exists>r. outbox_row_of i s = Some r \<and> or_status r = PROCESSING
       then update_outbox (\<lambda>r. or_id r = i) (set_closed msg) s else s)"
  using assms affected_id_iff [OF assms(1), of i "\<lambda>r. or_status r = PROCESSING"]
  by (auto simp: MarkClose_def exec_update_done update_outbox_none
      update_outbox_guard [where q = "\<lambda>r. or_status r = PROCESSING"])

lemma MarkFailed_answer:
  assumes "wf_db s" and "dc_end c = Done"
  shows "(fst (MarkFailed x c i msg t s) = None) =
      (\<exists>r. outbox_row_of i s = Some r \<and> or_status r = PROCESSING \<and> or_attempts r < int4_max)"
    and "snd (MarkFailed x c i msg t s) =
      (if \<exists>r. outbox_row_of i s = Some r \<and> or_status r = PROCESSING \<and> or_attempts r < int4_max
       then update_outbox (\<lambda>r. or_id r = i) (set_failed msg t) s else s)"
proof -
  have ex: "list_ex (\<lambda>r. (or_id r = i \<and> or_status r = PROCESSING) \<and> int4_max \<le> or_attempts r) (db_outbox s)
      \<longleftrightarrow> (\<exists>r. outbox_row_of i s = Some r \<and> or_status r = PROCESSING \<and> int4_max \<le> or_attempts r)"
    using assms(1) by (auto simp: list_ex_iff outbox_row_of_def wf_db_def row_of_Some_iff)
  show "(fst (MarkFailed x c i msg t s) = None) =
      (\<exists>r. outbox_row_of i s = Some r \<and> or_status r = PROCESSING \<and> or_attempts r < int4_max)"
    and "snd (MarkFailed x c i msg t s) =
      (if \<exists>r. outbox_row_of i s = Some r \<and> or_status r = PROCESSING \<and> or_attempts r < int4_max
       then update_outbox (\<lambda>r. or_id r = i) (set_failed msg t) s else s)"
    using assms affected_id_iff [OF assms(1), of i "\<lambda>r. or_status r = PROCESSING"] ex
    by (auto simp: MarkFailed_def Let_def exec_update_done update_outbox_none
        update_outbox_guard [where q = "\<lambda>r. or_status r = PROCESSING"])
qed

text \<open>C24: what the marks answer and do when the database answers.  Marking a row failed or
  closed is answered with nil exactly when the row is PROCESSING (and its attempts counter has
  room), and then moves that row alone; otherwise the caller gets an error and nothing changes.
  Marking a row published needs only that the row exists: a CLOSE or PENDING row becomes
  PUBLISHED as well.\<close>

theorem marks_guarded:
  assumes "wf_db s" and "dc_end c = Done"
  shows "(fst (MarkFailed x c i msg t s) = None) =
      (\<exists>r. outbox_row_of i s = Some r \<and> or_status r = PROCESSING \<and> or_attempts r < 2147483647) \<and>
    (fst (MarkClose x c i msg s) = None) =
      (\<exists>r. outbox_row_of i s = Some r \<and> or_status r = PROCESSING) \<and>
    (fst (MarkPublished x c i s) = None) = (\<exists>r. outbox_row_of i s = Some r) \<and>
    snd (MarkFailed x c i msg t s) =
      (if fst (MarkFailed x c i msg t s) = None
       then update_outbox (\<lambda>r. or_id r = i) (\<lambda>r. r\<lparr>or_status := PENDING, or_attempts := or_attempts r + 1,
         or_available_at := t, or_last_error := Some msg\<rparr>) s else s) \<and>
    snd (MarkClose x c i msg s) =
      (if fst (MarkClose x c i msg s) = None
       then update_outbox (\<lambda>r. or_id r = i) (\<lambda>r. r\<lparr>or_status := CLOSE, or_last_error := Some msg\<rparr>) s else s) \<and>
    snd (MarkPublished x c i s) =
      (if fst (MarkPublished x c i s) = None
       then update_outbox (\<lambda>r. or_id r = i) (\<lambda>r. r\<lparr>or_status := PUBLISHED, or_published_at := Some (dc_now c)\<rparr>) s else s)"
  unfolding row_writers_fun [symmetric]
  using assms MarkFailed_answer [OF assms, of x i msg t] MarkClose_answer [OF assms, of x i msg]
    MarkPublished_answer [OF assms, of x i]
  by (simp add: int4_max_def)

theorem marks_guarded_witness:
  "let s = example_db [(1, 95, PROCESSING), (2, 5, CLOSE)]; c = quiet_call 100;
       x = undefined; i = 2; msg = ''e''; t = 130 in
    (fst (MarkFailed x c i msg t s) = None) =
      (\<exists>r. outbox_row_of i s = Some r \<and> or_status r = PROCESSING \<and> or_attempts r < 2147483647) \<and>
    (fst (MarkClose x c i msg s) = None) =
      (\<exists>r. outbox_row_of i s = Some r \<and> or_status r = PROCESSING) \<and>
    (fst (MarkPublished x c i s) = None) = (\<exists>r. outbox_row_of i s = Some r) \<and>
    snd (MarkFailed x c i msg t s) =
      (if fst (MarkFailed x c i msg t s) = None
       then update_outbox (\<lambda>r. or_id r = i) (\<lambda>r. r\<lparr>or_status := PENDING, or_attempts := or_attempts r + 1,
         or_available_at := t, or_last_error := Some msg\<rparr>) s else s) \<and>
    snd (MarkClose x c i msg s) =
      (if fst (MarkClose x c i msg s) = None
       then update_outbox (\<lambda>r. or_id r = i) (\<lambda>r. r\<lparr>or_status := CLOSE, or_last_error := Some msg\<rparr>) s else s) \<and>
    snd (MarkPublished x c i s) =
      (if fst (MarkPublished x c i s) = None
       then update_outbox (\<lambda>r. or_id r = i) (\<lambda>r. r\<lparr>or_status := PUBLISHED, or_published_at := Some (dc_now c)\<rparr>) s else s)"
  unfolding Let_def by (rule marks_guarded) (simp_all add: example_defs)

end
