(* ===== verification/Publishers.thy ===== *)
theory Publishers
  imports Domain "HOL-Library.Sublist"
begin

text \<open>
  The publisher interface the worker sees (\<open>EventPublisher\<close> in
  internal/event/application/outbox_worker.go), its contract as a locale, and two of its
  implementations: \<open>LogPublisher\<close> of the same file and the failure injector of
  internal/event/application/failing_publisher.go.  A publisher is a state and a function
  that publishes one event; whether the context is canceled is part of how the state
  answers.
\<close>

section \<open>The contract\<close>

text \<open>\<open>delivered\<close> lists the events a publisher has acknowledged so far, by event
  identifier.  A nil answer means the event has been delivered; an acknowledgement is never
  taken back.\<close>

type_synonym 'p publisher = "'p \<Rightarrow> outbox_event \<Rightarrow> failure \<times> 'p"

locale event_publisher =
  fixes publish :: "'p publisher"
    and delivered :: "'p \<Rightarrow> uuid list"
  assumes publish_ack: "publish p ev = (None, p') \<Longrightarrow> oe_event_id ev \<in> set (delivered p')"
    and publish_mono: "publish p ev = (res, p') \<Longrightarrow> set (delivered p) \<subseteq> set (delivered p')"
begin

text \<open>Attempts one after the other; the answers are listed in order.\<close>

fun publish_all :: "'p \<Rightarrow> outbox_event list \<Rightarrow> failure list \<times> 'p" where
  "publish_all p [] = ([], p)"
| "publish_all p (ev # evs) =
     (let (res, p1) = publish p ev; (rs, p2) = publish_all p1 evs in (res # rs, p2))"

lemma publish_all_mono: "publish_all p evs = (rs, p') \<Longrightarrow> set (delivered p) \<subseteq> set (delivered p')"
proof (induction evs arbitrary: p rs)
  case (Cons ev evs)
  obtain res p1 where 1: "publish p ev = (res, p1)" by fastforce
  obtain rs1 where 2: "publish_all p1 evs = (rs1, p')"
    using Cons.prems 1 by (auto split: prod.splits)
  show ?case using publish_mono [OF 1] Cons.IH [OF 2] by blast
qed simp

lemma publish_all_acks:
  "publish_all p evs = (rs, p') \<Longrightarrow>
   length rs = length evs \<and>
   (\<forall>i < length evs. rs ! i = None \<longrightarrow> oe_event_id (evs ! i) \<in> set (delivered p'))"
proof (induction evs arbitrary: p rs)
  case (Cons ev evs)
  obtain res p1 where 1: "publish p ev = (res, p1)" by fastforce
  obtain rs1 where 2: "publish_all p1 evs = (rs1, p')" and rs: "rs = res # rs1"
    using Cons.prems 1 by (auto split: prod.splits)
  have "res = None \<Longrightarrow> oe_event_id ev \<in> set (delivered p')"
    using publish_ack publish_all_mono [OF 2] 1 by blast
  with Cons.IH [OF 2] rs show ?case by (auto simp: nth_Cons split: nat.splits)
qed simp

end

section \<open>LogPublisher\<close>

text \<open>Its effect is one log line with the event's identifier and type.\<close>

type_synonym log_publisher = "(uuid \<times> string) list"

definition NewLogPublisher :: log_publisher where
  "NewLogPublisher = []"

definition LogPublish :: "log_publisher publisher" where
  "LogPublish p ev = (None, p @ [(oe_event_id ev, oe_event_type ev)])"

interpretation log_pub: event_publisher LogPublish "map fst"
  by unfold_locales (auto simp: LogPublish_def)

section \<open>FailingPublisher\<close>

text \<open>The random source is the stream of the draws of \<open>rand.Float64()\<close>;
  \<open>fp_draws\<close> counts the draws made so far.  A Go map read at a missing key gives 0.\<close>

record 'p failing_publisher =
  fp_inner :: 'p
  fp_rate :: f64
  fp_max :: int
  fp_permanent :: "string list"
  fp_failures :: "uuid \<Rightarrow> int"
  fp_attempts :: int
  fp_injected :: int
  fp_draws :: nat

definition NewFailingPublisher :: "'p \<Rightarrow> f64 \<Rightarrow> int \<Rightarrow> string list \<Rightarrow> 'p failing_publisher" where
  "NewFailingPublisher inner rate maxFailuresPerEvent permanentTypes =
     \<lparr>fp_inner = inner, fp_rate = rate, fp_max = maxFailuresPerEvent,
      fp_permanent = permanentTypes, fp_failures = (\<lambda>_. 0), fp_attempts = 0, fp_injected = 0,
      fp_draws = 0\<rparr>"

definition permanent_error :: "outbox_event \<Rightarrow> gerror" where
  "permanent_error ev =
     ErrorString (''injected permanent failure for event type '' @ oe_event_type ev)"

definition transient_error :: "int \<Rightarrow> gerror" where
  "transient_error n = ErrorString (''injected transient failure (event failure '' @ itoa n @ '')'')"

definition injectFailure ::
  "(nat \<Rightarrow> rat) \<Rightarrow> outbox_event \<Rightarrow> 'p failing_publisher \<Rightarrow> failure \<times> 'p failing_publisher"
where
  "injectFailure rnd ev p0 =
     (let p = p0\<lparr>fp_attempts := fp_attempts p0 + 1\<rparr> in
      if oe_event_type ev \<in> set (fp_permanent p) then
        (Some (permanent_error ev), p\<lparr>fp_injected := fp_injected p + 1\<rparr>)
      else if f64_le (fp_rate p) (Finite 0) then (None, p)
      else if fp_max p > 0 \<and> fp_failures p (oe_id ev) \<ge> fp_max p then (None, p)
      else
        let u = rnd (fp_draws p); p = p\<lparr>fp_draws := fp_draws p + 1\<rparr> in
        if f64_le (fp_rate p) (Finite u) then (None, p)
        else
          let n = fp_failures p (oe_id ev) + 1 in
          (Some (transient_error n),
           p\<lparr>fp_failures := (fp_failures p)(oe_id ev := n), fp_injected := fp_injected p + 1\<rparr>))"

definition FailingPublish ::
  "(nat \<Rightarrow> rat) \<Rightarrow> 'p publisher \<Rightarrow> 'p failing_publisher publisher"
where
  "FailingPublish rnd publish p ev =
     (case injectFailure rnd ev p of
        (Some err, p1) \<Rightarrow> (Some err, p1)
      | (None, p1) \<Rightarrow>
          (case publish (fp_inner p1) ev of
             (res, inner) \<Rightarrow> (res, p1\<lparr>fp_inner := inner\<rparr>)))"

definition Attempts :: "'p failing_publisher \<Rightarrow> int" where
  "Attempts p = fp_attempts p"

definition InjectedFailures :: "'p failing_publisher \<Rightarrow> int" where
  "InjectedFailures p = fp_injected p"

text \<open>Every failure it injects is a plain error, never a context error.\<close>

lemma injected_plain [simp, err_simps]:
  "\<not> is_ctx_error (permanent_error ev)" "\<not> is_ctx_error (transient_error n)"
  by (simp_all add: permanent_error_def transient_error_def)

lemma injectFailure_frame:
  assumes "injectFailure rnd ev p = (res, p')"
  shows "fp_inner p' = fp_inner p" and "fp_rate p' = fp_rate p" and "fp_max p' = fp_max p"
    and "fp_permanent p' = fp_permanent p" and "fp_attempts p' = fp_attempts p + 1"
    and "fp_injected p' = fp_injected p + (if res = None then 0 else 1)"
    and "i \<noteq> oe_id ev \<Longrightarrow> fp_failures p' i = fp_failures p i"
  using assms by (auto simp: injectFailure_def Let_def split: if_splits)

lemma injectFailure_None_failures:
  "injectFailure rnd ev p = (None, p') \<Longrightarrow> fp_failures p' = fp_failures p"
  by (auto simp: injectFailure_def Let_def split: if_splits)

lemma injectFailure_transient:
  assumes "injectFailure rnd ev p = (Some err, p')" and "oe_event_type ev \<notin> set (fp_permanent p)"
  shows "fp_failures p' = (fp_failures p)(oe_id ev := fp_failures p (oe_id ev) + 1)"
    and "fp_max p \<le> 0 \<or> fp_failures p (oe_id ev) < fp_max p"
    and "\<not> f64_le (fp_rate p) (Finite 0)"
  using assms by (auto simp: injectFailure_def Let_def split: if_splits)

lemma injectFailure_permanent:
  "oe_event_type ev \<in> set (fp_permanent p) \<Longrightarrow>
   injectFailure rnd ev p =
     (Some (permanent_error ev),
      p\<lparr>fp_attempts := fp_attempts p + 1, fp_injected := fp_injected p + 1\<rparr>)"
  by (simp add: injectFailure_def Let_def)

text \<open>The bookkeeping invariant: no event is failed transiently more often than the cap.\<close>

definition within_cap :: "'p failing_publisher \<Rightarrow> bool" where
  "within_cap p \<longleftrightarrow>
     (\<forall>i. 0 \<le> fp_failures p i \<and> (0 < fp_max p \<longrightarrow> fp_failures p i \<le> fp_max p)) \<and>
     0 \<le> fp_injected p \<and> fp_injected p \<le> fp_attempts p"

lemma within_cap_new: "within_cap (NewFailingPublisher inner rate m types)"
  by (simp add: within_cap_def NewFailingPublisher_def)

lemma within_cap_inject:
  assumes "within_cap p" and "injectFailure rnd ev p = (res, p')"
  shows "within_cap p'"
proof (cases "res = None \<or> oe_event_type ev \<in> set (fp_permanent p)")
  case True
  then have "fp_failures p' = fp_failures p"
    using assms(2) injectFailure_None_failures [of rnd ev p p'] injectFailure_permanent [of ev p rnd]
    by auto
  with assms(1) injectFailure_frame [OF assms(2)] show ?thesis by (auto simp: within_cap_def)
next
  case False
  then obtain err where "injectFailure rnd ev p = (Some err, p')" using assms(2) by auto
  with False injectFailure_transient [OF this] assms(1) injectFailure_frame [OF assms(2)]
  show ?thesis by (auto simp: within_cap_def)
qed

lemma FailingPublish_inject:
  assumes "FailingPublish rnd publish p ev = (res, p')"
  obtains (injected) err where "injectFailure rnd ev p = (Some err, p')" and "res = Some err"
  | (passed) p1 inner where "injectFailure rnd ev p = (None, p1)"
      and "publish (fp_inner p) ev = (res, inner)" and "p' = p1\<lparr>fp_inner := inner\<rparr>"
proof (cases "injectFailure rnd ev p")
  case (Pair r p1)
  note inj = this
  show thesis
  proof (cases r)
    case None
    with inj injectFailure_frame(1) [OF inj] assms passed show thesis
      by (auto simp: FailingPublish_def split: prod.splits)
  qed (use inj assms injected in \<open>auto simp: FailingPublish_def\<close>)
qed

lemma within_cap_publish:
  assumes "within_cap p" and "FailingPublish rnd publish p ev = (res, p')"
  shows "within_cap p'"
  using assms(2)
proof (cases rule: FailingPublish_inject)
  case (passed p1 inner)
  with within_cap_inject [OF assms(1) passed(1)] show ?thesis by (simp add: within_cap_def)
qed (use within_cap_inject [OF assms(1)] in blast)

text \<open>Wrapping keeps the contract: what the injector lets through is what the inner
  publisher acknowledged.\<close>

locale wrapped_publisher = inner: event_publisher publish delivered
  for publish :: "'p publisher" and delivered :: "'p \<Rightarrow> uuid list" +
  fixes rnd :: "nat \<Rightarrow> rat"

sublocale wrapped_publisher \<subseteq> outer: event_publisher
  "FailingPublish rnd publish" "\<lambda>p. delivered (fp_inner p)"
proof unfold_locales
  fix p :: "'p failing_publisher" and ev res p'
  show "FailingPublish rnd publish p ev = (None, p') \<Longrightarrow>
      oe_event_id ev \<in> set (delivered (fp_inner p'))"
    by (erule FailingPublish_inject) (auto dest: inner.publish_ack)
  show "FailingPublish rnd publish p ev = (res, p') \<Longrightarrow>
      set (delivered (fp_inner p)) \<subseteq> set (delivered (fp_inner p'))"
    by (erule FailingPublish_inject)
      (auto dest: inner.publish_mono injectFailure_frame(1))
qed

interpretation failing_log: wrapped_publisher LogPublish "map fst" rnd for rnd
  by unfold_locales

section \<open>Runs of attempts\<close>

text \<open>A run of attempts, at any events in any order: the answers, and the state it ends in.  An inner
  publisher that is watched keeps the list of the attempts it was handed, with its answers.\<close>

fun attempt_run :: "'p publisher \<Rightarrow> outbox_event list \<Rightarrow> 'p \<Rightarrow> failure list \<times> 'p" where
  "attempt_run publish [] p = ([], p)"
| "attempt_run publish (ev # evs) p =
     (let (res, p1) = publish p ev; (rs, p2) = attempt_run publish evs p1 in (res # rs, p2))"

definition watched :: "'p publisher \<Rightarrow> ('p \<times> (outbox_event \<times> failure) list) publisher" where
  "watched publish = (\<lambda>(p, seen) ev. let (res, p') = publish p ev in (res, (p', seen @ [(ev, res)])))"

definition at_row :: "uuid \<Rightarrow> outbox_event list \<Rightarrow> int" where
  "at_row i evs = int (length (filter (\<lambda>ev. oe_id ev = i) evs))"

lemma at_row_simps [simp]:
  "at_row i [] = 0" "at_row i (ev # evs) = (if oe_id ev = i then 1 else 0) + at_row i evs"
  "at_row i (xs @ ys) = at_row i xs + at_row i ys"
  by (simp_all add: at_row_def)

lemma at_row_present: "0 < at_row i evs \<Longrightarrow> \<exists>ev \<in> set evs. oe_id ev = i"
  by (induction evs) (auto split: if_splits)

definition accepted :: "outbox_event \<times> failure \<Rightarrow> bool" where
  "accepted a \<longleftrightarrow> snd a = None"

lemma accepted_simp [simp]: "accepted (ev, res) \<longleftrightarrow> res = None"
  by (simp add: accepted_def)

text \<open>One attempt: either it was handed on, with the answer passed back, and no failure is counted; or
  it failed by injection, for a row with cap left, and one failure is counted for that row.\<close>

lemma watched_attempt:
  assumes "FailingPublish rnd (watched publish) p ev = (res, p1)" and "within_cap p" and "0 < fp_max p"
  obtains (handed) "snd (fp_inner p1) = snd (fp_inner p) @ [(ev, res)]" and "fp_failures p1 = fp_failures p"
  | (injected) "snd (fp_inner p1) = snd (fp_inner p)" and "res \<noteq> None"
      and "fp_failures p1 = (if oe_event_type ev \<in> set (fp_permanent p) then fp_failures p
        else (fp_failures p)(oe_id ev := fp_failures p (oe_id ev) + 1))"
  using assms(1)
proof (cases rule: FailingPublish_inject)
  case (injected err)
  show ?thesis
    by (rule that(2)) (use injected injectFailure_frame(1) [OF injected(1)] injectFailure_transient(1) [OF injected(1)]
      injectFailure_permanent [of ev p rnd] in \<open>auto split: if_splits\<close>)
next
  case (passed q inner)
  have "fp_failures q = fp_failures p" by (rule injectFailure_None_failures [OF passed(1)])
  then show ?thesis
    using that(1) passed(2,3) by (auto simp: watched_def Let_def split: prod.splits)
qed

lemma attempt_run_watched:
  assumes "attempt_run (FailingPublish rnd (watched publish)) evs p = (answers, p')" and "within_cap p"
    and "0 < fp_max p" and "\<And>ev. ev \<in> set evs \<Longrightarrow> oe_id ev = i \<Longrightarrow> oe_event_type ev \<notin> set (fp_permanent p)"
  shows "\<exists>new. snd (fp_inner p') = snd (fp_inner p) @ new \<and> subseq new (zip evs answers) \<and>
    filter accepted new = filter accepted (zip evs answers) \<and>
    at_row i evs \<le> fp_max p - fp_failures p i + at_row i (map fst new)"
  using assms
proof (induction evs arbitrary: p answers)
  case Nil
  then show ?case by (auto simp: within_cap_def)
next
  case (Cons ev evs)
  obtain res p1 where 1: "FailingPublish rnd (watched publish) p ev = (res, p1)" by fastforce
  obtain rs where 2: "attempt_run (FailingPublish rnd (watched publish)) evs p1 = (rs, p')" and a: "answers = res # rs"
    using Cons.prems(1) 1 by (auto split: prod.splits)
  have fr: "fp_max p1 = fp_max p" "fp_permanent p1 = fp_permanent p"
    using 1 by (cases rule: FailingPublish_inject; simp add: injectFailure_frame)+
  have "within_cap p1" by (rule within_cap_publish [OF Cons.prems(2) 1])
  from Cons.IH [OF 2 this] Cons.prems(3,4) fr obtain new where new: "snd (fp_inner p') = snd (fp_inner p1) @ new"
    "subseq new (zip evs rs)" "filter accepted new = filter accepted (zip evs rs)" "at_row i evs \<le> fp_max p - fp_failures p1 i + at_row i (map fst new)"
    by auto
  from 1 Cons.prems(2,3) show ?case
  proof (cases rule: watched_attempt)
    case handed
    then show ?thesis using new a by (intro exI [of _ "(ev, res) # new"]) auto
  next
    case injected
    have "fp_failures p1 i = fp_failures p i + (if oe_id ev = i then 1 else 0)"
      using injected(3) Cons.prems(4) [of ev] by auto
    then show ?thesis using new a injected(1,2) by (intro exI [of _ "new"]) auto
  qed
qed

section \<open>Properties\<close>

definition log_example :: outbox_event where
  "log_example =
     \<lparr>oe_id = 1, oe_event_id = 2, oe_event_type = ''search'', oe_payload = ''{}'',
      oe_status = ''PROCESSING'', oe_attempts = 0, oe_available_at = 0, oe_created_at = 0,
      oe_published_at = None, oe_last_error = None\<rparr>"

text \<open>C34: the failure cap keeps its promise.  Take any run of attempts at any events, one after the
  other or mixed in any way, from any state the injector can be in, over any inner publisher, which
  may fail as it likes; and let \<open>handed\<close> be what the inner publisher was handed, with its answers.
  The attempts in \<open>handed\<close> are attempts of the run, in their order, answered with the inner
  publisher's own answer; every attempt answered with nil is among them; and for a row whose events
  are not configured to fail permanently, at most as many attempts are missing as the cap leaves
  failures to that row.  So of any \<open>m + 1\<close> attempts at the row at least one reaches the inner
  publisher, whatever the failure rate, the random draws and the attempts in between.\<close>

theorem failure_cap_reaches_inner:
  assumes "0 < fp_max p" and "within_cap p" and "fp_inner p = (inner, [])"
    and "\<And>ev. ev \<in> set evs \<Longrightarrow> oe_id ev = i \<Longrightarrow> oe_event_type ev \<notin> set (fp_permanent p)"
    and "attempt_run (FailingPublish rnd (watched publish)) evs p = (answers, p')"
  shows "let handed = snd (fp_inner p') in
    subseq handed (zip evs answers) \<and> filter accepted handed = filter accepted (zip evs answers) \<and>
    at_row i evs \<le> fp_max p - fp_failures p i + at_row i (map fst handed) \<and>
    (fp_max p < at_row i evs \<longrightarrow> (\<exists>(ev, res) \<in> set handed. oe_id ev = i))"
proof -
  obtain new where new: "snd (fp_inner p') = new" "subseq new (zip evs answers)"
    "filter accepted new = filter accepted (zip evs answers)"
    "at_row i evs \<le> fp_max p - fp_failures p i + at_row i (map fst new)"
    using attempt_run_watched [OF assms(5,2,1,4)] assms(3) by auto
  have "0 \<le> fp_failures p i" using assms(2) by (simp add: within_cap_def)
  then have "\<exists>(ev, res) \<in> set new. oe_id ev = i" if "fp_max p < at_row i evs"
    using at_row_present [of i "map fst new"] that new(4) by force
  with new show ?thesis by (simp add: Let_def)
qed

text \<open>Two rows whose attempts alternate, at a rate that fails every attempt it may.\<close>

definition mixed_attempts :: "outbox_event list" where
  "mixed_attempts = (let other = log_example\<lparr>oe_id := 5\<rparr> in [log_example, other, log_example, other, log_example])"

theorem failure_cap_reaches_inner_witness:
  "\<exists>(ev, res) \<in> set (snd (fp_inner (snd (attempt_run (FailingPublish (\<lambda>_. 0) (watched LogPublish)) mixed_attempts
     (NewFailingPublisher ([], []) (Finite (9 / 10)) 2 [''poison'']))))). oe_id ev = 1"
proof -
  let ?p = "NewFailingPublisher ([] :: log_publisher, []) (Finite (9 / 10)) 2 [''poison'']"
  have p: "0 < fp_max ?p" "fp_inner ?p = ([], [])" "fp_max ?p < at_row 1 mixed_attempts"
    by (simp_all add: NewFailingPublisher_def mixed_attempts_def log_example_def Let_def)
  have plain: "oe_event_type ev \<notin> set (fp_permanent ?p)" if "ev \<in> set mixed_attempts" for ev
    using that by (auto simp: NewFailingPublisher_def mixed_attempts_def log_example_def Let_def)
  show ?thesis
    using failure_cap_reaches_inner [where rnd = "\<lambda>_. 0" and publish = LogPublish and i = 1 and evs = mixed_attempts,
      OF p(1) within_cap_new p(2) plain prod.collapse [symmetric]] p(3)
    unfolding Let_def by blast
qed

definition injects :: "(nat \<Rightarrow> rat) \<Rightarrow> 'p failing_publisher \<Rightarrow> outbox_event \<Rightarrow> bool" where
  "injects rnd p ev \<longleftrightarrow>
     oe_event_type ev \<in> set (fp_permanent p) \<or>
     \<not> f64_le (fp_rate p) (Finite 0) \<and>
     (fp_max p \<le> 0 \<or> fp_failures p (oe_id ev) < fp_max p) \<and>
     \<not> f64_le (fp_rate p) (Finite (rnd (fp_draws p)))"

text \<open>One attempt through the injector.  A configured event type always fails, with an error
  that names it and without reaching the inner publisher; otherwise a failure is injected
  exactly when the rate is not zero or below, the event has cap left, and the draw is below the
  rate; else the inner publisher's answer is passed on unchanged.  Attempts are counted always,
  injected failures exactly when one is injected, and the counters of other events never
  move.\<close>

lemma failing_publisher_attempt:
  "case FailingPublish rnd publish p ev of (res, p') \<Rightarrow>
     Attempts p' = Attempts p + 1 \<and>
     InjectedFailures p' = InjectedFailures p + (if injects rnd p ev then 1 else 0) \<and>
     (if injects rnd p ev
      then fp_inner p' = fp_inner p \<and>
        res = Some (if oe_event_type ev \<in> set (fp_permanent p) then permanent_error ev
                    else transient_error (fp_failures p (oe_id ev) + 1))
      else (res, fp_inner p') = publish (fp_inner p) ev) \<and>
     (\<forall>i. fp_failures p' i = fp_failures p i +
        (if i = oe_id ev \<and> injects rnd p ev \<and> oe_event_type ev \<notin> set (fp_permanent p)
         then 1 else 0))"
  by (auto simp: FailingPublish_def injectFailure_def Let_def injects_def Attempts_def
      InjectedFailures_def permanent_error_def transient_error_def split: prod.splits)

text \<open>A failure rate that is not a number makes every event fail for ever: no draw is at or
  above it, so without a cap each attempt is failed by injection.\<close>

lemma NaN_rate_always_fails:
  "fst (FailingPublish rnd publish (NewFailingPublisher inner NaN 0 types) ev) \<noteq> None"
  by (simp add: FailingPublish_def injectFailure_def NewFailingPublisher_def Let_def)

end
