(* ===== verification/Retry_Delay.thy ===== *)
theory Retry_Delay
  imports Prelude "HOL-Library.Word"
begin

text \<open>
  The retry backoff (internal/event/application/retry.go).  Durations are signed 64-bit
  words, as in Go, so that the doubling and the sum at the end are the machine operations;
  the lemmas show that they never wrap.  The random draw of \<open>rand.N(half)\<close> is
  \<open>seed mod half\<close> for an arbitrary \<open>seed\<close>, so every value in
  \<open>[0, half)\<close> is a possible draw.
\<close>

section \<open>The code\<close>

type_synonym duration = "64 word"

text \<open>Go's integer division by two truncates toward zero.\<close>

definition int_half :: "int \<Rightarrow> int" where
  "int_half x = (if x < 0 then - ((- x) div 2) else x div 2)"

definition dur_half :: "duration \<Rightarrow> duration" where
  "dur_half d = word_of_int (int_half (sint d))"

text \<open>The loop \<open>for i := 1; i < retry; i++\<close>: the first argument counts the
  iterations that are left.\<close>

fun delay_loop :: "nat \<Rightarrow> duration \<Rightarrow> duration \<Rightarrow> duration" where
  "delay_loop 0 delay maxDelay = delay"
| "delay_loop (Suc k) delay maxDelay =
     (if sint delay \<ge> sint (dur_half maxDelay) then maxDelay
      else delay_loop k (delay * 2) maxDelay)"

definition base_delay_for :: "int \<Rightarrow> duration \<Rightarrow> duration \<Rightarrow> duration" where
  "base_delay_for retry baseDelay maxDelay =
     (let delay = delay_loop (nat (retry - 1)) baseDelay maxDelay
      in if sint delay > sint maxDelay then maxDelay else delay)"

definition rand_N :: "nat \<Rightarrow> duration \<Rightarrow> duration" where
  "rand_N seed n = word_of_int (int seed mod sint n)"

definition RetryDelay :: "nat \<Rightarrow> int \<Rightarrow> duration \<Rightarrow> duration \<Rightarrow> duration" where
  "RetryDelay seed retry baseDelay maxDelay =
     (if retry \<le> 0 then baseDelay
      else if sint baseDelay \<le> 0 then 0
      else
        let delay = base_delay_for retry baseDelay maxDelay;
            half = dur_half delay
        in if sint half \<le> 0 then delay else half + rand_N seed half)"

section \<open>The 64-bit operations do not wrap\<close>

lemma sint64_bounds: "- (2 ^ 63) \<le> sint (d :: duration) \<and> sint (d :: duration) < 2 ^ 63"
  using sint_ge [of d] sint_lt [of d] by simp

lemma sint64_of_int:
  "- (2 ^ 63) \<le> i \<Longrightarrow> i < 2 ^ 63 \<Longrightarrow> sint (word_of_int i :: duration) = i"
  by (simp add: signed_take_bit_int_eq_self sint_sbintrunc')

lemma int_half_pos [simp]: "0 \<le> x \<Longrightarrow> int_half x = x div 2"
  by (simp add: int_half_def)

lemma int_half_bounds: "x \<le> 0 \<Longrightarrow> x \<le> int_half x \<and> int_half x \<le> 0"
  by (auto simp: int_half_def)

lemma sint_dur_half [simp]: "sint (dur_half d) = int_half (sint d)"
proof -
  have "- (2 ^ 63) \<le> int_half (sint d) \<and> int_half (sint d) < 2 ^ 63"
    using sint64_bounds [of d] by (auto simp: int_half_def)
  then show ?thesis by (simp add: dur_half_def sint64_of_int)
qed

text \<open>The guard of the loop keeps the doubling inside 64 bits.\<close>

lemma sint_double:
  fixes d maxDelay :: duration
  assumes "0 < sint d" and "sint d < int_half (sint maxDelay)"
  shows "sint (d * 2) = 2 * sint d"
proof -
  have "0 < int_half (sint maxDelay)" using assms by simp
  then have pos: "0 < sint maxDelay"
    using int_half_bounds [of "sint maxDelay"] by linarith
  with assms(2) have "2 * sint d < sint maxDelay" by simp
  with assms(1) sint64_bounds [of maxDelay]
  have "sint (word_of_int (2 * sint d) :: duration) = 2 * sint d"
    by (intro sint64_of_int) auto
  moreover have "d * 2 = word_of_int (2 * sint d)"
    by (simp add: mult.commute)
  ultimately show ?thesis by (simp only:)
qed

lemma sint_jitter:
  fixes half delay :: duration
  assumes "0 < sint half" and "2 * sint half \<le> sint delay"
  shows "sint (half + rand_N seed half) = sint half + int seed mod sint half"
proof -
  have r: "0 \<le> int seed mod sint half" "int seed mod sint half < sint half"
    using assms(1) by auto
  with assms sint64_bounds [of delay]
  have "sint (word_of_int (sint half + int seed mod sint half) :: duration) =
      sint half + int seed mod sint half"
    by (intro sint64_of_int) auto
  moreover have "half + rand_N seed half = word_of_int (sint half + int seed mod sint half)"
    by (simp add: rand_N_def)
  ultimately show ?thesis by simp
qed

section \<open>Reference: the capped exponential on unbounded integers\<close>

definition capped_backoff :: "nat \<Rightarrow> int \<Rightarrow> int \<Rightarrow> int" where
  "capped_backoff k b m = min (b * 2 ^ k) m"

text \<open>The early jump to the cap is one step too early exactly when some doubling hits
  \<open>maxDelay - 1\<close> for an odd \<open>maxDelay\<close>.\<close>

definition jumps_early :: "nat \<Rightarrow> int \<Rightarrow> int \<Rightarrow> bool" where
  "jumps_early k b m \<longleftrightarrow> odd m \<and> 0 < m \<and> (\<exists>j \<in> {1..k}. b * 2 ^ j = m - 1)"

lemma jumps_early_even [simp]: "even m \<Longrightarrow> \<not> jumps_early k b m"
  by (simp add: jumps_early_def)

lemma jumps_early_Suc:
  "jumps_early (Suc k) b m \<longleftrightarrow> odd m \<and> 0 < m \<and> b * 2 = m - 1 \<or> jumps_early k (b * 2) m"
proof -
  have r: "{1..Suc k} = insert 1 (Suc ` {1..k})"
    by (auto simp: image_iff)
  have "(\<exists>j \<in> {1..Suc k}. b * 2 ^ j = m - 1) \<longleftrightarrow>
      b * 2 = m - 1 \<or> (\<exists>j \<in> {1..k}. b * 2 * 2 ^ j = m - 1)"
    unfolding r by (simp add: mult.assoc del: image_Suc_atLeastAtMost)
  then show ?thesis by (auto simp: jumps_early_def)
qed

lemma delay_loop_spec:
  assumes "0 < sint d"
  shows "min (sint (delay_loop k d m)) (sint m) =
    (if jumps_early k (sint d) (sint m) then sint m else capped_backoff k (sint d) (sint m))"
  using assms
proof (induction k arbitrary: d)
  case 0
  then show ?case by (simp add: capped_backoff_def jumps_early_def)
next
  case (Suc k)
  let ?m = "sint m"
  show ?case
  proof (cases "sint d \<ge> int_half ?m")
    case True
    have *: "?m \<le> sint d * 2 \<or> odd ?m \<and> 0 < ?m \<and> sint d * 2 = ?m - 1"
    proof (cases "0 < ?m")
      case pos: True
      with True have "?m div 2 \<le> sint d" by simp
      then show ?thesis using pos by presburger
    qed (use Suc.prems in simp)
    have "sint d * 2 \<le> sint d * 2 ^ Suc k"
      using Suc.prems by simp
    then have "jumps_early (Suc k) (sint d) ?m \<or> ?m \<le> sint d * 2 ^ Suc k"
      using * by (auto simp: jumps_early_Suc)
    with True show ?thesis by (auto simp: capped_backoff_def)
  next
    case False
    with Suc.prems have d2: "sint (d * 2) = 2 * sint d"
      by (intro sint_double [of d m]) auto
    have "0 < ?m" using False Suc.prems int_half_bounds [of ?m] by linarith
    with False have "2 * sint d \<noteq> ?m - 1 \<or> even ?m" by auto
    with False d2 Suc.IH [of "d * 2"] Suc.prems show ?thesis
      by (auto simp: jumps_early_Suc capped_backoff_def ac_simps)
  qed
qed

lemma base_delay_for_spec:
  assumes "0 < sint b" and "0 < retry"
  shows "sint (base_delay_for retry b m) =
    (if jumps_early (nat (retry - 1)) (sint b) (sint m) then sint m
     else capped_backoff (nat (retry - 1)) (sint b) (sint m))"
proof -
  have "sint (base_delay_for retry b m) =
      min (sint (delay_loop (nat (retry - 1)) b m)) (sint m)"
    by (auto simp: base_delay_for_def Let_def)
  then show ?thesis using delay_loop_spec [OF assms(1)] by simp
qed

text \<open>The shape of the result: half of the delay plus a draw below that half.\<close>

lemma RetryDelay_spec:
  assumes "0 < sint b" and "0 < retry" and "d = sint (base_delay_for retry b m)"
  shows "sint (RetryDelay seed retry b m) =
    (if d < 2 then d else d div 2 + int seed mod (d div 2))"
proof (cases "d < 2")
  case True
  then have "int_half d \<le> 0" using int_half_bounds [of d] by (cases "d \<le> 0") auto
  with True assms show ?thesis by (simp add: RetryDelay_def Let_def)
next
  case False
  let ?w = "base_delay_for retry b m"
  have h: "sint (dur_half ?w) = d div 2" "0 < d div 2"
    using False assms(3) by auto
  have "sint (dur_half ?w + rand_N seed (dur_half ?w)) = d div 2 + int seed mod (d div 2)"
    using sint_jitter [of "dur_half ?w" ?w seed] h assms(3) by simp
  with False h assms(1,2) show ?thesis by (simp add: RetryDelay_def Let_def)
qed

lemma base_delay_for_pos:
  assumes "0 < sint b" and "0 < retry" and "0 < sint m"
  shows "0 < sint (base_delay_for retry b m) \<and> sint (base_delay_for retry b m) \<le> sint m"
  using assms by (auto simp: base_delay_for_spec capped_backoff_def)

lemma half_mod_bounds:
  fixes d :: int
  assumes "2 \<le> d"
  shows "d div 2 \<le> d div 2 + int seed mod (d div 2)"
    and "d div 2 + int seed mod (d div 2) < d"
proof -
  have "0 < d div 2" using assms by auto
  then have "0 \<le> int seed mod (d div 2)" "int seed mod (d div 2) < d div 2" by auto
  then show "d div 2 \<le> d div 2 + int seed mod (d div 2)"
    and "d div 2 + int seed mod (d div 2) < d" by auto
qed

section \<open>Properties\<close>

text \<open>C31: for a retry of at least one and positive durations the delay lies between half of the
  backoff and the backoff, where the backoff is the unbounded integer
  \<open>min (baseDelay * 2^(retry-1)) maxDelay\<close> (the jump to the cap can come one doubling
  early, and only for an odd maximal delay): the 64-bit loop never wraps around, whatever the
  retry number.\<close>

theorem RetryDelay_bounds:
  assumes "0 < retry" and "0 < sint baseDelay" and "0 < sint maxDelay"
  defines "backoff \<equiv> if jumps_early (nat (retry - 1)) (sint baseDelay) (sint maxDelay)
    then sint maxDelay else min (sint baseDelay * 2 ^ nat (retry - 1)) (sint maxDelay)"
  shows "backoff div 2 \<le> sint (RetryDelay seed retry baseDelay maxDelay) \<and>
    sint (RetryDelay seed retry baseDelay maxDelay) \<le> backoff \<and> backoff \<le> sint maxDelay"
proof -
  have d: "backoff = sint (base_delay_for retry baseDelay maxDelay)"
    using assms(1,2) by (simp add: backoff_def base_delay_for_spec capped_backoff_def)
  have pos: "0 < backoff" "backoff \<le> sint maxDelay"
    using base_delay_for_pos [OF assms(2,1,3)] d by simp_all
  show ?thesis
  proof (cases "backoff < 2")
    case True
    then show ?thesis using RetryDelay_spec [OF assms(2,1) d] pos by simp
  next
    case False
    then show ?thesis using RetryDelay_spec [OF assms(2,1) d] pos half_mod_bounds [of backoff seed]
      by simp
  qed
qed

theorem RetryDelay_bounds_witness:
  "let backoff = (if jumps_early (nat (3 - 1)) (sint (1000 :: duration)) (sint (60000 :: duration))
      then sint (60000 :: duration)
      else min (sint (1000 :: duration) * 2 ^ nat (3 - 1)) (sint (60000 :: duration)))
   in backoff div 2 \<le> sint (RetryDelay 7 3 1000 60000) \<and>
      sint (RetryDelay 7 3 1000 60000) \<le> backoff \<and> backoff \<le> sint (60000 :: duration)"
  unfolding Let_def by (rule RetryDelay_bounds) simp_all

text \<open>With a draw of zero the delay is exactly half of the capped exponential, so for an
  even maximal delay the backoff doubles with every retry until it reaches the cap and stays
  there; it is the same for every later retry.\<close>

lemma RetryDelay_doubles:
  assumes "0 < retry" and "0 < sint baseDelay" and "0 < sint maxDelay" and "even (sint maxDelay)"
    and "2 \<le> sint baseDelay" and "2 \<le> sint maxDelay"
  shows "sint (RetryDelay 0 retry baseDelay maxDelay) =
    min (sint baseDelay * 2 ^ nat (retry - 1)) (sint maxDelay) div 2"
proof -
  have "2 * 1 \<le> sint baseDelay * 2 ^ nat (retry - 1)"
    using assms(5) by (intro mult_mono) auto
  then have "\<not> min (sint baseDelay * 2 ^ nat (retry - 1)) (sint maxDelay) < 2"
    using assms(6) by simp
  with RetryDelay_spec [OF assms(2,1) refl, where m = maxDelay and seed = 0]
    base_delay_for_spec [OF assms(2,1), where m = maxDelay] assms(4)
  show ?thesis by (simp add: capped_backoff_def)
qed

text \<open>The doubling can reach the cap one step early: with a base delay of 3 and a maximal
  delay of 7 the second retry backs off from 7, where the exponential gives 6; and the documented
  half-open interval is not kept for a delay of one nanosecond, whose jitter range is empty.\<close>

lemma RetryDelay_early_cap:
  "base_delay_for 2 3 7 = 7 \<and> capped_backoff 1 3 7 = 6 \<and> sint (RetryDelay 5 1 1 1) = 1"
  by (simp add: base_delay_for_def numeral_2_eq_2 dur_half_def int_half_def RetryDelay_def
      capped_backoff_def)

end
