(* ===== verification/Worker.thy ===== *)
theory Worker
  imports Outbox_Store Publishers Retry_Delay
begin

text \<open>
  One tick of the outbox worker (internal/event/application/outbox_worker.go): reclaim,
  claim a batch, publish and settle its events.  The state of a tick holds the database, the
  publisher, the worker's metrics, the database clock with the skew of the process's own
  clock, and the fates of the calls still to come: how each database call goes, and the
  random draws of the backoff.  A call beyond the listed ones goes well.  Log lines are not
  modelled.
\<close>

section \<open>The code\<close>

record worker_config =
  wc_interval :: int
  wc_batch_size :: int
  wc_max_retries :: int
  wc_retry_base :: duration
  wc_retry_max :: duration
  wc_shutdown_timeout :: int
  wc_stale_timeout :: int

record 'p world =
  w_db :: db
  w_pub :: 'p
  w_clock :: time
  w_skew :: int
  w_calls :: "db_call list"
  w_seeds :: "nat list"
  m_published :: nat
  m_failed :: nat
  m_closed :: nat

definition NewOutboxWorker ::
  "int \<Rightarrow> int \<Rightarrow> int \<Rightarrow> duration \<Rightarrow> duration \<Rightarrow> int \<Rightarrow> int \<Rightarrow> worker_config" where
  "NewOutboxWorker interval batchSize maxRetries retryBaseDelay retryMaxDelay shutdownTimeout
     staleTimeout =
     \<lparr>wc_interval = interval, wc_batch_size = batchSize, wc_max_retries = maxRetries,
      wc_retry_base = retryBaseDelay, wc_retry_max = retryMaxDelay,
      wc_shutdown_timeout = shutdownTimeout, wc_stale_timeout = staleTimeout\<rparr>"

text \<open>The next database call: its fate, and the clock moved to its \<open>NOW()\<close>.\<close>

definition next_call :: "'p world \<Rightarrow> db_call \<times> 'p world" where
  "next_call st =
     (case w_calls st of
        [] \<Rightarrow> (quiet_call (w_clock st), st)
      | c # cs \<Rightarrow> (c, st\<lparr>w_calls := cs, w_clock := dc_now c\<rparr>))"

definition next_seed :: "'p world \<Rightarrow> nat \<times> 'p world" where
  "next_seed st = (case w_seeds st of [] \<Rightarrow> (0, st) | n # ns \<Rightarrow> (n, st\<lparr>w_seeds := ns\<rparr>))"

definition time_Now :: "'p world \<Rightarrow> time" where
  "time_Now st = w_clock st + w_skew st"

definition reclaimStale :: "worker_config \<Rightarrow> 'p world \<Rightarrow> 'p world" where
  "reclaimStale w st =
     (if wc_stale_timeout w \<le> 0 then st
      else
        let (c, st) = next_call st; (_, s') = ReclaimStale c (wc_stale_timeout w) (w_db st)
        in st\<lparr>w_db := s'\<rparr>)"

text \<open>The branch for a real publish failure.\<close>

definition on_publish_failure ::
  "externals \<Rightarrow> worker_config \<Rightarrow> outbox_event \<Rightarrow> gerror \<Rightarrow> 'p world \<Rightarrow> 'p world" where
  "on_publish_failure x w ev err st0 =
     (let st = st0\<lparr>m_failed := m_failed st0 + 1\<rparr> in
      if oe_attempts ev \<ge> wc_max_retries w then
        let (c, st) = next_call st;
            (closeErr, s') = MarkClose x c (oe_id ev) (error_text err) (w_db st);
            st = st\<lparr>w_db := s'\<rparr>
        in if closeErr \<noteq> None then st else st\<lparr>m_closed := m_closed st + 1\<rparr>
      else
        let retryNumber = oe_attempts ev + 1;
            (seed, st) = next_seed st;
            delay = RetryDelay seed retryNumber (wc_retry_base w) (wc_retry_max w);
            retryAt = time_Now st + sint delay;
            (c, st) = next_call st;
            (markErr, s') = MarkFailed x c (oe_id ev) (error_text err) retryAt (w_db st);
            st = st\<lparr>w_db := s'\<rparr>
        in if markErr \<noteq> None then st\<lparr>m_failed := m_failed st + 1\<rparr> else st)"

text \<open>The branch for a publish that succeeded.\<close>

definition on_publish_success :: "externals \<Rightarrow> outbox_event \<Rightarrow> 'p world \<Rightarrow> 'p world" where
  "on_publish_success x ev st =
     (let (c, st) = next_call st;
          (err, s') = MarkPublished x c (oe_id ev) (w_db st);
          st = st\<lparr>w_db := s'\<rparr>
      in if err \<noteq> None then st else st\<lparr>m_published := m_published st + 1\<rparr>)"

fun process_events ::
  "externals \<Rightarrow> worker_config \<Rightarrow> 'p publisher \<Rightarrow> outbox_event list \<Rightarrow> 'p world \<Rightarrow>
   failure \<times> 'p world"
where
  "process_events x w publish [] st = (None, st)"
| "process_events x w publish (ev # evs) st =
     (let (res, p') = publish (w_pub st) ev; st = st\<lparr>w_pub := p'\<rparr> in
      case res of
        Some err \<Rightarrow>
          if is_ctx_error err then (Some err, st)
          else process_events x w publish evs (on_publish_failure x w ev err st)
      | None \<Rightarrow> process_events x w publish evs (on_publish_success x ev st))"

definition process ::
  "externals \<Rightarrow> worker_config \<Rightarrow> 'p publisher \<Rightarrow> 'p world \<Rightarrow> failure \<times> 'p world" where
  "process x w publish st0 =
     (let st = reclaimStale w st0;
          (c, st) = next_call st;
          (res, s') = ClaimPending c (wc_batch_size w) (w_db st);
          st = st\<lparr>w_db := s'\<rparr>
      in case res of
           Inl err \<Rightarrow> (Some err, st)
         | Inr evs \<Rightarrow> process_events x w publish evs st)"

section \<open>What one call may do to the table\<close>

lemma next_call_frame [simp]:
  "w_db (snd (next_call st)) = w_db st" "w_pub (snd (next_call st)) = w_pub st"
  "w_skew (snd (next_call st)) = w_skew st" "w_seeds (snd (next_call st)) = w_seeds st"
  "m_published (snd (next_call st)) = m_published st"
  "m_failed (snd (next_call st)) = m_failed st" "m_closed (snd (next_call st)) = m_closed st"
  by (auto simp: next_call_def split: list.splits)

lemma next_seed_frame [simp]:
  "w_db (snd (next_seed st)) = w_db st" "w_pub (snd (next_seed st)) = w_pub st"
  "w_skew (snd (next_seed st)) = w_skew st" "w_clock (snd (next_seed st)) = w_clock st"
  "w_calls (snd (next_seed st)) = w_calls st"
  "m_published (snd (next_seed st)) = m_published st"
  "m_failed (snd (next_seed st)) = m_failed st" "m_closed (snd (next_seed st)) = m_closed st"
  by (auto simp: next_seed_def split: list.splits)

lemma next_call_metrics [simp]:
  "next_call (st\<lparr>m_failed := n\<rparr>) = (fst (next_call st), (snd (next_call st))\<lparr>m_failed := n\<rparr>)"
  "next_seed (st\<lparr>m_failed := n\<rparr>) = (fst (next_seed st), (snd (next_seed st))\<lparr>m_failed := n\<rparr>)"
  by (auto simp: next_call_def next_seed_def split: list.splits)

lemma next_call_seed [simp]: "fst (next_call (snd (next_seed st))) = fst (next_call st)"
  by (auto simp: next_call_def next_seed_def split: list.splits)

lemma reclaimStale_db:
  "w_db (reclaimStale w st) =
     (if wc_stale_timeout w \<le> 0 then w_db st
      else snd (ReclaimStale (fst (next_call st)) (wc_stale_timeout w) (w_db st)))"
  by (auto simp: reclaimStale_def Let_def split_beta)

lemma reclaimStale_moves:
  "\<exists>now. table_moves now (\<lambda>l. l = Reclaimed) (w_db st) (w_db (reclaimStale w st))"
  using ReclaimStale_moves [OF surjective_pairing] by (auto simp: reclaimStale_db)

lemma reclaimStale_frame [simp]:
  "w_pub (reclaimStale w st) = w_pub st" "m_published (reclaimStale w st) = m_published st"
  "m_failed (reclaimStale w st) = m_failed st" "m_closed (reclaimStale w st) = m_closed st"
  by (auto simp: reclaimStale_def Let_def split_beta)

text \<open>The labels with which a settled event may move its row: which ones depends on the
  attempts already made.\<close>

definition failure_label :: "worker_config \<Rightarrow> outbox_event \<Rightarrow> gerror \<Rightarrow> row_label \<Rightarrow> bool" where
  "failure_label w ev err l \<longleftrightarrow>
     (if oe_attempts ev \<ge> wc_max_retries w then l = Closed (error_text err)
      else \<exists>t. l = Failed (error_text err) t)"

lemma table_moves_weaken:
  "table_moves now L s s' \<Longrightarrow> (\<And>l. L l \<Longrightarrow> M l) \<Longrightarrow> table_moves now M s s'"
  by (auto simp: table_moves_def row_moves_def elim!: list_all2_mono)

text \<open>The two ways a failure is settled, and the one way a success is: which statement runs,
  and what is counted.\<close>

definition retry_at :: "worker_config \<Rightarrow> outbox_event \<Rightarrow> 'p world \<Rightarrow> time" where
  "retry_at w ev st = time_Now st +
     sint (RetryDelay (fst (next_seed st)) (oe_attempts ev + 1) (wc_retry_base w) (wc_retry_max w))"

lemma on_publish_failure_close:
  assumes "oe_attempts ev \<ge> wc_max_retries w"
    and "MarkClose x (fst (next_call st)) (oe_id ev) (error_text err) (w_db st) = (f, s')"
  shows "w_db (on_publish_failure x w ev err st) = s'"
    and "m_closed (on_publish_failure x w ev err st) = m_closed st + (if f = None then 1 else 0)"
    and "m_failed (on_publish_failure x w ev err st) = m_failed st + 1"
  using assms by (simp_all add: on_publish_failure_def Let_def split_beta)

lemma on_publish_failure_retry:
  assumes "\<not> oe_attempts ev \<ge> wc_max_retries w"
    and "MarkFailed x (fst (next_call st)) (oe_id ev) (error_text err) (retry_at w ev st) (w_db st)
      = (f, s')"
  shows "w_db (on_publish_failure x w ev err st) = s'"
    and "m_closed (on_publish_failure x w ev err st) = m_closed st"
    and "m_failed (on_publish_failure x w ev err st) = m_failed st + (if f = None then 1 else 2)"
  using assms
  by (simp_all add: on_publish_failure_def Let_def split_beta retry_at_def time_Now_def)

lemma on_publish_success_marks:
  assumes "MarkPublished x (fst (next_call st)) (oe_id ev) (w_db st) = (f, s')"
  shows "w_db (on_publish_success x ev st) = s'"
    and "m_published (on_publish_success x ev st) = m_published st + (if f = None then 1 else 0)"
  using assms by (simp_all add: on_publish_success_def Let_def split_beta)

lemma settle_frame [simp]:
  "w_pub (on_publish_failure x w ev err st) = w_pub st"
  "m_published (on_publish_failure x w ev err st) = m_published st"
  "w_pub (on_publish_success x ev st) = w_pub st"
  "m_failed (on_publish_success x ev st) = m_failed st"
  "m_closed (on_publish_success x ev st) = m_closed st"
  by (simp_all add: on_publish_failure_def on_publish_success_def Let_def split_beta)

lemma on_publish_failure_moves:
  "table_moves now (failure_label w ev err) (w_db st) (w_db (on_publish_failure x w ev err st))"
proof (cases "oe_attempts ev \<ge> wc_max_retries w")
  case True
  obtain f s' where
    m: "MarkClose x (fst (next_call st)) (oe_id ev) (error_text err) (w_db st) = (f, s')"
    by fastforce
  show ?thesis unfolding on_publish_failure_close(1) [OF True m]
    by (rule table_moves_weaken [OF MarkClose_moves [OF m]]) (simp add: failure_label_def True)
next
  case False
  obtain f s' where m: "MarkFailed x (fst (next_call st)) (oe_id ev) (error_text err)
      (retry_at w ev st) (w_db st) = (f, s')"
    by fastforce
  show ?thesis unfolding on_publish_failure_retry(1) [OF False m]
    by (rule table_moves_weaken [OF MarkFailed_moves [OF m]]) (simp add: failure_label_def False)
qed

lemma on_publish_success_moves:
  "\<exists>now. table_moves now (\<lambda>l. l = Published) (w_db st) (w_db (on_publish_success x ev st))"
proof -
  obtain f s' where m: "MarkPublished x (fst (next_call st)) (oe_id ev) (w_db st) = (f, s')"
    by fastforce
  show ?thesis unfolding on_publish_success_marks(1) [OF m]
    by (rule exI) (rule MarkPublished_moves [OF m])
qed

text \<open>The rows other than the event's own stay as they are.\<close>

lemma outbox_row_of_exec_other:
  assumes "exec_update c p f s = (r, s')" and "\<And>q. or_id (f q) = or_id q"
    and "\<And>q. p q \<Longrightarrow> or_id q = j" and "i \<noteq> j"
  shows "outbox_row_of i s' = outbox_row_of i s"
proof -
  have "outbox_row_of i (update_outbox p f s) = outbox_row_of i s"
  proof (cases "outbox_row_of i s")
    case (Some q)
    then have "or_id q = i" by (auto simp: outbox_row_of_def dest: row_of_SomeD)
    with assms(3,4) have "\<not> p q" by auto
    with Some assms(2) show ?thesis by (simp add: outbox_row_of_update)
  qed (simp add: outbox_row_of_update assms(2))
  with assms(1) show ?thesis by (auto elim: exec_update_cases)
qed

lemma Mark_other:
  assumes "i \<noteq> j"
  shows "MarkPublished x c j s = (f, s') \<Longrightarrow> outbox_row_of i s' = outbox_row_of i s"
    and "MarkFailed x c j msg t s = (f, s') \<Longrightarrow> outbox_row_of i s' = outbox_row_of i s"
    and "MarkClose x c j msg s = (f, s') \<Longrightarrow> outbox_row_of i s' = outbox_row_of i s"
  using assms
  by (auto simp: MarkPublished_def MarkFailed_def MarkClose_def Let_def
      split: prod.splits sum.splits if_splits elim!: outbox_row_of_exec_other)

lemma on_publish_success_other:
  assumes "i \<noteq> oe_id ev"
  shows "outbox_row_of i (w_db (on_publish_success x ev st)) = outbox_row_of i (w_db st)"
  by (metis Mark_other(1) assms on_publish_success_marks(1) surj_pair)

lemma on_publish_failure_other:
  assumes "i \<noteq> oe_id ev"
  shows "outbox_row_of i (w_db (on_publish_failure x w ev err st)) = outbox_row_of i (w_db st)"
  by (metis Mark_other(2,3) assms on_publish_failure_close(1) on_publish_failure_retry(1) surj_pair)

end
