(* ===== verification/Kafka.thy ===== *)
theory Kafka
  imports Publishers Json Config
begin

text \<open>
  The Kafka publisher (internal/platform/kafka/publisher.go).  The \<open>MessageWriter\<close> it
  relies on (kafka-go's producer, which waits for all in-sync replicas before it answers) is
  an argument: a function that takes the writer's state and one message and gives its
  answer, the time it took and its new state.  The publisher's metrics are its counters and
  the observations of its histogram.
\<close>

section \<open>The code\<close>

record kafka_message =
  km_key :: string
  km_value :: string
  km_headers :: "(string \<times> string) list"

type_synonym 'w message_writer = "'w \<Rightarrow> kafka_message \<Rightarrow> failure \<times> int \<times> 'w"

text \<open>The settings \<open>NewPublisher\<close> gives to kafka-go's writer.\<close>

datatype required_acks = RequireNone | RequireOne | RequireAll

record writer_settings =
  ws_brokers :: "string list"
  ws_topic :: string
  ws_hash_balancer :: bool
  ws_required_acks :: required_acks
  ws_async :: bool
  ws_max_attempts :: int
  ws_write_timeout :: int
  ws_read_timeout :: int
  ws_batch_timeout :: int
  ws_auto_topic_creation :: bool
  ws_client_id :: string
  ws_dial_timeout :: int

text \<open>The counters of internal/metrics/kafka.go, by topic; the histogram is the list of its
  observations with their topic and outcome.\<close>

record kafka_metrics =
  kmet_published :: "string \<Rightarrow> nat"
  kmet_failed :: "string \<Rightarrow> nat"
  kmet_durations :: "(string \<times> string \<times> int) list"

definition KafkaStatusSuccess :: string where "KafkaStatusSuccess = ''success''"
definition KafkaStatusFailure :: string where "KafkaStatusFailure = ''failure''"

definition NewKafkaMetrics :: kafka_metrics where
  "NewKafkaMetrics = \<lparr>kmet_published = (\<lambda>_. 0), kmet_failed = (\<lambda>_. 0), kmet_durations = []\<rparr>"

text \<open>\<open>kp_acked\<close> is a history variable: the messages the writer acknowledged, with the
  event each stands for.\<close>

record 'w kafka_publisher =
  kp_writer :: 'w
  kp_topic :: string
  kp_metrics :: kafka_metrics
  kp_acked :: "(uuid \<times> kafka_message) list"

definition NewPublisher_settings :: "KafkaConfig \<Rightarrow> writer_settings" where
  "NewPublisher_settings cfg =
     \<lparr>ws_brokers = kc_brokers cfg, ws_topic = kc_topic cfg, ws_hash_balancer = True,
      ws_required_acks = RequireAll, ws_async = False, ws_max_attempts = kc_max_attempts cfg,
      ws_write_timeout = kc_write_timeout cfg, ws_read_timeout = kc_write_timeout cfg,
      ws_batch_timeout = kc_batch_timeout cfg, ws_auto_topic_creation = False,
      ws_client_id = kc_client_id cfg, ws_dial_timeout = kc_write_timeout cfg\<rparr>"

definition NewPublisherWithWriter :: "'w \<Rightarrow> string \<Rightarrow> kafka_metrics \<Rightarrow> 'w kafka_publisher" where
  "NewPublisherWithWriter writer topic m =
     \<lparr>kp_writer = writer, kp_topic = topic, kp_metrics = m, kp_acked = []\<rparr>"

definition NewPublisher ::
  "(writer_settings \<Rightarrow> 'w) \<Rightarrow> KafkaConfig \<Rightarrow> kafka_metrics \<Rightarrow> 'w kafka_publisher" where
  "NewPublisher make_writer cfg m =
     NewPublisherWithWriter (make_writer (NewPublisher_settings cfg)) (kc_topic cfg) m"

definition Topic :: "'w kafka_publisher \<Rightarrow> string" where
  "Topic p = kp_topic p"

definition message_of :: "externals \<Rightarrow> outbox_event \<Rightarrow> kafka_message" where
  "message_of x ev =
     \<lparr>km_key = x_uuid_string x (oe_event_id ev), km_value = oe_payload ev,
      km_headers = [(''event_id'', x_uuid_string x (oe_event_id ev)),
                    (''event_type'', oe_event_type ev),
                    (''content_type'', ''application/json'')]\<rparr>"

definition count_failed :: "string \<Rightarrow> int \<Rightarrow> kafka_metrics \<Rightarrow> kafka_metrics" where
  "count_failed topic duration m =
     m\<lparr>kmet_failed := (kmet_failed m)(topic := kmet_failed m topic + 1),
       kmet_durations := kmet_durations m @ [(topic, KafkaStatusFailure, duration)]\<rparr>"

definition count_published :: "string \<Rightarrow> int \<Rightarrow> kafka_metrics \<Rightarrow> kafka_metrics" where
  "count_published topic duration m =
     m\<lparr>kmet_published := (kmet_published m)(topic := kmet_published m topic + 1),
       kmet_durations := kmet_durations m @ [(topic, KafkaStatusSuccess, duration)]\<rparr>"

definition KafkaPublish :: "externals \<Rightarrow> 'w message_writer \<Rightarrow> 'w kafka_publisher publisher" where
  "KafkaPublish x send p ev =
     (if oe_payload ev = [] then (Some (Sentinel ErrEmptyPayload), p)
      else if \<not> json_valid (oe_payload ev) then (Some (Sentinel ErrInvalidPayload), p)
      else
        let message = message_of x ev in
        (case send (kp_writer p) message of
           (Some err, duration, w) \<Rightarrow>
             if is_ctx_error err then (Some err, p\<lparr>kp_writer := w\<rparr>)
             else (Some (wrapf (''kafka publish to '' @ kp_topic p @ '': '') err),
                   p\<lparr>kp_writer := w, kp_metrics := count_failed (kp_topic p) duration (kp_metrics p)\<rparr>)
         | (None, duration, w) \<Rightarrow>
             (None, p\<lparr>kp_writer := w,
                      kp_metrics := count_published (kp_topic p) duration (kp_metrics p),
                      kp_acked := kp_acked p @ [(oe_event_id ev, message)]\<rparr>)))"

text \<open>\<open>Close\<close> forwards to the writer, whose \<open>Close\<close> flushes what it holds.\<close>

definition PublisherClose :: "('w \<Rightarrow> failure \<times> 'w) \<Rightarrow> 'w kafka_publisher \<Rightarrow> failure \<times> 'w kafka_publisher" where
  "PublisherClose close_writer p = (let (err, w) = close_writer (kp_writer p) in (err, p\<lparr>kp_writer := w\<rparr>))"

section \<open>Its contract\<close>

interpretation kafka_pub: event_publisher "KafkaPublish x send" "\<lambda>p. map fst (kp_acked p)"
  for x send
  by unfold_locales
    (auto simp: KafkaPublish_def Let_def split: if_splits prod.splits option.splits)

interpretation failing_kafka: wrapped_publisher "KafkaPublish x send" "\<lambda>p. map fst (kp_acked p)" rnd
  for x send rnd
  by unfold_locales

text \<open>A nil answer is exactly an acknowledged write of the event's own message.\<close>

lemma KafkaPublish_nil_iff:
  "fst (KafkaPublish x send p ev) = None \<longleftrightarrow>
     oe_payload ev \<noteq> [] \<and> json_valid (oe_payload ev) \<and>
     fst (send (kp_writer p) (message_of x ev)) = None"
  by (auto simp: KafkaPublish_def Let_def split: prod.splits option.splits)

lemma KafkaPublish_acked:
  "KafkaPublish x send p ev = (res, p') \<Longrightarrow>
   kp_acked p' = kp_acked p @ (if res = None then [(oe_event_id ev, message_of x ev)] else [])"
  by (auto simp: KafkaPublish_def Let_def split: if_splits prod.splits option.splits)

lemma KafkaPublish_topic: "KafkaPublish x send p ev = (res, p') \<Longrightarrow> kp_topic p' = kp_topic p"
  by (auto simp: KafkaPublish_def Let_def split: if_splits prod.splits option.splits)

lemma kafka_publish_writer:
  "oe_payload ev \<noteq> [] \<Longrightarrow> json_valid (oe_payload ev) \<Longrightarrow>
   kp_writer (snd (KafkaPublish x send p ev)) = snd (snd (send (kp_writer p) (message_of x ev)))"
  by (auto simp: KafkaPublish_def Let_def split: prod.splits option.splits)

text \<open>A payload that cannot be sent never reaches the writer.\<close>

lemma KafkaPublish_bad_payload:
  "oe_payload ev = [] \<or> \<not> json_valid (oe_payload ev) \<Longrightarrow>
   \<exists>err. KafkaPublish x send p ev = (Some err, p) \<and> \<not> is_ctx_error err"
  by (auto simp: KafkaPublish_def)

text \<open>The metrics: one observation for every write that was not canceled.\<close>

lemma KafkaPublish_metrics:
  assumes "KafkaPublish x send p ev = (res, p')"
  shows "kmet_published (kp_metrics p') t + kmet_failed (kp_metrics p') t
      - (kmet_published (kp_metrics p) t + kmet_failed (kp_metrics p) t) =
    length (filter (\<lambda>d. fst d = t) (kmet_durations (kp_metrics p')))
      - length (filter (\<lambda>d. fst d = t) (kmet_durations (kp_metrics p)))"
  using assms
  by (auto simp: KafkaPublish_def Let_def count_failed_def count_published_def
      split: if_splits prod.splits option.splits)

definition metrics_consistent :: "kafka_metrics \<Rightarrow> bool" where
  "metrics_consistent m \<longleftrightarrow>
     (\<forall>t. kmet_published m t = length (filter (\<lambda>d. fst d = t \<and> fst (snd d) = KafkaStatusSuccess) (kmet_durations m))
        \<and> kmet_failed m t = length (filter (\<lambda>d. fst d = t \<and> fst (snd d) = KafkaStatusFailure) (kmet_durations m)))"

lemma metrics_consistent_new: "metrics_consistent NewKafkaMetrics"
  by (simp add: metrics_consistent_def NewKafkaMetrics_def)

lemma KafkaPublish_consistent:
  assumes "metrics_consistent (kp_metrics p)" and "KafkaPublish x send p ev = (res, p')"
  shows "metrics_consistent (kp_metrics p')"
  using assms
  by (auto simp: KafkaPublish_def Let_def count_failed_def count_published_def metrics_consistent_def
      KafkaStatusSuccess_def KafkaStatusFailure_def
      split: if_splits prod.splits option.splits)

section \<open>Properties\<close>

text \<open>C32: publishing answers nil exactly when the payload is a non-empty valid JSON text and the
  writer acknowledged the event's message; the message is keyed by the event identifier and
  carries the payload as it is stored; nothing is written for a payload that is refused, and a
  message is recorded as delivered exactly once per nil answer.\<close>

theorem kafka_publish_acknowledged:
  "case KafkaPublish x send p ev of (res, p') \<Rightarrow>
     (res = None) =
       (oe_payload ev \<noteq> [] \<and> json_valid (oe_payload ev) \<and>
        fst (send (kp_writer p) (message_of x ev)) = None) \<and>
     kp_acked p' = kp_acked p @ (if res = None then [(oe_event_id ev, message_of x ev)] else []) \<and>
     kp_writer p' =
       (if oe_payload ev \<noteq> [] \<and> json_valid (oe_payload ev)
        then snd (snd (send (kp_writer p) (message_of x ev))) else kp_writer p) \<and>
     km_key (message_of x ev) = x_uuid_string x (oe_event_id ev) \<and>
     km_value (message_of x ev) = oe_payload ev \<and>
     map_of (km_headers (message_of x ev)) ''event_type'' = Some (oe_event_type ev)"
  by (auto simp: KafkaPublish_def Let_def message_of_def split: prod.splits option.splits)

fun publish_run :: "externals \<Rightarrow> 'w message_writer \<Rightarrow> 'w kafka_publisher \<Rightarrow> outbox_event list \<Rightarrow>
    'w kafka_publisher" where
  "publish_run x send p [] = p"
| "publish_run x send p (ev # evs) = publish_run x send (snd (KafkaPublish x send p ev)) evs"

definition accounts :: "'w kafka_publisher \<Rightarrow> bool" where
  "accounts p \<longleftrightarrow> metrics_consistent (kp_metrics p) \<and>
     kmet_published (kp_metrics p) (kp_topic p) = length (kp_acked p)"

lemma KafkaPublish_accounts:
  assumes "accounts p"
  shows "accounts (snd (KafkaPublish x send p ev)) \<and>
    kp_topic (snd (KafkaPublish x send p ev)) = kp_topic p"
proof -
  obtain res p' where k: "KafkaPublish x send p ev = (res, p')" by fastforce
  have "metrics_consistent (kp_metrics p')"
    using KafkaPublish_consistent [OF _ k] assms by (simp add: accounts_def)
  moreover have "kmet_published (kp_metrics p') (kp_topic p') = length (kp_acked p')"
    using k assms
    by (auto simp: KafkaPublish_def Let_def accounts_def count_failed_def count_published_def
        split: if_splits prod.splits option.splits)
  ultimately show ?thesis using KafkaPublish_topic [OF k] k by (simp add: accounts_def)
qed

lemma publish_run_accounts: "accounts p \<Longrightarrow> accounts (publish_run x send p evs)"
  by (induction evs arbitrary: p) (auto dest: KafkaPublish_accounts)

text \<open>The publisher's metrics account for every write: after any run of attempts the two
  counters of a topic are the numbers of its successful and failed observations, a canceled
  write counts nowhere, and the published counter is the number of acknowledged messages.\<close>

lemma kafka_metrics_account:
  "let p = publish_run x send (NewPublisherWithWriter writer topic NewKafkaMetrics) evs in
    kmet_published (kp_metrics p) (kp_topic p) = length (kp_acked p) \<and>
    (\<forall>t. kmet_published (kp_metrics p) t =
        length (filter (\<lambda>d. fst d = t \<and> fst (snd d) = ''success'') (kmet_durations (kp_metrics p))) \<and>
      kmet_failed (kp_metrics p) t =
        length (filter (\<lambda>d. fst d = t \<and> fst (snd d) = ''failure'') (kmet_durations (kp_metrics p))))"
proof -
  have "accounts (NewPublisherWithWriter writer topic NewKafkaMetrics)"
    by (simp add: accounts_def NewPublisherWithWriter_def metrics_consistent_new NewKafkaMetrics_def
        metrics_consistent_new [unfolded NewKafkaMetrics_def])
  then have "accounts (publish_run x send (NewPublisherWithWriter writer topic NewKafkaMetrics) evs)"
    by (rule publish_run_accounts)
  then show ?thesis
    unfolding accounts_def metrics_consistent_def KafkaStatusSuccess_def KafkaStatusFailure_def Let_def
    by blast
qed

end
