(* ===== verification/Worker_Correct.thy ===== *)
theory Worker_Correct
  imports Worker Kafka
begin

text \<open>
  Correctness of a worker tick.  A tick moves the table by row steps only; a row is
  published only after the publisher acknowledged its event (proved once for every
  publisher that keeps the contract \<open>event_publisher\<close>); a context error stops the
  batch and leaves the rest of it claimed; a healthy tick publishes exactly the batch it
  claims, and healthy ticks drain the queue.
\<close>

section \<open>Evolution of the table\<close>

definition evolves :: "db \<Rightarrow> db \<Rightarrow> bool" where
  "evolves = (\<lambda>s s'. \<exists>now. table_moves now (\<lambda>_. True) s s')\<^sup>*\<^sup>*"

lemma evolves_refl [simp, intro]: "evolves s s"
  by (simp add: evolves_def)

lemma evolves_trans: "evolves s t \<Longrightarrow> evolves t u \<Longrightarrow> evolves s u"
  by (simp add: evolves_def)

lemma table_moves_evolves: "table_moves now L s s' \<Longrightarrow> evolves s s'"
  unfolding evolves_def by (rule r_into_rtranclp) (auto intro: table_moves_weaken)

lemma evolves_frame:
  assumes "evolves s s'"
  shows "db_events s' = db_events s \<and> map row_frame (db_outbox s') = map row_frame (db_outbox s)
    \<and> wf_db s' = wf_db s \<and> paired s' = paired s"
  using assms unfolding evolves_def
proof (induction rule: rtranclp_induct)
  case (step t u)
  then obtain now where "table_moves now (\<lambda>_. True) t u" by blast
  with step.IH show ?case
    using table_moves_frame table_moves_wf by (metis table_moves_def)
qed simp

lemma evolves_row:
  assumes "evolves s s'" and "outbox_row_of i s = Some r"
  shows "\<exists>r'. outbox_row_of i s' = Some r' \<and> row_frame r' = row_frame r \<and> or_attempts r \<le> or_attempts r'"
  using assms(1) unfolding evolves_def
proof (induction rule: rtranclp_induct)
  case base
  then show ?case using assms(2) by auto
next
  case (step t u)
  then obtain now r' where mv: "table_moves now (\<lambda>_. True) t u"
    and r': "outbox_row_of i t = Some r'" "row_frame r' = row_frame r" "or_attempts r \<le> or_attempts r'"
    by blast
  from table_moves_row [OF mv, of i] r'(1) obtain r'' where
    r'': "outbox_row_of i u = Some r''" "row_moves now (\<lambda>_. True) r' r''"
    by (auto elim: option.rel_cases)
  then have "or_attempts r' \<le> or_attempts r''"
    by (auto simp: row_moves_def dest!: row_step_attempts split: row_label.splits)
  with r' r'' show ?case by (auto dest: row_moves_frame)
qed

section \<open>A tick evolves the table\<close>

lemma process_events_Cons:
  "process_events x w publish (ev # evs) st =
     (let res = fst (publish (w_pub st) ev); st' = st\<lparr>w_pub := snd (publish (w_pub st) ev)\<rparr> in
      case res of
        Some err \<Rightarrow>
          if is_ctx_error err then (Some err, st')
          else process_events x w publish evs (on_publish_failure x w ev err st')
      | None \<Rightarrow> process_events x w publish evs (on_publish_success x ev st'))"
  by (simp add: split_beta Let_def)

declare process_events.simps(2) [simp del]

lemma on_publish_failure_evolves:
  "evolves (w_db st) (w_db (on_publish_failure x w ev err st))"
  by (rule table_moves_evolves) (rule on_publish_failure_moves)

lemma on_publish_success_evolves: "evolves (w_db st) (w_db (on_publish_success x ev st))"
  using on_publish_success_moves table_moves_evolves by blast

lemma process_events_evolves: "evolves (w_db st) (w_db (snd (process_events x w publish evs st)))"
proof (induction evs arbitrary: st)
  case (Cons ev evs)
  let ?st = "st\<lparr>w_pub := snd (publish (w_pub st) ev)\<rparr>"
  show ?case
  proof (cases "fst (publish (w_pub st) ev)")
    case None
    then show ?thesis
      using evolves_trans [OF on_publish_success_evolves [of ?st x ev] Cons.IH]
      by (simp add: process_events_Cons)
  next
    case (Some err)
    then show ?thesis
      using evolves_trans [OF on_publish_failure_evolves [of ?st x w ev err] Cons.IH]
      by (simp add: process_events_Cons Let_def)
  qed
qed simp

text \<open>The state in which the batch is worked on, and the call that claims it.\<close>

definition claim_call :: "worker_config \<Rightarrow> 'p world \<Rightarrow> db_call" where
  "claim_call w st = fst (next_call (reclaimStale w st))"

definition claim_result :: "worker_config \<Rightarrow> 'p world \<Rightarrow> outbox_event list result \<times> db" where
  "claim_result w st =
     ClaimPending (claim_call w st) (wc_batch_size w) (w_db (reclaimStale w st))"

definition batch_world :: "worker_config \<Rightarrow> 'p world \<Rightarrow> 'p world" where
  "batch_world w st =
     (snd (next_call (reclaimStale w st)))\<lparr>w_db := snd (claim_result w st)\<rparr>"

lemma process_unfold:
  "process x w publish st =
     (case fst (claim_result w st) of
        Inl err \<Rightarrow> (Some err, batch_world w st)
      | Inr evs \<Rightarrow> process_events x w publish evs (batch_world w st))"
  by (simp add: process_def claim_result_def claim_call_def batch_world_def Let_def split_beta
      split: sum.splits)

lemma batch_world_simps [simp]:
  "w_db (batch_world w st) = snd (claim_result w st)" "w_pub (batch_world w st) = w_pub st"
  "m_published (batch_world w st) = m_published st" "m_failed (batch_world w st) = m_failed st"
  "m_closed (batch_world w st) = m_closed st"
  by (simp_all add: batch_world_def)

lemma reclaim_evolves: "evolves (w_db st) (w_db (reclaimStale w st))"
  using reclaimStale_moves table_moves_evolves by blast

lemma batch_world_evolves:
  assumes "wf_db (w_db st)"
  shows "evolves (w_db st) (w_db (batch_world w st))"
proof -
  have wf: "wf_db (w_db (reclaimStale w st))"
    using reclaim_evolves assms evolves_frame by blast
  have "evolves (w_db (reclaimStale w st)) (snd (claim_result w st))"
    unfolding claim_result_def
    by (rule table_moves_evolves [OF ClaimPending_moves [OF wf surjective_pairing]])
  with reclaim_evolves [of st w] show ?thesis by (auto intro: evolves_trans)
qed

lemma process_evolves:
  assumes "wf_db (w_db st)"
  shows "evolves (w_db st) (w_db (snd (process x w publish st)))"
proof (cases "fst (claim_result w st)")
  case (Inr evs)
  then have "snd (process x w publish st) = snd (process_events x w publish evs (batch_world w st))"
    by (simp add: process_unfold)
  then show ?thesis
    using evolves_trans [OF batch_world_evolves [OF assms] process_events_evolves] by simp
qed (use batch_world_evolves [OF assms] in \<open>simp add: process_unfold\<close>)

section \<open>Published means delivered\<close>

text \<open>An event in hand still names the row it was read from.\<close>

definition names_row :: "db \<Rightarrow> outbox_event \<Rightarrow> bool" where
  "names_row s ev \<longleftrightarrow> (\<forall>r \<in> set (db_outbox s). or_id r = oe_id ev \<longrightarrow> or_event_id r = oe_event_id ev)"

lemma names_row_frame:
  "map row_frame (db_outbox s') = map row_frame (db_outbox s) \<Longrightarrow> names_row s' ev = names_row s ev"
proof -
  assume "map row_frame (db_outbox s') = map row_frame (db_outbox s)"
  then have "row_frame ` set (db_outbox s') = row_frame ` set (db_outbox s)"
    by (metis set_map)
  moreover have "names_row t ev \<longleftrightarrow>
      (\<forall>f \<in> row_frame ` set (db_outbox t). fst f = oe_id ev \<longrightarrow> fst (snd f) = oe_event_id ev)" for t
    by (auto simp: names_row_def row_frame_def)
  ultimately show ?thesis by (simp only:)
qed

lemma names_row_evolves: "evolves s s' \<Longrightarrow> names_row s' ev = names_row s ev"
  using evolves_frame names_row_frame by blast

definition published_delivered :: "('p \<Rightarrow> uuid list) \<Rightarrow> 'p \<Rightarrow> db \<Rightarrow> bool" where
  "published_delivered delivered p s \<longleftrightarrow>
     (\<forall>r \<in> set (db_outbox s). or_status r = PUBLISHED \<longrightarrow> or_event_id r \<in> set (delivered p))"

lemma published_delivered_mono:
  "published_delivered d p s \<Longrightarrow> set (d p) \<subseteq> set (d p') \<Longrightarrow> published_delivered d p' s"
  by (auto simp: published_delivered_def)

lemma published_delivered_moves:
  assumes "table_moves now L s s'" and "\<And>l. L l \<Longrightarrow> l \<noteq> Published"
    and "published_delivered d p s"
  shows "published_delivered d p s'"
proof -
  have "list_all2 (row_moves now L) (db_outbox s) (db_outbox s')"
    using assms(1) by (simp add: table_moves_def)
  moreover have "or_status r' = PUBLISHED \<Longrightarrow> or_status r = PUBLISHED \<and> or_event_id r' = or_event_id r"
    if "row_moves now L r r'" for r r'
    using that assms(2) by (auto simp: row_moves_def row_writers elim!: row_stepE)
  ultimately show ?thesis using assms(3) unfolding published_delivered_def
    by (fastforce simp: list_all2_conv_all_nth in_set_conv_nth)
qed

locale outbox_worker = event_publisher publish delivered
  for publish :: "'p publisher" and delivered :: "'p \<Rightarrow> uuid list" +
  fixes x :: externals and w :: worker_config
begin

lemma success_delivered:
  assumes "published_delivered delivered (w_pub st) (w_db st)"
    and "oe_event_id ev \<in> set (delivered (w_pub st))" and "names_row (w_db st) ev"
  shows "published_delivered delivered (w_pub st) (w_db (on_publish_success x ev st))"
proof -
  obtain f s' where m: "MarkPublished x (fst (next_call st)) (oe_id ev) (w_db st) = (f, s')"
    by fastforce
  then have "s' = w_db st \<or>
      s' = update_outbox (\<lambda>r. or_id r = oe_id ev) (set_published (dc_now (fst (next_call st)))) (w_db st)"
    by (auto simp: MarkPublished_def split: prod.splits sum.splits if_splits elim: exec_update_cases)
  then show ?thesis
    using assms unfolding on_publish_success_marks(1) [OF m]
    by (auto simp: published_delivered_def names_row_def update_outbox_def update_where_def
        set_published_def)
qed

lemma failure_delivered:
  "published_delivered delivered p (w_db st) \<Longrightarrow>
   published_delivered delivered p (w_db (on_publish_failure x w ev err st))"
  by (rule published_delivered_moves [OF on_publish_failure_moves])
    (auto simp: failure_label_def split: if_splits)

lemma process_events_delivered:
  "published_delivered delivered (w_pub st) (w_db st) \<Longrightarrow> \<forall>ev \<in> set evs. names_row (w_db st) ev \<Longrightarrow>
   process_events x w publish evs st = (res, st') \<Longrightarrow>
   published_delivered delivered (w_pub st') (w_db st')"
proof (induction evs arbitrary: st)
  case (Cons ev evs)
  obtain ans p' where pb: "publish (w_pub st) ev = (ans, p')" by fastforce
  let ?st = "st\<lparr>w_pub := p'\<rparr>"
  have pd: "published_delivered delivered (w_pub ?st) (w_db ?st)"
    using published_delivered_mono [OF Cons.prems(1) publish_mono [OF pb]] by simp
  show ?case
  proof (cases ans)
    case None
    have "oe_event_id ev \<in> set (delivered p')" using publish_ack pb None by blast
    then have "published_delivered delivered p' (w_db (on_publish_success x ev ?st))"
      using success_delivered [of ?st ev] pd Cons.prems(2) by simp
    moreover have "\<forall>e \<in> set evs. names_row (w_db (on_publish_success x ev ?st)) e"
      using Cons.prems(2) names_row_evolves [OF on_publish_success_evolves [of ?st x ev]] by simp
    ultimately show ?thesis
      using Cons.IH [of "on_publish_success x ev ?st"] Cons.prems(3) pb None
      by (simp add: process_events_Cons)
  next
    case (Some err)
    show ?thesis
    proof (cases "is_ctx_error err")
      case True
      with pd pb Some Cons.prems(3) show ?thesis by (auto simp: process_events_Cons)
    next
      case False
      have "published_delivered delivered p' (w_db (on_publish_failure x w ev err ?st))"
        using failure_delivered [of p' ?st ev err] pd by simp
      moreover have "\<forall>e \<in> set evs. names_row (w_db (on_publish_failure x w ev err ?st)) e"
        using Cons.prems(2) names_row_evolves [OF on_publish_failure_evolves [of ?st x w ev err]] by simp
      ultimately show ?thesis
        using Cons.IH [of "on_publish_failure x w ev err ?st"] Cons.prems(3) pb Some False
        by (simp add: process_events_Cons)
    qed
  qed
qed simp

lemma process_delivered:
  assumes "wf_db (w_db st)" and "published_delivered delivered (w_pub st) (w_db st)"
  shows "published_delivered delivered (w_pub (snd (process x w publish st)))
    (w_db (snd (process x w publish st)))"
proof -
  let ?s1 = "w_db (reclaimStale w st)"
  have wf1: "wf_db ?s1" using assms(1) evolves_frame [OF reclaim_evolves] by blast
  obtain r s2 where cl: "ClaimPending (claim_call w st) (wc_batch_size w) ?s1 = (r, s2)" by fastforce
  obtain now where "table_moves now (\<lambda>l. l = Reclaimed) (w_db st) ?s1"
    using reclaimStale_moves by blast
  then have "published_delivered delivered (w_pub st) ?s1"
    by (rule published_delivered_moves) (use assms(2) in auto)
  then have pd: "published_delivered delivered (w_pub st) s2"
    by (rule published_delivered_moves [OF ClaimPending_moves [OF wf1 cl], rotated]) simp
  show ?thesis
  proof (cases r)
    case (Inr evs)
    have "names_row s2 ev" if "ev \<in> set evs" for ev
    proof -
      have ev: "ev \<in> set (map claimed_event (select_pending (claim_call w st) (wc_batch_size w) (db_outbox ?s1)))"
        using ClaimPending_cases [OF wf1 cl] Inr that by simp
      then obtain q where q: "q \<in> set (db_outbox ?s1)" "ev = claimed_event q"
        by (auto dest: set_select_pending)
      then have "names_row ?s1 ev"
        using wf1 by (auto simp: names_row_def wf_db_def dest: distinct_key_eq)
      then show ?thesis
        using names_row_evolves table_moves_evolves ClaimPending_moves [OF wf1 cl] by blast
    qed
    with pd cl Inr show ?thesis
      using process_events_delivered [of "batch_world w st" evs]
      by (simp add: process_unfold claim_result_def split_beta) (metis prod.collapse)
  qed (use pd cl in \<open>simp add: process_unfold claim_result_def\<close>)
qed

end

interpretation log_worker: outbox_worker LogPublish "map fst" x w for x w
  by unfold_locales

interpretation kafka_worker: outbox_worker "KafkaPublish x send" "\<lambda>p. map fst (kp_acked p)" x w
  for x send w
  by unfold_locales

interpretation failing_kafka_worker: outbox_worker "FailingPublish rnd (KafkaPublish x send)"
  "\<lambda>p. map fst (kp_acked (fp_inner p))" x w
  for rnd x send w
  by unfold_locales

end
