(* ===== verification/Cluster.thy ===== *)
theory Cluster
  imports Worker_Correct
begin

text \<open>
  Several workers on one database: the interleaving the repository's locking is for.  A claim is
  split into its two database steps, the locking select and the commit of the update, between
  which the other workers, the API and the clock go on; publishing and settling an event are
  separate steps; a worker can crash anywhere, which drops what it holds in memory and rolls
  back its open transaction.  Settling reuses the code of the worker's tick, one event at a
  time.
\<close>

section \<open>States and steps\<close>

datatype worker_pc =
    Idle
  | Claiming time "outbox_event list"                        \<comment> \<open>open transaction, rows locked\<close>
  | Working time "outbox_event list"                         \<comment> \<open>batch in hand\<close>
  | Settling time outbox_event failure "outbox_event list"   \<comment> \<open>first event has been published\<close>

record 'p cluster =
  cl_db :: db
  cl_now :: time
  cl_pub :: 'p
  cl_pc :: "nat \<Rightarrow> worker_pc"

fun tx_events :: "worker_pc \<Rightarrow> outbox_event list" where
  "tx_events (Claiming t evs) = evs"
| "tx_events _ = []"

fun hand :: "worker_pc \<Rightarrow> outbox_event list" where
  "hand (Working t evs) = evs"
| "hand (Settling t ev a evs) = ev # evs"
| "hand _ = []"

fun hand_time :: "worker_pc \<Rightarrow> time option" where
  "hand_time (Working t evs) = Some t"
| "hand_time (Settling t ev a evs) = Some t"
| "hand_time _ = None"

text \<open>The rows locked by the open transactions of the workers other than \<open>i\<close>.\<close>

definition locked_by_others :: "nat \<Rightarrow> nat \<Rightarrow> (nat \<Rightarrow> worker_pc) \<Rightarrow> uuid list" where
  "locked_by_others n i pcs =
     concat (map (\<lambda>j. if j = i then [] else map oe_id (tx_events (pcs j))) [0..<n])"

text \<open>One event settled by the tick's own code, in a world that holds the shared database and
  the fate of its one database call.\<close>

definition settle_world :: "int \<Rightarrow> db_call \<Rightarrow> nat \<Rightarrow> 'p cluster \<Rightarrow> 'p world" where
  "settle_world skew c seed s =
     \<lparr>w_db = cl_db s, w_pub = cl_pub s, w_clock = cl_now s, w_skew = skew, w_calls = [c],
      w_seeds = [seed], m_published = 0, m_failed = 0, m_closed = 0\<rparr>"

definition settle ::
  "externals \<Rightarrow> worker_config \<Rightarrow> outbox_event \<Rightarrow> failure \<Rightarrow> 'p world \<Rightarrow> 'p world" where
  "settle x w ev answer st =
     (case answer of
        None \<Rightarrow> on_publish_success x ev st
      | Some err \<Rightarrow> on_publish_failure x w ev err st)"

inductive cl_step ::
  "externals \<Rightarrow> worker_config \<Rightarrow> 'p publisher \<Rightarrow> nat \<Rightarrow> 'p cluster \<Rightarrow> 'p cluster \<Rightarrow> bool"
  for x :: externals and w :: worker_config and publish :: "'p publisher" and n :: nat
where
  pass: "0 \<le> d \<Longrightarrow> cl_step x w publish n s (s\<lparr>cl_now := cl_now s + d\<rparr>)"
| save: "cl_step x w publish n s (s\<lparr>cl_db := snd (Save x c rid ev (cl_db s))\<rparr>)"
| reclaim: "i < n \<Longrightarrow> cl_pc s i = Idle \<Longrightarrow> 0 < wc_stale_timeout w \<Longrightarrow> dc_now c \<le> cl_now s \<Longrightarrow>
    dc_locked c = locked_by_others n i (cl_pc s) \<Longrightarrow>
    cl_step x w publish n s (s\<lparr>cl_db := snd (ReclaimStale c (wc_stale_timeout w) (cl_db s))\<rparr>)"
| claim_select: "i < n \<Longrightarrow> cl_pc s i = Idle \<Longrightarrow> dc_now c \<le> cl_now s \<Longrightarrow>
    dc_locked c = locked_by_others n i (cl_pc s) \<Longrightarrow>
    cl_step x w publish n s (s\<lparr>cl_pc := (cl_pc s)(i := Claiming (dc_now c)
      (map claimed_event (select_pending c (wc_batch_size w) (db_outbox (cl_db s)))))\<rparr>)"
| claim_commit: "i < n \<Longrightarrow> cl_pc s i = Claiming t evs \<Longrightarrow>
    cl_step x w publish n s (s\<lparr>
      cl_db := update_outbox (\<lambda>r. or_id r \<in> set (map oe_id evs)) (set_processing t) (cl_db s),
      cl_pc := (cl_pc s)(i := Working t evs)\<rparr>)"
| claim_ack_lost: "i < n \<Longrightarrow> cl_pc s i = Claiming t evs \<Longrightarrow>
    cl_step x w publish n s (s\<lparr>
      cl_db := update_outbox (\<lambda>r. or_id r \<in> set (map oe_id evs)) (set_processing t) (cl_db s),
      cl_pc := (cl_pc s)(i := Idle)\<rparr>)"
| publish: "i < n \<Longrightarrow> cl_pc s i = Working t (ev # evs) \<Longrightarrow> publish (cl_pub s) ev = (answer, p') \<Longrightarrow>
    cl_step x w publish n s (s\<lparr>cl_pub := p', cl_pc := (cl_pc s)(i :=
      (case answer of
         Some err \<Rightarrow> if is_ctx_error err then Idle else Settling t ev answer evs
       | None \<Rightarrow> Settling t ev answer evs))\<rparr>)"
| settle: "i < n \<Longrightarrow> cl_pc s i = Settling t ev answer evs \<Longrightarrow>
    (answer = None \<Longrightarrow> oe_id ev \<notin> set (locked_by_others n i (cl_pc s))) \<Longrightarrow>
    cl_step x w publish n s (s\<lparr>
      cl_db := w_db (settle x w ev answer (settle_world skew c seed s)),
      cl_pc := (cl_pc s)(i := Working t evs)\<rparr>)"
| finish_batch: "i < n \<Longrightarrow> cl_pc s i = Working t [] \<Longrightarrow>
    cl_step x w publish n s (s\<lparr>cl_pc := (cl_pc s)(i := Idle)\<rparr>)"
| crash: "i < n \<Longrightarrow> cl_step x w publish n s (s\<lparr>cl_pc := (cl_pc s)(i := Idle)\<rparr>)"

inductive_cases cl_stepE: "cl_step x w publish n s s'"

lemma cl_step_stay: "cl_step x w publish n s s"
  using cl_step.pass [of 0 x w publish n s] by simp

definition cluster_init :: "db \<Rightarrow> time \<Rightarrow> 'p \<Rightarrow> 'p cluster" where
  "cluster_init s now p = \<lparr>cl_db = s, cl_now = now, cl_pub = p, cl_pc = (\<lambda>_. Idle)\<rparr>"

inductive cl_reach ::
  "externals \<Rightarrow> worker_config \<Rightarrow> 'p publisher \<Rightarrow> nat \<Rightarrow> 'p cluster \<Rightarrow> 'p cluster \<Rightarrow> bool"
  for x w publish n s0
where
  here: "cl_reach x w publish n s0 s0"
| more: "cl_reach x w publish n s0 s \<Longrightarrow> cl_step x w publish n s s' \<Longrightarrow> cl_reach x w publish n s0 s'"

text \<open>What every call of the publisher keeps, every step keeps of the publisher's state.\<close>

lemma cl_reach_publisher:
  assumes "cl_reach x w publish n (cluster_init s0 now p) s" and "P p"
    and "\<And>p ev res p'. publish p ev = (res, p') \<Longrightarrow> P p \<Longrightarrow> P p'"
  shows "P (cl_pub s)"
  using assms(1)
proof (induction rule: cl_reach.induct)
  case here
  then show ?case using assms(2) by (simp add: cluster_init_def)
next
  case (more s s')
  from more.hyps(2) show ?case
    by (cases rule: cl_step.cases) (use more.IH in \<open>auto intro: assms(3)\<close>)
qed

text \<open>The steps of the workers alone, with no event saved.\<close>

inductive worker_reach ::
  "externals \<Rightarrow> worker_config \<Rightarrow> 'p publisher \<Rightarrow> nat \<Rightarrow> 'p cluster \<Rightarrow> 'p cluster \<Rightarrow> bool"
  for x w publish n s0
where
  here: "worker_reach x w publish n s0 s0"
| more: "worker_reach x w publish n s0 s \<Longrightarrow> cl_step x w publish n s s' \<Longrightarrow>
    db_events (cl_db s') = db_events (cl_db s) \<Longrightarrow> worker_reach x w publish n s0 s'"

lemma worker_reach_cl_reach: "worker_reach x w publish n s0 s \<Longrightarrow> cl_reach x w publish n s0 s"
  by (induction rule: worker_reach.induct) (auto intro: cl_reach.intros)

lemma worker_reach_trans:
  assumes "worker_reach x w publish n s1 s2" and "worker_reach x w publish n s0 s1"
  shows "worker_reach x w publish n s0 s2"
  using assms by (induction rule: worker_reach.induct) (auto intro: worker_reach.more)

section \<open>What each step does to one row\<close>

lemma Save_rows:
  assumes "outbox_row_of k s = Some r"
  shows "outbox_row_of k (snd (Save x c rid ev s)) = Some r"
proof (rule Save_cases [of x c rid ev s])
  have ext: "outbox_row_of k s' = Some r" if "saved x c rid ev s s'" for s'
    using that assms by (auto simp: saved_def outbox_row_of_def row_of_append)
  show "Save x c rid ev s = (Some e, s') \<Longrightarrow> saved x c rid ev s s' \<Longrightarrow> dc_end c \<noteq> Done \<Longrightarrow> ?thesis" for e s'
    using ext by simp
  show "Save x c rid ev s = (None, s') \<Longrightarrow> saved x c rid ev s s' \<Longrightarrow> dc_end c = Done \<Longrightarrow> ?thesis" for s'
    using ext by simp
qed (use assms in simp)

lemma ReclaimStale_row:
  assumes "outbox_row_of k s = Some r" and "\<not> stale c d r"
  shows "outbox_row_of k (snd (ReclaimStale c d s)) = Some r"
proof -
  have "outbox_row_of k (update_outbox (stale c d) (set_reclaimed (dc_now c)) s) = Some r"
    using assms by (simp add: outbox_row_of_update)
  moreover have "snd (ReclaimStale c d s) = s \<or>
      snd (ReclaimStale c d s) = update_outbox (stale c d) (set_reclaimed (dc_now c)) s"
    by (cases "dc_end c") (simp_all add: ReclaimStale_def exec_update_def)
  ultimately show ?thesis using assms(1) by auto
qed

lemma update_ids_row:
  "k \<notin> set ids \<Longrightarrow> outbox_row_of k (update_outbox (\<lambda>r. or_id r \<in> set ids) (set_processing t) s)
    = outbox_row_of k s"
proof (cases "outbox_row_of k s")
  case (Some r)
  assume "k \<notin> set ids"
  moreover have "or_id r = k" using Some by (auto simp: outbox_row_of_def dest: row_of_SomeD)
  ultimately show ?thesis using Some by (simp add: outbox_row_of_update)
qed (simp add: outbox_row_of_update)

lemma update_ids_row_in:
  assumes "k \<in> set ids" and "outbox_row_of k s = Some r"
  shows "outbox_row_of k (update_outbox (\<lambda>r. or_id r \<in> set ids) (set_processing t) s)
    = Some (set_processing t r)"
proof -
  have "or_id r = k" using assms(2) by (auto simp: outbox_row_of_def dest: row_of_SomeD)
  with assms show ?thesis by (simp add: outbox_row_of_update)
qed

lemma settle_other:
  "k \<noteq> oe_id ev \<Longrightarrow> outbox_row_of k (w_db (settle x w ev a st)) = outbox_row_of k (w_db st)"
  by (cases a) (simp_all add: settle_def on_publish_success_other on_publish_failure_other)

lemma settle_evolves: "evolves (w_db st) (w_db (settle x w ev a st))"
  by (cases a) (simp_all add: settle_def on_publish_success_evolves on_publish_failure_evolves)

text \<open>A failure finds nothing to do on a row that is not PROCESSING.\<close>

lemma exec_update_miss:
  "(\<And>r. r \<in> set (db_outbox s) \<Longrightarrow> \<not> p r) \<Longrightarrow> \<exists>q. exec_update c p f s = (q, s)"
  by (cases "dc_end c") (simp_all add: exec_update_def update_outbox_def update_where_none)

lemma Mark_miss:
  assumes "\<And>r. r \<in> set (db_outbox s) \<Longrightarrow> \<not> (or_id r = i \<and> or_status r = PROCESSING)"
  shows "snd (MarkClose x c i msg s) = s" and "snd (MarkFailed x c i msg t s) = s"
proof -
  obtain q where q: "exec_update c (\<lambda>r. or_id r = i \<and> or_status r = PROCESSING) (set_closed msg) s = (q, s)"
    using exec_update_miss [of s "\<lambda>r. or_id r = i \<and> or_status r = PROCESSING" c "set_closed msg"] assms
    by blast
  then show "snd (MarkClose x c i msg s) = s" by (cases q) (simp_all add: MarkClose_def)
  obtain q where q: "exec_update c (\<lambda>r. or_id r = i \<and> or_status r = PROCESSING) (set_failed msg t) s = (q, s)"
    using exec_update_miss [of s "\<lambda>r. or_id r = i \<and> or_status r = PROCESSING" c "set_failed msg t"] assms
    by blast
  then show "snd (MarkFailed x c i msg t s) = s" by (cases q) (simp_all add: MarkFailed_def Let_def)
qed

lemma failure_miss:
  assumes "wf_db (w_db st)" and "outbox_row_of (oe_id ev) (w_db st) = Some r" and "or_status r \<noteq> PROCESSING"
  shows "w_db (on_publish_failure x w ev err st) = w_db st"
proof -
  have miss: "\<not> (or_id q = oe_id ev \<and> or_status q = PROCESSING)" if "q \<in> set (db_outbox (w_db st))" for q
    using assms that by (auto simp: outbox_row_of_def wf_db_def row_of_Some_iff dest: distinct_key_eq)
  show ?thesis
  proof (cases "oe_attempts ev \<ge> wc_max_retries w")
    case True
    show ?thesis
      using on_publish_failure_close(1) [OF True surjective_pairing] Mark_miss(1) [OF miss] by metis
  next
    case False
    show ?thesis
      using on_publish_failure_retry(1) [OF False surjective_pairing] Mark_miss(2) [OF miss] by metis
  qed
qed

section \<open>The invariant of the locks\<close>

definition locked_row :: "db \<Rightarrow> time \<Rightarrow> outbox_event \<Rightarrow> bool" where
  "locked_row s t ev \<longleftrightarrow> (\<exists>r. outbox_row_of (oe_id ev) s = Some r \<and> or_status r = PENDING \<and>
     or_available_at r \<le> t \<and> claimed_event r = ev)"

definition ids :: "outbox_event list \<Rightarrow> uuid set" where
  "ids evs = set (map oe_id evs)"

definition tx_inv :: "nat \<Rightarrow> 'p cluster \<Rightarrow> bool" where
  "tx_inv n s \<longleftrightarrow> wf_db (cl_db s) \<and>
     (\<forall>i < n. \<forall>t evs. cl_pc s i = Claiming t evs \<longrightarrow>
        distinct (map oe_id evs) \<and> sorted (map oe_created_at evs) \<and> (\<forall>ev \<in> set evs. locked_row (cl_db s) t ev)) \<and>
     (\<forall>i < n. \<forall>j < n. i \<noteq> j \<longrightarrow> ids (tx_events (cl_pc s i)) \<inter> ids (tx_events (cl_pc s j)) = {})"

lemma tx_invD:
  assumes "tx_inv n s" and "i < n" and "cl_pc s i = Claiming t evs"
  shows "distinct (map oe_id evs)" and "distinct evs" and "ev \<in> set evs \<Longrightarrow> locked_row (cl_db s) t ev"
proof -
  show "distinct (map oe_id evs)" and "ev \<in> set evs \<Longrightarrow> locked_row (cl_db s) t ev"
    using assms by (simp_all add: tx_inv_def)
  then show "distinct evs" by (simp add: distinct_map)
qed

lemma locked_by_others_iff:
  "k \<in> set (locked_by_others n i pcs) \<longleftrightarrow> (\<exists>j < n. j \<noteq> i \<and> k \<in> ids (tx_events (pcs j)))"
  by (auto simp: locked_by_others_def ids_def)

text \<open>A worker that leaves its transaction, or one without any, keeps the others' locks.\<close>

lemma tx_inv_leave:
  assumes "tx_inv n s" and "tx_events pc = []" and "cl_db s' = cl_db s" and "cl_pc s' = (cl_pc s)(i := pc)"
  shows "tx_inv n s'"
  using assms by (auto simp: tx_inv_def ids_def)

lemma tx_inv_db:
  assumes "tx_inv n s" and "wf_db (cl_db s')" and "cl_pc s' = cl_pc s"
    and "\<And>k r. outbox_row_of k (cl_db s) = Some r \<Longrightarrow> or_status r = PENDING \<Longrightarrow>
      (\<exists>i < n. k \<in> ids (tx_events (cl_pc s i))) \<Longrightarrow> outbox_row_of k (cl_db s') = Some r"
  shows "tx_inv n s'"
proof -
  have "locked_row (cl_db s') t ev"
    if "i < n" "cl_pc s i = Claiming t evs" "ev \<in> set evs" for i t evs ev
  proof -
    have "locked_row (cl_db s) t ev" using assms(1) that by (simp add: tx_inv_def)
    moreover have "oe_id ev \<in> ids (tx_events (cl_pc s i))" using that by (simp add: ids_def)
    ultimately show ?thesis using assms(4) that(1) unfolding locked_row_def by blast
  qed
  with assms(1-3) show ?thesis by (simp add: tx_inv_def)
qed

lemma commit_moves:
  assumes inv: "tx_inv n s" and i: "i < n" "cl_pc s i = Claiming t evs"
  shows "table_moves t (\<lambda>l. l = Claimed) (cl_db s)
    (update_outbox (\<lambda>r. or_id r \<in> set (map oe_id evs)) (set_processing t) (cl_db s))"
proof (rule update_outbox_moves)
  fix r assume r: "r \<in> set (db_outbox (cl_db s))" "or_id r \<in> set (map oe_id evs)"
  then obtain ev where ev: "ev \<in> set evs" "oe_id ev = or_id r" by auto
  have "locked_row (cl_db s) t ev" by (rule tx_invD(3) [OF inv i ev(1)])
  then obtain q where "outbox_row_of (or_id r) (cl_db s) = Some q" "or_status q = PENDING" "or_available_at q \<le> t"
    using ev(2) by (auto simp: locked_row_def)
  moreover have "outbox_row_of (or_id r) (cl_db s) = Some r"
    using inv r(1) by (simp add: tx_inv_def wf_db_def outbox_row_of_def row_of_Some_iff)
  ultimately show "\<exists>l. l = Claimed \<and> row_step t l r (set_processing t r)"
    by (auto intro: row_step_code(1))
qed

lemma tx_inv_commit:
  assumes inv: "tx_inv n s" and i: "i < n" "cl_pc s i = Claiming t evs" and pc: "tx_events pc = []"
    and s': "cl_db s' = update_outbox (\<lambda>r. or_id r \<in> set (map oe_id evs)) (set_processing t) (cl_db s)"
      "cl_pc s' = (cl_pc s)(i := pc)"
  shows "tx_inv n s'"
proof -
  have wf: "wf_db (cl_db s')"
    using table_moves_wf(1) [OF commit_moves [OF inv i]] inv unfolding s'(1) by (simp add: tx_inv_def)
  have keep: "locked_row (cl_db s') u ev"
    if "j < n" "j \<noteq> i" "cl_pc s j = Claiming u fs" "ev \<in> set fs" for j u fs ev
  proof -
    have "ids (tx_events (cl_pc s j)) \<inter> ids (tx_events (cl_pc s i)) = {}"
      using inv i(1) that(1,2) unfolding tx_inv_def by blast
    then have "oe_id ev \<notin> set (map oe_id evs)" using i that by (auto simp: ids_def)
    then have "outbox_row_of (oe_id ev) (cl_db s') = outbox_row_of (oe_id ev) (cl_db s)"
      unfolding s'(1) by (rule update_ids_row)
    moreover have "locked_row (cl_db s) u ev" using inv that by (simp add: tx_inv_def)
    ultimately show ?thesis unfolding locked_row_def by simp
  qed
  show ?thesis using inv wf keep pc by (auto simp: tx_inv_def s'(2) ids_def)
qed

lemma tx_inv_select:
  assumes inv: "tx_inv n s" and "i < n" and lk: "dc_locked c = locked_by_others n i (cl_pc s)"
    and s': "cl_db s' = cl_db s" "cl_pc s' = (cl_pc s)(i := Claiming (dc_now c)
      (map claimed_event (select_pending c l (db_outbox (cl_db s)))))"
  shows "tx_inv n s'"
proof -
  let ?sel = "select_pending c l (db_outbox (cl_db s))"
  have wf: "wf_db (cl_db s)" using inv by (simp add: tx_inv_def)
  have dist: "distinct (map or_id ?sel)"
    using wf unfolding select_pending_def by (intro distinct_first_by) (simp add: wf_db_def distinct_map_filter)
  have srt: "sorted (map or_created_at ?sel)"
    by (simp add: select_pending_def sorted_first_by)
  have lr: "locked_row (cl_db s) (dc_now c) ev" if ev: "ev \<in> set (map claimed_event ?sel)" for ev
  proof -
    obtain r where r: "r \<in> set ?sel" "ev = claimed_event r" using ev by auto
    then have "r \<in> set (db_outbox (cl_db s))" "eligible c r" by (auto dest: set_select_pending)
    then show ?thesis using wf r(2)
      by (auto simp: locked_row_def eligible_def outbox_row_of_def wf_db_def row_of_Some_iff)
  qed
  have free: "or_id r \<notin> ids (tx_events (cl_pc s j))" if "r \<in> set ?sel" "j < n" "j \<noteq> i" for r j
  proof -
    have "eligible c r" using that(1) by (auto dest: set_select_pending)
    then show ?thesis using that(2,3) lk by (auto simp: eligible_def locked_by_others_iff)
  qed
  have cr: "map oe_created_at (map claimed_event ?sel) = map or_created_at ?sel"
    by (simp add: claimed_event_def scan_row_def)
  have id: "map oe_id (map claimed_event ?sel) = map or_id ?sel" by simp
  have "distinct (map oe_id (map claimed_event ?sel)) \<and> sorted (map oe_created_at (map claimed_event ?sel))"
    unfolding cr id using dist srt by simp
  moreover have "ids (map claimed_event ?sel) \<inter> ids (tx_events (cl_pc s j)) = {}" if "j < n" "j \<noteq> i" for j
    using free that by (auto simp: ids_def)
  ultimately show ?thesis
    using inv lr unfolding tx_inv_def s' by (auto simp del: map_map simp: Int_commute)
qed

lemma tx_inv_settle:
  assumes inv: "tx_inv n s" and i: "i < n" "cl_pc s i = Settling t ev a evs"
    and free: "a = None \<Longrightarrow> oe_id ev \<notin> set (locked_by_others n i (cl_pc s))"
    and st: "w_db st = cl_db s"
    and s': "cl_db s' = w_db (settle x w ev a st)" "cl_pc s' = (cl_pc s)(i := Working t evs)"
  shows "tx_inv n s'"
proof -
  let ?m = "s\<lparr>cl_db := cl_db s'\<rparr>"
  have wf: "wf_db (cl_db s')"
    using inv evolves_frame [OF settle_evolves [of st x w ev a]] st s'(1) by (simp add: tx_inv_def)
  have "tx_inv n ?m"
  proof (rule tx_inv_db [OF inv])
    fix k r assume r: "outbox_row_of k (cl_db s) = Some r" "or_status r = PENDING"
      and lk: "\<exists>j < n. k \<in> ids (tx_events (cl_pc s j))"
    show "outbox_row_of k (cl_db ?m) = Some r"
    proof (cases "k = oe_id ev")
      case True
      have "a \<noteq> None"
      proof
        assume "a = None"
        with free have "oe_id ev \<notin> set (locked_by_others n i (cl_pc s))" by simp
        moreover obtain j where "j < n" "k \<in> ids (tx_events (cl_pc s j))" using lk by blast
        moreover from this i(2) have "j \<noteq> i" by (auto simp: ids_def)
        ultimately show False using True by (auto simp: locked_by_others_iff)
      qed
      then obtain err where a: "a = Some err" by blast
      have "w_db (settle x w ev a st) = cl_db s"
        using failure_miss [of st ev r x w err] inv r st True a by (simp add: settle_def tx_inv_def)
      with r s'(1) show ?thesis by simp
    next
      case False
      then show ?thesis using settle_other [OF False, of x w a st] r st s'(1) by simp
    qed
  qed (use wf in simp_all)
  then show ?thesis by (rule tx_inv_leave) (use s' in simp_all)
qed

lemma tx_inv_step:
  assumes "cl_step x w publish n s s'" and "tx_inv n s" and "sound_columns x"
  shows "tx_inv n s'"
  using assms(1)
proof (cases rule: cl_step.cases)
  case (pass d)
  then show ?thesis using assms(2) by (simp add: tx_inv_def)
next
  case (save c rid ev)
  have "wf_db (cl_db s')"
    using Save_wf [OF assms(3) _ surjective_pairing] assms(2) save by (simp add: tx_inv_def)
  then show ?thesis
    by (rule tx_inv_db [OF assms(2)]) (simp_all add: save Save_rows)
next
  case (reclaim i c)
  have "wf_db (cl_db s')"
    using table_moves_wf(1) [OF ReclaimStale_moves [OF surjective_pairing]] assms(2) reclaim
    by (simp add: tx_inv_def)
  then show ?thesis
  proof (rule tx_inv_db [OF assms(2)])
    fix k r assume "outbox_row_of k (cl_db s) = Some r" "or_status r = PENDING"
    then show "outbox_row_of k (cl_db s') = Some r"
      using ReclaimStale_row [of k "cl_db s" r c "wc_stale_timeout w"] reclaim by (simp add: stale_def)
  qed (simp add: reclaim)
next
  case (claim_select i c)
  show ?thesis
    by (rule tx_inv_select [OF assms(2), where c = c and l = "wc_batch_size w" and i = i])
      (use claim_select in simp_all)
next
  case (claim_commit i t evs)
  show ?thesis
    by (rule tx_inv_commit [OF assms(2) claim_commit(2,3), of "Working t evs"]) (simp_all add: claim_commit)
next
  case (claim_ack_lost i t evs)
  show ?thesis
    by (rule tx_inv_commit [OF assms(2) claim_ack_lost(2,3), of Idle]) (simp_all add: claim_ack_lost)
next
  case (publish i t ev evs answer p')
  then show ?thesis
    by (intro tx_inv_leave [OF assms(2), where i = i and
          pc = "case answer of Some err \<Rightarrow> if is_ctx_error err then Idle else Settling t ev answer evs
                | None \<Rightarrow> Settling t ev answer evs"])
      (auto split: option.splits)
next
  case (settle i t ev answer evs skew c seed)
  show ?thesis
    by (rule tx_inv_settle [OF assms(2) settle(2,3,4), where x = x and w = w and
          st = "settle_world skew c seed s"])
      (simp_all add: settle settle_world_def)
next
  case (finish_batch i t)
  then show ?thesis using tx_inv_leave [OF assms(2), of Idle s' i] by simp
next
  case (crash i)
  then show ?thesis using tx_inv_leave [OF assms(2), of Idle s' i] by simp
qed

lemma tx_inv_init: "wf_db s \<Longrightarrow> tx_inv n (cluster_init s now p)"
  by (simp add: tx_inv_def cluster_init_def ids_def)

lemma tx_inv_reach:
  "cl_reach x w publish n (cluster_init s now p) c \<Longrightarrow> wf_db s \<Longrightarrow> sound_columns x \<Longrightarrow> tx_inv n c"
  by (induction rule: cl_reach.induct) (auto intro: tx_inv_step tx_inv_init)

section \<open>A committed claim is an atomic claim\<close>

text \<open>The call that claims the rows of an open transaction in one step: everything else counts as
  locked.\<close>

definition atomic_call :: "time \<Rightarrow> outbox_event list \<Rightarrow> db \<Rightarrow> db_call" where
  "atomic_call t evs s =
     (quiet_call t)\<lparr>dc_locked := filter (\<lambda>k. k \<notin> ids evs) (map or_id (db_outbox s))\<rparr>"

lemma atomic_call_simps [simp]:
  "dc_now (atomic_call t evs s) = t" "smooth_call (atomic_call t evs s)"
  "dc_end (atomic_call t evs s) = Done"
  by (simp_all add: atomic_call_def quiet_call_def smooth_call_def)

lemma eligible_atomic:
  assumes "tx_inv n s" and "i < n" and "cl_pc s i = Claiming t evs" and "r \<in> set (db_outbox (cl_db s))"
  shows "eligible (atomic_call t evs (cl_db s)) r \<longleftrightarrow> or_id r \<in> ids evs"
    and "or_id r \<in> ids evs \<Longrightarrow> claimed_event r \<in> set evs"
proof -
  have row: "or_status r = PENDING \<and> or_available_at r \<le> t \<and> claimed_event r \<in> set evs"
    if k: "or_id r \<in> ids evs"
  proof -
    obtain ev where ev: "ev \<in> set evs" "oe_id ev = or_id r" using k by (auto simp: ids_def)
    then have "locked_row (cl_db s) t ev" using assms(1-3) by (simp add: tx_inv_def)
    moreover have "outbox_row_of (or_id r) (cl_db s) = Some r"
      using assms(1,4) by (simp add: tx_inv_def wf_db_def outbox_row_of_def row_of_Some_iff)
    ultimately show ?thesis using ev by (auto simp: locked_row_def)
  qed
  then show "eligible (atomic_call t evs (cl_db s)) r \<longleftrightarrow> or_id r \<in> ids evs"
    using assms(4) by (auto simp: eligible_def atomic_call_def)
  show "or_id r \<in> ids evs \<Longrightarrow> claimed_event r \<in> set evs" using row by blast
qed

lemma commit_refines:
  assumes inv: "tx_inv n s" and i: "i < n" "cl_pc s i = Claiming t evs"
    and l: "0 \<le> l" "length evs \<le> nat l"
  shows "\<exists>evs'. ClaimPending (atomic_call t evs (cl_db s)) l (cl_db s) =
      (Inr evs', update_outbox (\<lambda>r. or_id r \<in> set (map oe_id evs)) (set_processing t) (cl_db s)) \<and>
    mset evs' = mset evs"
proof -
  let ?c = "atomic_call t evs (cl_db s)" and ?rows = "db_outbox (cl_db s)"
  let ?F = "filter (eligible ?c) ?rows"
  have wf: "wf_db (cl_db s)" using inv by (simp add: tx_inv_def)
  have elig: "eligible ?c r \<longleftrightarrow> or_id r \<in> ids evs" if "r \<in> set ?rows" for r
    by (rule eligible_atomic(1) [OF inv i that])
  have dF: "distinct (map claimed_event ?F)"
  proof -
    have "distinct (map or_id ?F)" using wf by (simp add: wf_db_def distinct_map_filter)
    then have "distinct (map oe_id (map claimed_event ?F))" by (simp add: comp_def)
    then show ?thesis by (rule distinct_map [THEN iffD1, THEN conjunct1])
  qed
  have "set (map claimed_event ?F) = set evs"
  proof
    show "set (map claimed_event ?F) \<subseteq> set evs"
      using elig eligible_atomic(2) [OF inv i] by auto
    show "set evs \<subseteq> set (map claimed_event ?F)"
    proof
      fix ev assume ev: "ev \<in> set evs"
      then have "locked_row (cl_db s) t ev" using inv i by (simp add: tx_inv_def)
      then obtain r where r: "outbox_row_of (oe_id ev) (cl_db s) = Some r" "claimed_event r = ev"
        by (auto simp: locked_row_def)
      then have "r \<in> set ?rows" "or_id r \<in> ids evs"
        using ev by (auto simp: outbox_row_of_def ids_def dest!: row_of_SomeD)
      then show "ev \<in> set (map claimed_event ?F)" using elig r(2) by force
    qed
  qed
  moreover have "distinct evs"
    by (rule tx_invD(2) [OF inv i])
  ultimately have ms: "mset (map claimed_event ?F) = mset evs"
    using dF by (simp add: set_eq_iff_mset_eq_distinct del: set_map mset_map)
  then have "length ?F = length evs" by (metis length_map size_mset)
  then have sel: "select_pending ?c l ?rows = sort_key or_created_at ?F"
    using l(2) by (simp add: select_pending_def first_by_def)
  have "update_outbox (\<lambda>r. r \<in> set (select_pending ?c l ?rows)) (set_processing t) (cl_db s) =
      update_outbox (\<lambda>r. or_id r \<in> set (map oe_id evs)) (set_processing t) (cl_db s)"
    unfolding update_outbox_def
    by (rule arg_cong [where f = "\<lambda>rows. cl_db s\<lparr>db_outbox := rows\<rparr>"], rule update_where_cong)
      (simp add: sel elig ids_def)
  moreover have "mset (map claimed_event (select_pending ?c l ?rows)) = mset evs"
    unfolding sel using ms by simp
  ultimately show ?thesis
    using ClaimPending_smooth [OF wf atomic_call_simps(2) l(1), of t evs "cl_db s"] by simp
qed

text \<open>A transaction holds no more rows than a batch.\<close>

lemma claim_length:
  "cl_reach x w publish n (cluster_init s0 now p) s \<Longrightarrow> cl_pc s i = Claiming t evs \<Longrightarrow>
   length evs \<le> nat (wc_batch_size w)"
proof (induction arbitrary: t evs rule: cl_reach.induct)
  case (more s s')
  from more.hyps(2) show ?case
    using more.IH more.prems
    by (cases rule: cl_step.cases)
      (auto simp: select_pending_def length_first_by split: if_splits option.splits)
qed (simp add: cluster_init_def)

section \<open>Published means delivered, for the whole cluster\<close>

definition pc_events :: "worker_pc \<Rightarrow> outbox_event list" where
  "pc_events pc = tx_events pc @ hand pc"

definition delivery_inv :: "('p \<Rightarrow> uuid list) \<Rightarrow> nat \<Rightarrow> 'p cluster \<Rightarrow> bool" where
  "delivery_inv delivered n s \<longleftrightarrow>
     published_delivered delivered (cl_pub s) (cl_db s) \<and>
     (\<forall>i < n. \<forall>ev \<in> set (pc_events (cl_pc s i)).
        names_row (cl_db s) ev \<and> oe_id ev \<in> or_id ` set (db_outbox (cl_db s))) \<and>
     (\<forall>i < n. \<forall>t ev evs. cl_pc s i = Settling t ev None evs \<longrightarrow>
        oe_event_id ev \<in> set (delivered (cl_pub s)))"

lemma names_row_Save:
  assumes "names_row s ev" and "oe_id ev \<in> or_id ` set (db_outbox s)"
  shows "names_row (snd (Save x c rid e s)) ev \<and>
    oe_id ev \<in> or_id ` set (db_outbox (snd (Save x c rid e s)))"
  using assms
  by (rule_tac Save_cases [of x c rid e s]) (auto simp: saved_def names_row_def new_outbox_row_def)

lemma published_delivered_Save:
  "published_delivered d p s \<Longrightarrow> published_delivered d p (snd (Save x c rid e s))"
  by (rule Save_cases [of x c rid e s]) (auto simp: saved_def published_delivered_def new_outbox_row_def)

lemma delivery_inv_db:
  assumes "delivery_inv d n s" and "evolves (cl_db s) (cl_db s')"
    and "published_delivered d (cl_pub s) (cl_db s')" and "cl_pub s' = cl_pub s"
    and "\<And>i ev. i < n \<Longrightarrow> ev \<in> set (pc_events (cl_pc s' i)) \<Longrightarrow> \<exists>j < n. ev \<in> set (pc_events (cl_pc s j))"
    and "\<And>i t ev evs. i < n \<Longrightarrow> cl_pc s' i = Settling t ev None evs \<Longrightarrow> cl_pc s i = Settling t ev None evs"
  shows "delivery_inv d n s'"
proof -
  have "map or_id (db_outbox (cl_db s')) = map or_id (db_outbox (cl_db s))"
    using evolves_frame [OF assms(2)]
    by (metis (no_types, lifting) fst_conv map_eq_conv map_map o_apply row_frame_def list.map_cong0)
  then have "or_id ` set (db_outbox (cl_db s')) = or_id ` set (db_outbox (cl_db s))" by (metis set_map)
  with assms show ?thesis
    unfolding delivery_inv_def by (simp add: names_row_evolves [OF assms(2)]) blast
qed

lemma delivery_inv_commit:
  assumes dl: "delivery_inv d n s" and inv: "tx_inv n s" and i: "i < n" "cl_pc s i = Claiming t evs"
    and pc: "pc = Working t evs \<or> pc = Idle"
    and s': "cl_db s' = update_outbox (\<lambda>r. or_id r \<in> set (map oe_id evs)) (set_processing t) (cl_db s)"
      "cl_pub s' = cl_pub s" "cl_pc s' = (cl_pc s)(i := pc)"
  shows "delivery_inv d n s'"
proof (rule delivery_inv_db [OF dl])
  note mv = commit_moves [OF inv i]
  show "evolves (cl_db s) (cl_db s')" unfolding s'(1) by (rule table_moves_evolves [OF mv])
  show "published_delivered d (cl_pub s) (cl_db s')"
    unfolding s'(1) by (rule published_delivered_moves [OF mv]) (use dl in \<open>simp_all add: delivery_inv_def\<close>)
  show "\<exists>j < n. ev \<in> set (pc_events (cl_pc s j))" if "j < n" "ev \<in> set (pc_events (cl_pc s' j))" for j ev
    using that pc i s'(3) by (auto simp: pc_events_def split: if_splits intro!: exI [of _ j])
  show "cl_pc s j = Settling u ev None fs" if "cl_pc s' j = Settling u ev None fs" for j u ev fs
    using that pc s'(3) by (auto split: if_splits)
qed (rule s'(2))

lemma delivery_inv_select:
  assumes dl: "delivery_inv d n s" and wf: "wf_db (cl_db s)"
    and s': "cl_db s' = cl_db s" "cl_pub s' = cl_pub s" "cl_pc s' = (cl_pc s)(i := Claiming (dc_now c)
      (map claimed_event (select_pending c l (db_outbox (cl_db s)))))"
  shows "delivery_inv d n s'"
proof -
  have "names_row (cl_db s) ev \<and> oe_id ev \<in> or_id ` set (db_outbox (cl_db s))"
    if ev: "ev \<in> set (map claimed_event (select_pending c l (db_outbox (cl_db s))))" for ev
  proof -
    obtain r where r: "r \<in> set (select_pending c l (db_outbox (cl_db s)))" "ev = claimed_event r"
      using ev by auto
    then have "r \<in> set (db_outbox (cl_db s))" by (auto dest: set_select_pending)
    then show ?thesis using r(2) wf by (auto simp: names_row_def wf_db_def dest: distinct_key_eq)
  qed
  then show ?thesis using dl unfolding delivery_inv_def s' by (auto simp: pc_events_def)
qed

context outbox_worker
begin

lemma delivery_inv_publish:
  assumes dl: "delivery_inv delivered n s" and i: "i < n" "cl_pc s i = Working t (ev # evs)"
    and pb: "publish (cl_pub s) ev = (answer, p')"
    and s': "cl_db s' = cl_db s" "cl_pub s' = p'"
      "cl_pc s' = (cl_pc s)(i := (case answer of
         Some err \<Rightarrow> if is_ctx_error err then Idle else Settling t ev answer evs
       | None \<Rightarrow> Settling t ev answer evs))"
  shows "delivery_inv delivered n s'"
proof -
  have mono: "set (delivered (cl_pub s)) \<subseteq> set (delivered p')" by (rule publish_mono [OF pb])
  have pc: "cl_pc s' i = Idle \<or> cl_pc s' i = Settling t ev answer evs"
    unfolding s' by (auto split: option.splits)
  have other: "cl_pc s' j = cl_pc s j" if "j \<noteq> i" for j using that unfolding s' by simp
  have "names_row (cl_db s) e \<and> oe_id e \<in> or_id ` set (db_outbox (cl_db s))"
    if "j < n" "e \<in> set (pc_events (cl_pc s' j))" for j e
  proof -
    have "e \<in> set (pc_events (cl_pc s j))"
      using that(2) pc other [of j] i(2) by (cases "j = i") (auto simp: pc_events_def)
    then show ?thesis using dl that(1) by (simp add: delivery_inv_def)
  qed
  moreover have "oe_event_id e \<in> set (delivered p')" if "j < n" "cl_pc s' j = Settling u e None fs" for j u e fs
  proof (cases "j = i")
    case True
    then have "answer = None" "e = ev" using that(2) pc by auto
    then show ?thesis using publish_ack pb by blast
  next
    case False
    then have "oe_event_id e \<in> set (delivered (cl_pub s))"
      using dl that other [of j] by (simp add: delivery_inv_def)
    then show ?thesis using mono by blast
  qed
  moreover have "published_delivered delivered p' (cl_db s)"
    using published_delivered_mono [of delivered "cl_pub s" "cl_db s" p'] mono dl
    by (simp add: delivery_inv_def)
  ultimately show ?thesis unfolding delivery_inv_def s'(1,2) by blast
qed

lemma delivery_inv_settle:
  assumes dl: "delivery_inv delivered n s" and i: "i < n" "cl_pc s i = Settling t ev answer evs"
    and s': "cl_db s' = w_db (settle x w ev answer (settle_world skew c seed s))" "cl_pub s' = cl_pub s"
      "cl_pc s' = (cl_pc s)(i := Working t evs)"
  shows "delivery_inv delivered n s'"
proof (rule delivery_inv_db [OF dl])
  let ?st = "settle_world skew c seed s"
  have st: "w_db ?st = cl_db s" "w_pub ?st = cl_pub s" by (simp_all add: settle_world_def)
  show "evolves (cl_db s) (cl_db s')" using settle_evolves [of ?st] unfolding s' st .
  have pd: "published_delivered delivered (w_pub ?st) (w_db ?st)" using dl by (simp add: delivery_inv_def st)
  have nm: "names_row (w_db ?st) ev"
    using dl i by (simp add: delivery_inv_def st pc_events_def)
  show "published_delivered delivered (cl_pub s) (cl_db s')"
  proof (cases answer)
    case None
    then have "oe_event_id ev \<in> set (delivered (w_pub ?st))"
      using dl i by (simp add: delivery_inv_def st)
    then show ?thesis using success_delivered [OF pd _ nm] None s'(1) st by (simp add: settle_def)
  next
    case (Some err)
    then show ?thesis using failure_delivered [OF pd] s'(1) st by (simp add: settle_def)
  qed
  show "\<exists>k < n. e \<in> set (pc_events (cl_pc s k))" if "j < n" "e \<in> set (pc_events (cl_pc s' j))" for j e
    using that i s'(3) by (auto simp: pc_events_def split: if_splits intro!: exI [of _ j])
  show "cl_pc s j = Settling u e None fs" if "cl_pc s' j = Settling u e None fs" for j u e fs
    using that s'(3) by (auto split: if_splits)
qed (rule s'(2))

lemma delivery_inv_step:
  assumes "cl_step x w publish n s s'" and "tx_inv n s" and "delivery_inv delivered n s"
  shows "delivery_inv delivered n s'"
  using assms(1)
proof (cases rule: cl_step.cases)
  case (pass d)
  then show ?thesis using assms(3) by (simp add: delivery_inv_def)
next
  case (save c rid ev)
  then show ?thesis using assms(3) names_row_Save [of "cl_db s" _ x c rid ev]
      published_delivered_Save [of delivered "cl_pub s" "cl_db s" x c rid ev]
    by (simp add: delivery_inv_def)
next
  case (reclaim i c)
  have mv: "table_moves (dc_now c) (\<lambda>l. l = Reclaimed) (cl_db s) (cl_db s')"
    using ReclaimStale_moves [OF surjective_pairing] reclaim by simp
  show ?thesis
    by (rule delivery_inv_db [OF assms(3) table_moves_evolves [OF mv] published_delivered_moves [OF mv]])
      (use assms(3) reclaim in \<open>auto simp: delivery_inv_def\<close>)
next
  case (claim_select i c)
  then show ?thesis
    using assms(2) by (intro delivery_inv_select [OF assms(3), of s' i c "wc_batch_size w"]) (simp_all add: tx_inv_def)
next
  case (claim_commit i t evs)
  show ?thesis
    by (rule delivery_inv_commit [OF assms(3,2) claim_commit(2,3), of "Working t evs"]) (simp_all add: claim_commit)
next
  case (claim_ack_lost i t evs)
  show ?thesis
    by (rule delivery_inv_commit [OF assms(3,2) claim_ack_lost(2,3), of Idle]) (simp_all add: claim_ack_lost)
next
  case (publish i t ev evs answer p')
  show ?thesis
    by (rule delivery_inv_publish [OF assms(3) publish(2,3,4)]) (simp_all add: publish)
next
  case (settle i t ev answer evs skew c seed)
  show ?thesis
    by (rule delivery_inv_settle [OF assms(3) settle(2,3), where skew = skew and c = c and seed = seed])
      (simp_all add: settle)
next
  case (finish_batch i t)
  then show ?thesis using assms(3) by (simp add: delivery_inv_def pc_events_def)
next
  case (crash i)
  then show ?thesis using assms(3) by (simp add: delivery_inv_def pc_events_def)
qed

lemma delivery_inv_reach:
  assumes "cl_reach x w publish n (cluster_init s0 now p) s" and "wf_db s0" and "sound_columns x"
    and "published_delivered delivered p s0"
  shows "delivery_inv delivered n s"
  using assms(1)
proof (induction rule: cl_reach.induct)
  case here
  then show ?case using assms(4) by (simp add: delivery_inv_def cluster_init_def pc_events_def)
next
  case (more s s')
  then show ?case using delivery_inv_step tx_inv_reach [OF more.hyps(1) assms(2,3)] by blast
qed

lemma cluster_delivered:
  assumes "cl_reach x w publish n (cluster_init s0 now p) s" and "wf_db s0" and "sound_columns x"
    and "published_delivered delivered p s0"
  shows "published_delivered delivered (cl_pub s) (cl_db s)"
  using delivery_inv_reach [OF assms] by (simp add: delivery_inv_def)

end

section \<open>Nothing is lost\<close>

definition extends :: "db \<Rightarrow> db \<Rightarrow> bool" where
  "extends s s' \<longleftrightarrow> (\<exists>new. db_events s' = db_events s @ new) \<and>
     (\<exists>new. map row_frame (db_outbox s') = map row_frame (db_outbox s) @ new)"

lemma extends_refl [simp]: "extends s s"
  by (simp add: extends_def)

lemma extends_trans: "extends s t \<Longrightarrow> extends t u \<Longrightarrow> extends s u"
  by (auto simp: extends_def)

lemma evolves_extends: "evolves s s' \<Longrightarrow> extends s s'"
  using evolves_frame by (simp add: extends_def)

lemma Save_extends: "extends s (snd (Save x c rid ev s))"
  by (rule Save_cases [of x c rid ev s]) (auto simp: saved_def extends_def)

lemma step_db:
  assumes "cl_step x w publish n s s'" and "tx_inv n s"
  obtains (save) c rid ev where "cl_db s' = snd (Save x c rid ev (cl_db s))"
  | (moves) "evolves (cl_db s) (cl_db s')"
  using assms(1)
proof (cases rule: cl_step.cases)
  case (save c rid ev)
  then show thesis using that(1) by simp
next
  case (reclaim i c)
  then show thesis using that(2) table_moves_evolves [OF ReclaimStale_moves [OF surjective_pairing]] by simp
next
  case (claim_commit i t evs)
  then show thesis
    using that(2) table_moves_evolves [OF commit_moves [OF assms(2) claim_commit(2,3)]] by simp
next
  case (claim_ack_lost i t evs)
  then show thesis
    using that(2) table_moves_evolves [OF commit_moves [OF assms(2) claim_ack_lost(2,3)]] by simp
next
  case (settle i t ev answer evs skew c seed)
  then show thesis using that(2) settle_evolves [of "settle_world skew c seed s" x w ev answer]
    by (simp add: settle_world_def)
qed (use that(2) in simp_all)

lemma cluster_extends:
  assumes "cl_reach x w publish n (cluster_init s0 now p) s" and "wf_db s0" and "sound_columns x"
  shows "extends s0 (cl_db s) \<and> (paired s0 \<longrightarrow> paired (cl_db s))"
  using assms(1)
proof (induction rule: cl_reach.induct)
  case here
  then show ?case by (simp add: cluster_init_def)
next
  case (more s s')
  note tx = tx_inv_reach [OF more.hyps(1) assms(2,3)]
  from more.hyps(2) tx show ?case
  proof (cases rule: step_db)
    case (save c rid ev)
    then show ?thesis using more.IH Save_extends [of "cl_db s" x c rid ev] extends_trans
        Save_paired [OF assms(3) _ surjective_pairing, of "cl_db s" c rid ev] by auto
  next
    case moves
    then show ?thesis using more.IH evolves_extends extends_trans evolves_frame by blast
  qed
qed

section \<open>Properties\<close>

text \<open>A run of two workers whose batches hold one event each: both lock, then both commit.\<close>

definition pair_config :: worker_config where
  "pair_config = NewOutboxWorker 5 1 3 1000 60000 30 100"

definition pair_db :: db where
  "pair_db = example_db [(1, 10, PENDING), (2, 5, PENDING)]"

definition pair_event :: "nat \<Rightarrow> outbox_event" where
  "pair_event i = claimed_event (if i = 0 then example_row 2 5 PENDING else example_row 1 10 PENDING)"

definition pair_locked :: "log_publisher cluster" where
  "pair_locked = (cluster_init pair_db 20 [])\<lparr>cl_pc := (\<lambda>_. Idle)
     (0 := Claiming 20 [pair_event 0], 1 := Claiming 20 [pair_event 1])\<rparr>"

lemma pair_wf: "wf_db pair_db" "paired pair_db" "sound_columns plain_externals"
  using trusted_plain by (simp_all add: pair_db_def example_defs paired_def trusted_def)

lemma pair_locked_reach:
  "cl_reach plain_externals pair_config LogPublish 2 (cluster_init pair_db 20 []) pair_locked"
proof -
  let ?s0 = "cluster_init pair_db 20 [] :: log_publisher cluster"
  let ?c1 = "(quiet_call 20)\<lparr>dc_locked := [2]\<rparr>"
  define s1 where "s1 = ?s0\<lparr>cl_pc := (cl_pc ?s0)(0 := Claiming (dc_now (quiet_call 20))
    (map claimed_event (select_pending (quiet_call 20) (wc_batch_size pair_config) (db_outbox (cl_db ?s0)))))\<rparr>"
  have 1: "cl_step plain_externals pair_config LogPublish 2 ?s0 s1"
    unfolding s1_def
    by (rule cl_step.claim_select) (simp_all add: cluster_init_def locked_by_others_def upt_rec)
  have s1: "s1 = ?s0\<lparr>cl_pc := (\<lambda>_. Idle)(0 := Claiming 20 [pair_event 0])\<rparr>"
    by (simp add: s1_def cluster_init_def pair_db_def pair_config_def NewOutboxWorker_def pair_event_def
        select_pending_def first_by_def eligible_def example_db_def example_row_def)
  have 2: "cl_step plain_externals pair_config LogPublish 2 s1
      (s1\<lparr>cl_pc := (cl_pc s1)(1 := Claiming (dc_now ?c1)
        (map claimed_event (select_pending ?c1 (wc_batch_size pair_config) (db_outbox (cl_db s1)))))\<rparr>)"
    by (rule cl_step.claim_select)
      (simp_all add: s1 cluster_init_def locked_by_others_def upt_rec pair_event_def example_row_def
        quiet_call_def)
  have "s1\<lparr>cl_pc := (cl_pc s1)(1 := Claiming (dc_now ?c1)
        (map claimed_event (select_pending ?c1 (wc_batch_size pair_config) (db_outbox (cl_db s1)))))\<rparr> = pair_locked"
    by (simp add: s1 pair_locked_def cluster_init_def pair_db_def pair_config_def NewOutboxWorker_def
        pair_event_def select_pending_def first_by_def eligible_def example_db_def example_row_def
        quiet_call_def)
  then show ?thesis using cl_reach.more [OF cl_reach.more [OF cl_reach.here 1] 2] by simp
qed

text \<open>C8: no event is ever lost.  In every interleaving of the API, any number of workers, crashes,
  lost commits and lost acknowledgements, the events and outbox rows of the start are still
  there, in place and with their identity, type, payload and creation time, and every event has
  its outbox row.\<close>

theorem cluster_loses_nothing:
  assumes "cl_reach x w publish n (cluster_init s0 now p) s" and "wf_db s0" and "paired s0"
    and "sound_columns x"
  shows "wf_db (cl_db s) \<and>
    take (length (db_events s0)) (db_events (cl_db s)) = db_events s0 \<and>
    take (length (db_outbox s0)) (map row_frame (db_outbox (cl_db s))) = map row_frame (db_outbox s0) \<and>
    ev_event_id ` set (db_events (cl_db s)) = or_event_id ` set (db_outbox (cl_db s))"
proof -
  obtain new new' where "db_events (cl_db s) = db_events s0 @ new"
    "map row_frame (db_outbox (cl_db s)) = map row_frame (db_outbox s0) @ new'" "paired (cl_db s)"
    using cluster_extends [OF assms(1,2,4)] assms(3) by (auto simp: extends_def)
  moreover have "wf_db (cl_db s)" using tx_inv_reach [OF assms(1,2,4)] by (simp add: tx_inv_def)
  ultimately show ?thesis by (auto simp: wf_db_def paired_def)
qed

theorem cluster_loses_nothing_witness:
  "wf_db (cl_db pair_locked) \<and>
    take (length (db_events pair_db)) (db_events (cl_db pair_locked)) = db_events pair_db \<and>
    take (length (db_outbox pair_db)) (map row_frame (db_outbox (cl_db pair_locked))) =
      map row_frame (db_outbox pair_db) \<and>
    ev_event_id ` set (db_events (cl_db pair_locked)) = or_event_id ` set (db_outbox (cl_db pair_locked))"
  by (rule cluster_loses_nothing [OF pair_locked_reach pair_wf])

text \<open>C9: the two-step claim is an atomic claim.  In every reachable state the open claim
  transactions hold disjoint rows, and committing one has exactly the effect, on the database
  and up to the order of the answer, of one call of \<open>ClaimPending\<close> made at the transaction's
  time with every other row skipped as locked, whatever the other workers, the API and the
  clock did since its select.\<close>

theorem claim_commit_is_atomic:
  assumes "cl_reach x w publish n (cluster_init s0 now p) s" and "wf_db s0" and "sound_columns x"
    and "0 \<le> wc_batch_size w" and "i < n" and "cl_pc s i = Claiming t evs"
  shows "(\<exists>c evs'. dc_now c = t \<and>
      ClaimPending c (wc_batch_size w) (cl_db s) =
        (Inr evs', update_outbox (\<lambda>r. or_id r \<in> set (map oe_id evs)) (set_processing t) (cl_db s)) \<and>
      mset evs' = mset evs) \<and>
    (\<forall>j < n. j \<noteq> i \<longrightarrow> set (map oe_id evs) \<inter> set (map oe_id (tx_events (cl_pc s j))) = {})"
proof -
  note inv = tx_inv_reach [OF assms(1-3)]
  have "\<exists>evs'. ClaimPending (atomic_call t evs (cl_db s)) (wc_batch_size w) (cl_db s) =
      (Inr evs', update_outbox (\<lambda>r. or_id r \<in> set (map oe_id evs)) (set_processing t) (cl_db s)) \<and>
    mset evs' = mset evs"
    by (rule commit_refines [OF inv assms(5,6,4) claim_length [OF assms(1,6)]])
  moreover have "ids (tx_events (cl_pc s i)) \<inter> ids (tx_events (cl_pc s j)) = {}" if "j < n" "j \<noteq> i" for j
    using inv assms(5) that unfolding tx_inv_def by metis
  ultimately show ?thesis
    using assms(6) unfolding ids_def
    by (intro conjI exI [of _ "atomic_call t evs (cl_db s)"]) auto
qed

theorem claim_commit_is_atomic_witness:
  "(\<exists>c evs'. dc_now c = 20 \<and>
      ClaimPending c (wc_batch_size pair_config) (cl_db pair_locked) =
        (Inr evs', update_outbox (\<lambda>r. or_id r \<in> set (map oe_id [pair_event 1])) (set_processing 20)
          (cl_db pair_locked)) \<and>
      mset evs' = mset [pair_event 1]) \<and>
    set (map oe_id [pair_event 1]) \<inter> set (map oe_id (tx_events (cl_pc pair_locked 0))) = {}"
proof -
  have pc: "cl_pc pair_locked 1 = Claiming 20 [pair_event 1]" by (simp add: pair_locked_def)
  have b: "0 \<le> wc_batch_size pair_config" by (simp add: pair_config_def NewOutboxWorker_def)
  show ?thesis
    using claim_commit_is_atomic [OF pair_locked_reach pair_wf(1,3) b _ pc] by fastforce
qed

text \<open>C7: published means delivered.  In every interleaving of any number of workers over the Kafka
  publisher, with crashes, stale claims and failing calls, every row that reads PUBLISHED stands
  for an event whose message the brokers acknowledged, provided that was so at the start.\<close>

theorem cluster_published_is_delivered:
  assumes "cl_reach x w (KafkaPublish x send) n (cluster_init s0 now p) s" and "wf_db s0"
    and "sound_columns x"
    and "\<forall>r \<in> set (db_outbox s0). or_status r = PUBLISHED \<longrightarrow> or_event_id r \<in> set (map fst (kp_acked p))"
    and "r \<in> set (db_outbox (cl_db s))" and "or_status r = PUBLISHED"
  shows "or_event_id r \<in> set (map fst (kp_acked (cl_pub s)))"
  using kafka_worker.cluster_delivered [OF assms(1-3)] assms(4-6)
  by (simp add: published_delivered_def)

definition ack_writer :: "unit message_writer" where
  "ack_writer v m = (None, 0, v)"

definition solo_db :: db where
  "solo_db = example_db [(1, 10, PENDING)]"

definition solo_event :: outbox_event where
  "solo_event = claimed_event (example_row 1 10 PENDING)"

definition solo_publisher :: "unit kafka_publisher" where
  "solo_publisher = NewPublisherWithWriter () ''events'' NewKafkaMetrics"

lemma locked_by_others_none:
  "(\<And>j. j \<noteq> i \<Longrightarrow> tx_events (pcs j) = []) \<Longrightarrow> locked_by_others n i pcs = []"
  by (auto simp: locked_by_others_def)

text \<open>One worker takes the one event, publishes it and marks its row, over any publisher that
  accepts it: whatever steps are made of the four that it takes.\<close>

lemma solo_steps:
  assumes "publish p0 solo_event = (None, p1)" and "1 \<le> wc_batch_size w"
    and select: "\<And>s c. cl_pc s 0 = Idle \<Longrightarrow> dc_now c \<le> cl_now s \<Longrightarrow> dc_locked c = locked_by_others n 0 (cl_pc s) \<Longrightarrow>
      claim s (s\<lparr>cl_pc := (cl_pc s)(0 := Claiming (dc_now c)
        (map claimed_event (select_pending c (wc_batch_size w) (db_outbox (cl_db s)))))\<rparr>)"
    and commit: "\<And>s t evs. cl_pc s 0 = Claiming t evs \<Longrightarrow> step s (s\<lparr>
      cl_db := update_outbox (\<lambda>r. or_id r \<in> set (map oe_id evs)) (set_processing t) (cl_db s),
      cl_pc := (cl_pc s)(0 := Working t evs)\<rparr>)"
    and publish: "\<And>s t ev evs p'. cl_pc s 0 = Working t (ev # evs) \<Longrightarrow> publish (cl_pub s) ev = (None, p') \<Longrightarrow>
      step s (s\<lparr>cl_pub := p', cl_pc := (cl_pc s)(0 := Settling t ev None evs)\<rparr>)"
    and settle: "\<And>s t ev evs skew c seed. cl_pc s 0 = Settling t ev None evs \<Longrightarrow>
      oe_id ev \<notin> set (locked_by_others n 0 (cl_pc s)) \<Longrightarrow>
      step s (s\<lparr>cl_db := w_db (settle plain_externals w ev None (settle_world skew c seed s)),
        cl_pc := (cl_pc s)(0 := Working t evs)\<rparr>)"
  obtains s1 s2 s3 s r where "claim (cluster_init solo_db 20 p0) s1" and "step s1 s2" and "step s2 s3" and "step s3 s"
    and "\<forall>u \<in> {s1, s2, s3, s}. db_events (cl_db u) = db_events solo_db" and "cl_pub s = p1"
    and "r \<in> set (db_outbox (cl_db s))" and "or_status r = PUBLISHED"
proof -
  define s0 where "s0 = cluster_init solo_db 20 p0"
  define s1 where "s1 = s0\<lparr>cl_pc := (cl_pc s0)(0 := Claiming (dc_now (quiet_call 20))
    (map claimed_event (select_pending (quiet_call 20) (wc_batch_size w) (db_outbox (cl_db s0)))))\<rparr>"
  have 1: "claim s0 s1"
    unfolding s1_def by (rule select) (simp_all add: s0_def cluster_init_def locked_by_others_none)
  have "0 < nat (wc_batch_size w)" using assms(2) by simp
  then have pc1: "cl_pc s1 0 = Claiming 20 [solo_event]" and db1: "cl_db s1 = solo_db"
    by (cases "nat (wc_batch_size w)"; simp add: s1_def s0_def cluster_init_def solo_db_def
        solo_event_def select_pending_def first_by_def eligible_def example_db_def example_row_def)+
  define s2 where "s2 = s1\<lparr>
      cl_db := update_outbox (\<lambda>r. or_id r \<in> set (map oe_id [solo_event])) (set_processing 20) (cl_db s1),
      cl_pc := (cl_pc s1)(0 := Working 20 [solo_event])\<rparr>"
  have 2: "step s1 s2" unfolding s2_def by (rule commit) (simp_all add: pc1)
  have pc2: "cl_pc s2 0 = Working 20 [solo_event]" and pub2: "cl_pub s2 = p0"
    by (simp_all add: s2_def s1_def s0_def cluster_init_def)
  define s3 where "s3 = s2\<lparr>cl_pub := p1, cl_pc := (cl_pc s2)(0 := Settling 20 solo_event None [])\<rparr>"
  have 3: "step s2 s3" unfolding s3_def by (rule publish) (simp_all add: pc2 pub2 assms(1))
  have pc3: "cl_pc s3 0 = Settling 20 solo_event None []" by (simp add: s3_def)
  let ?w = "settle_world 0 (quiet_call 21) 0 s3"
  define s4 where "s4 = s3\<lparr>cl_db := w_db (settle plain_externals w solo_event None ?w),
      cl_pc := (cl_pc s3)(0 := Working 20 [])\<rparr>"
  have "locked_by_others n 0 (cl_pc s3) = []"
    by (simp add: locked_by_others_none s3_def s2_def s1_def s0_def cluster_init_def)
  then have 4: "step s3 s4" unfolding s4_def by (intro settle [OF pc3]) simp
  have db3: "cl_db s3 = update_outbox (\<lambda>r. or_id r = 1) (set_processing 20) solo_db"
    by (simp add: s3_def s2_def db1 solo_event_def example_row_def)
  have row: "outbox_row_of (oe_id solo_event) (w_db ?w) = Some (set_processing 20 (example_row 1 10 PENDING))"
  proof -
    have "outbox_row_of 1 solo_db = Some (example_row 1 10 PENDING)"
      by (simp add: outbox_row_of_def solo_db_def example_db_def example_row_def)
    moreover have "oe_id solo_event = 1" "or_id (example_row 1 10 PENDING) = 1"
      by (simp_all add: solo_event_def example_row_def)
    ultimately show ?thesis by (simp add: settle_world_def db3 outbox_row_of_update)
  qed
  have "dc_end (fst (next_call ?w)) = Done" and wf: "wf_db (w_db ?w)"
    by (simp_all add: next_call_def settle_world_def db3 wf_db_def update_outbox_def update_where_def
        solo_db_def example_db_def example_row_def example_event_def set_processing_def)
  note ans = MarkPublished_answer [OF wf this(1), of plain_externals "oe_id solo_event"]
  have db4: "cl_db s4 = update_outbox (\<lambda>r. or_id r = oe_id solo_event)
      (set_published (dc_now (fst (next_call ?w)))) (w_db ?w)"
    using ans(2) row by (simp add: s4_def settle_def on_publish_success_marks(1) [OF surjective_pairing])
  then have "\<exists>r. outbox_row_of (oe_id solo_event) (cl_db s4) = Some r \<and> or_status r = PUBLISHED"
    using row by (simp add: outbox_row_of_update set_published_def solo_event_def set_processing_def example_row_def)
  then obtain r where "r \<in> set (db_outbox (cl_db s4))" "or_status r = PUBLISHED"
    by (auto simp: outbox_row_of_def dest: row_of_SomeD)
  moreover have "\<forall>u \<in> {s1, s2, s3, s4}. db_events (cl_db u) = db_events solo_db"
    by (simp add: db1 s2_def s3_def db4 update_outbox_def settle_world_def)
  moreover have "cl_pub s4 = p1" by (simp add: s4_def s3_def)
  ultimately show thesis by (intro that [OF 1 [unfolded s0_def] 2 3 4])
qed

lemma solo_run:
  assumes "publish p0 solo_event = (None, p1)" and "0 < n" and "1 \<le> wc_batch_size w"
  shows "\<exists>s r. worker_reach plain_externals w publish n (cluster_init solo_db 20 p0) s \<and> cl_pub s = p1 \<and>
    r \<in> set (db_outbox (cl_db s)) \<and> or_status r = PUBLISHED"
proof -
  let ?step = "cl_step plain_externals w publish n"
  have pub: "?step s (s\<lparr>cl_pub := p', cl_pc := (cl_pc s)(0 := Settling t ev None evs)\<rparr>)"
    if "cl_pc s 0 = Working t (ev # evs)" "publish (cl_pub s) ev = (None, p')" for s t ev evs p'
    using cl_step.publish [where publish = publish, OF assms(2) that, where x = plain_externals and w = w] by simp
  have mark: "?step s (s\<lparr>cl_db := w_db (settle plain_externals w ev None (settle_world skew c seed s)),
      cl_pc := (cl_pc s)(0 := Working t evs)\<rparr>)"
    if "cl_pc s 0 = Settling t ev None evs" "oe_id ev \<notin> set (locked_by_others n 0 (cl_pc s))" for s t ev evs skew c seed
    by (rule cl_step.settle [OF assms(2) that(1)]) (use that(2) in simp)
  obtain s1 s2 s3 s r where st: "?step (cluster_init solo_db 20 p0) s1" "?step s1 s2" "?step s2 s3" "?step s3 s"
    and ev: "\<forall>u \<in> {s1, s2, s3, s}. db_events (cl_db u) = db_events solo_db" and pub': "cl_pub s = p1"
    and row: "r \<in> set (db_outbox (cl_db s))" "or_status r = PUBLISHED"
    apply (rule solo_steps [where claim = ?step and step = ?step and n = n and w = w and publish = publish, OF assms(1,3)])
    subgoal by (rule cl_step.claim_select [OF assms(2)])
    subgoal by (rule cl_step.claim_commit [OF assms(2)])
    subgoal by (rule pub)
    subgoal by (rule mark)
    subgoal by (rule that)
    done
  have e: "db_events (cl_db s1) = db_events (cl_db (cluster_init solo_db 20 p0))"
    "db_events (cl_db s2) = db_events (cl_db s1)" "db_events (cl_db s3) = db_events (cl_db s2)"
    "db_events (cl_db s) = db_events (cl_db s3)"
    using ev by (simp_all add: cluster_init_def)
  have "worker_reach plain_externals w publish n (cluster_init solo_db 20 p0) s"
    by (rule worker_reach.more [OF worker_reach.more [OF worker_reach.more [OF worker_reach.more
      [OF worker_reach.here st(1) e(1)] st(2) e(2)] st(3) e(3)] st(4) e(4)])
  then show ?thesis using pub' row by blast
qed

lemma solo_kafka: "\<exists>p. KafkaPublish plain_externals ack_writer solo_publisher solo_event = (None, p)"
proof -
  have "json_valid (oe_payload solo_event)"
    unfolding solo_event_def claimed_event_simps example_row_def by simp code_simp
  then have "fst (KafkaPublish plain_externals ack_writer solo_publisher solo_event) = None"
    unfolding KafkaPublish_nil_iff by (simp add: ack_writer_def solo_event_def example_row_def)
  then show ?thesis by (cases "KafkaPublish plain_externals ack_writer solo_publisher solo_event") simp
qed

theorem cluster_published_is_delivered_witness:
  "\<exists>s r. r \<in> set (db_outbox (cl_db s)) \<and> or_status r = PUBLISHED \<and>
    cl_reach plain_externals pair_config (KafkaPublish plain_externals ack_writer) 1
      (cluster_init solo_db 20 solo_publisher) s \<and>
    or_event_id r \<in> set (map fst (kp_acked (cl_pub s)))"
proof -
  obtain p where p: "KafkaPublish plain_externals ack_writer solo_publisher solo_event = (None, p)"
    using solo_kafka by blast
  have "1 \<le> wc_batch_size pair_config" by (simp add: pair_config_def NewOutboxWorker_def)
  from solo_run [where publish = "KafkaPublish plain_externals ack_writer" and n = 1, OF p _ this]
  obtain s r where w: "worker_reach plain_externals pair_config (KafkaPublish plain_externals ack_writer) 1
        (cluster_init solo_db 20 solo_publisher) s"
      and r: "r \<in> set (db_outbox (cl_db s))" "or_status r = PUBLISHED"
    by auto
  note s = worker_reach_cl_reach [OF w] r
  have "or_event_id r \<in> set (map fst (kp_acked (cl_pub s)))"
    by (rule cluster_published_is_delivered [OF s(1) _ pair_wf(3) _ s(2,3)])
      (auto simp: solo_db_def example_defs)
  with s show ?thesis by blast
qed

end
