(* ===== verification/Cluster_Timely.thy ===== *)
theory Cluster_Timely
  imports Cluster
begin

text \<open>
  Workers that keep the schedule: as long as every worker is done with an event before its
  claim is older than the stale timeout, a claim is exclusive.  The batches in the hands of two
  workers are disjoint, each event in a hand still is the row as it was claimed, and the attempts
  of a row never exceed the configured number of retries.  Without the schedule none of this
  holds: the marks are guarded by the status, not by the claim.
\<close>

definition timely :: "worker_config \<Rightarrow> nat \<Rightarrow> 'p cluster \<Rightarrow> bool" where
  "timely w n s \<longleftrightarrow>
     (\<forall>i < n. \<forall>t. hand_time (cl_pc s i) = Some t \<longrightarrow> cl_now s < t + wc_stale_timeout w)"

inductive timely_reach ::
  "externals \<Rightarrow> worker_config \<Rightarrow> 'p publisher \<Rightarrow> nat \<Rightarrow> 'p cluster \<Rightarrow> 'p cluster \<Rightarrow> bool"
  for x w publish n s0
where
  here: "timely_reach x w publish n s0 s0"
| more: "timely_reach x w publish n s0 s \<Longrightarrow> cl_step x w publish n s s' \<Longrightarrow> timely w n s' \<Longrightarrow>
    timely_reach x w publish n s0 s'"

lemma timely_reach_reach: "timely_reach x w publish n s0 s \<Longrightarrow> cl_reach x w publish n s0 s"
  by (induction rule: timely_reach.induct) (auto intro: cl_reach.intros)

lemma timely_reach_timely:
  "timely_reach x w publish n (cluster_init s0 now p) s \<Longrightarrow> timely w n s"
  by (induction rule: timely_reach.induct) (simp_all add: timely_def cluster_init_def)

section \<open>The hands\<close>

definition held_row :: "db \<Rightarrow> time \<Rightarrow> outbox_event \<Rightarrow> bool" where
  "held_row s t ev \<longleftrightarrow> (\<exists>r. outbox_row_of (oe_id ev) s = Some r \<and> or_status r = PROCESSING \<and>
     or_processing_at r = Some t \<and> or_attempts r = oe_attempts ev)"

definition hand_inv :: "nat \<Rightarrow> 'p cluster \<Rightarrow> bool" where
  "hand_inv n s \<longleftrightarrow>
     (\<forall>i < n. \<forall>t. hand_time (cl_pc s i) = Some t \<longrightarrow>
        distinct (map oe_id (hand (cl_pc s i))) \<and>
        (\<forall>ev \<in> set (hand (cl_pc s i)). held_row (cl_db s) t ev)) \<and>
     (\<forall>i < n. \<forall>j < n. i \<noteq> j \<longrightarrow> ids (hand (cl_pc s i)) \<inter> ids (hand (cl_pc s j)) = {})"

lemma hand_time_None: "hand_time pc = None \<Longrightarrow> hand pc = []"
  by (cases pc) simp_all

lemma hand_invD:
  assumes "hand_inv n s" and "i < n" and "hand_time (cl_pc s i) = Some t"
  shows "distinct (map oe_id (hand (cl_pc s i)))"
    and "ev \<in> set (hand (cl_pc s i)) \<Longrightarrow> held_row (cl_db s) t ev"
    and "j < n \<Longrightarrow> i \<noteq> j \<Longrightarrow> ids (hand (cl_pc s i)) \<inter> ids (hand (cl_pc s j)) = {}"
  using assms by (simp_all add: hand_inv_def)

text \<open>A change of the database that leaves the rows in hand alone keeps the invariant.\<close>

lemma hand_inv_keep:
  assumes inv: "hand_inv n s" and "cl_pc s' = cl_pc s"
    and keep: "\<And>i t k r. i < n \<Longrightarrow> hand_time (cl_pc s i) = Some t \<Longrightarrow> k \<in> ids (hand (cl_pc s i)) \<Longrightarrow>
      outbox_row_of k (cl_db s) = Some r \<Longrightarrow> or_status r = PROCESSING \<Longrightarrow> or_processing_at r = Some t \<Longrightarrow>
      outbox_row_of k (cl_db s') = Some r"
  shows "hand_inv n s'"
proof -
  have "held_row (cl_db s') t ev"
    if h: "i < n" "hand_time (cl_pc s i) = Some t" "ev \<in> set (hand (cl_pc s i))" for i t ev
  proof -
    obtain r where "outbox_row_of (oe_id ev) (cl_db s) = Some r" "or_status r = PROCESSING"
      "or_processing_at r = Some t" "or_attempts r = oe_attempts ev"
      using hand_invD(2) [OF inv h] by (auto simp: held_row_def)
    moreover have "oe_id ev \<in> ids (hand (cl_pc s i))" using h(3) by (simp add: ids_def)
    ultimately show ?thesis using keep [OF h(1,2)] by (auto simp: held_row_def)
  qed
  then show ?thesis using inv assms(2) by (simp add: hand_inv_def)
qed

text \<open>A worker whose hand shrinks, or empties, keeps it, too.\<close>

lemma hand_inv_shrink:
  assumes inv: "hand_inv n s" and "i < n" and s': "cl_db s' = cl_db s" "cl_pc s' = (cl_pc s)(i := pc)"
    and t: "\<And>t. hand_time pc = Some t \<Longrightarrow> hand_time (cl_pc s i) = Some t"
    and sub: "set (hand pc) \<subseteq> set (hand (cl_pc s i))"
    and dist: "distinct (map oe_id (hand (cl_pc s i))) \<Longrightarrow> distinct (map oe_id (hand pc))"
  shows "hand_inv n s'"
proof -
  have sub': "ids (hand pc) \<subseteq> ids (hand (cl_pc s i))" using sub by (auto simp: ids_def)
  have "distinct (map oe_id (hand (cl_pc s' j))) \<and> (\<forall>ev \<in> set (hand (cl_pc s' j)). held_row (cl_db s') u ev)"
    if "j < n" "hand_time (cl_pc s' j) = Some u" for j u
  proof (cases "j = i")
    case True
    then have u: "hand_time (cl_pc s i) = Some u" using that(2) t s'(2) by simp
    show ?thesis
      using hand_invD(1,2) [OF inv assms(2) u] dist sub True s' by auto
  next
    case False
    then have u: "hand_time (cl_pc s j) = Some u" using that(2) s'(2) by simp
    show ?thesis using hand_invD(1,2) [OF inv that(1) u] False s' by simp
  qed
  moreover have "ids (hand (cl_pc s' j)) \<inter> ids (hand (cl_pc s' k)) = {}"
    if "j < n" "k < n" "j \<noteq> k" for j k
  proof -
    have d: "ids (hand (cl_pc s j)) \<inter> ids (hand (cl_pc s k)) = {}"
      using inv that by (simp add: hand_inv_def)
    have "ids (hand (cl_pc s' l)) \<subseteq> ids (hand (cl_pc s l))" for l
      using sub' s'(2) by (cases "l = i") simp_all
    with d show ?thesis by blast
  qed
  ultimately show ?thesis unfolding hand_inv_def by blast
qed

text \<open>A commit: the rows were locked, so nobody had them in hand.\<close>

lemma hand_inv_commit:
  assumes inv: "hand_inv n s" and tx: "tx_inv n s" and i: "i < n" "cl_pc s i = Claiming t evs"
    and pc: "pc = Working t evs \<or> pc = Idle"
    and s': "cl_db s' = update_outbox (\<lambda>r. or_id r \<in> set (map oe_id evs)) (set_processing t) (cl_db s)"
      "cl_pc s' = (cl_pc s)(i := pc)"
  shows "hand_inv n s'"
proof -
  have free: "k \<notin> set (map oe_id evs)" if k: "j < n" "k \<in> ids (hand (cl_pc s j))" for j k
  proof
    assume "k \<in> set (map oe_id evs)"
    then obtain ev where ev: "ev \<in> set evs" "oe_id ev = k" by auto
    obtain r where r: "outbox_row_of k (cl_db s) = Some r" "or_status r = PENDING"
      using tx_invD(3) [OF tx i ev(1)] ev(2) by (auto simp: locked_row_def)
    obtain u where u: "hand_time (cl_pc s j) = Some u"
      using k(2) hand_time_None [of "cl_pc s j"] by (cases "hand_time (cl_pc s j)") (auto simp: ids_def)
    obtain e where e: "e \<in> set (hand (cl_pc s j))" "oe_id e = k" using k(2) by (auto simp: ids_def)
    have "held_row (cl_db s) u e" by (rule hand_invD(2) [OF inv k(1) u e(1)])
    then show False using r e(2) by (auto simp: held_row_def)
  qed
  have row: "outbox_row_of k (cl_db s') = outbox_row_of k (cl_db s)" if "j < n" "k \<in> ids (hand (cl_pc s j))" for j k
    unfolding s'(1) by (rule update_ids_row) (rule free [OF that])
  have new: "held_row (cl_db s') t ev" if ev: "ev \<in> set evs" for ev
  proof -
    obtain r where r: "outbox_row_of (oe_id ev) (cl_db s) = Some r" "claimed_event r = ev"
      using tx_invD(3) [OF tx i ev] by (auto simp: locked_row_def)
    have "outbox_row_of (oe_id ev) (cl_db s') = Some (set_processing t r)"
      unfolding s'(1) by (rule update_ids_row_in) (use ev r in auto)
    then show ?thesis using r(2) by (auto simp: held_row_def set_processing_def)
  qed
  have empty: "hand (cl_pc s i) = []" using i(2) by simp
  have "distinct (map oe_id (hand (cl_pc s' j))) \<and> (\<forall>ev \<in> set (hand (cl_pc s' j)). held_row (cl_db s') u ev)"
    if h: "j < n" "hand_time (cl_pc s' j) = Some u" for j u
  proof (cases "j = i")
    case True
    then have "cl_pc s' i = Working t evs" "u = t" using h(2) pc s'(2) by auto
    then show ?thesis using tx_invD(1) [OF tx i] new True by simp
  next
    case False
    then have u: "hand_time (cl_pc s j) = Some u" using h(2) s'(2) by simp
    have "held_row (cl_db s') u ev" if "ev \<in> set (hand (cl_pc s j))" for ev
      using hand_invD(2) [OF inv h(1) u that] row [OF h(1), of "oe_id ev"] that
      by (simp add: held_row_def ids_def)
    then show ?thesis using hand_invD(1) [OF inv h(1) u] False s'(2) by simp
  qed
  moreover have "ids (hand (cl_pc s' j)) \<inter> ids (hand (cl_pc s' k)) = {}" if jk: "j < n" "k < n" "j \<noteq> k" for j k
  proof -
    have other: "ids (hand (cl_pc s' l)) = ids (hand (cl_pc s l))" if "l \<noteq> i" for l using that s'(2) by simp
    have mine: "ids (hand (cl_pc s' i)) \<subseteq> set (map oe_id evs)" using pc s'(2) by (auto simp: ids_def)
    have "ids (hand (cl_pc s' l)) \<inter> set (map oe_id evs) = {}" if "l < n" "l \<noteq> i" for l
      using other [OF that(2)] free [OF that(1)] by blast
    moreover have "ids (hand (cl_pc s j)) \<inter> ids (hand (cl_pc s k)) = {}"
      using inv jk by (simp add: hand_inv_def)
    ultimately show ?thesis using jk other mine by (cases "j = i"; cases "k = i") blast+
  qed
  ultimately show ?thesis unfolding hand_inv_def by blast
qed

lemma hand_inv_settle:
  assumes inv: "hand_inv n s" and i: "i < n" "cl_pc s i = Settling t ev a evs"
    and st: "w_db st = cl_db s"
    and s': "cl_db s' = w_db (settle x w ev a st)" "cl_pc s' = (cl_pc s)(i := Working t evs)"
  shows "hand_inv n s'"
proof -
  let ?m = "s\<lparr>cl_pc := (cl_pc s)(i := Working t evs)\<rparr>"
  have m: "hand_inv n ?m"
    by (rule hand_inv_shrink [OF inv i(1)]) (use i in auto)
  have ne: "oe_id ev \<notin> ids (hand (cl_pc ?m j))" if "j < n" for j
  proof (cases "j = i")
    case True
    then show ?thesis using hand_invD(1) [OF inv i(1), of t] i(2) by (simp add: ids_def)
  next
    case False
    then have "ids (hand (cl_pc s i)) \<inter> ids (hand (cl_pc s j)) = {}"
      using inv i(1) that unfolding hand_inv_def by metis
    then show ?thesis using False i(2) by (auto simp: ids_def)
  qed
  show ?thesis
  proof (rule hand_inv_keep [OF m])
    show "cl_pc s' = cl_pc ?m" using s'(2) by simp
    fix j u k r
    assume "j < n" "k \<in> ids (hand (cl_pc ?m j))" "outbox_row_of k (cl_db ?m) = Some r"
    moreover from this have "k \<noteq> oe_id ev" using ne by blast
    ultimately show "outbox_row_of k (cl_db s') = Some r"
      unfolding s'(1) using settle_other [of k ev x w a st] st by simp
  qed
qed

lemma hand_inv_step:
  assumes "cl_step x w publish n s s'" and "hand_inv n s" and "tx_inv n s" and "timely w n s"
  shows "hand_inv n s'"
  using assms(1)
proof (cases rule: cl_step.cases)
  case (pass d)
  then show ?thesis using assms(2) by (simp add: hand_inv_def)
next
  case (save c rid ev)
  show ?thesis by (rule hand_inv_keep [OF assms(2)]) (simp_all add: save Save_rows)
next
  case (reclaim i c)
  show ?thesis
  proof (rule hand_inv_keep [OF assms(2)])
    fix j t k r
    assume "j < n" "hand_time (cl_pc s j) = Some t" and r: "outbox_row_of k (cl_db s) = Some r"
      "or_processing_at r = Some t"
    then have "cl_now s < t + wc_stale_timeout w" using assms(4) by (simp add: timely_def)
    then have "\<not> stale c (wc_stale_timeout w) r" using reclaim r(2) by (simp add: stale_def)
    then show "outbox_row_of k (cl_db s') = Some r" using ReclaimStale_row [OF r(1)] reclaim by simp
  qed (simp add: reclaim)
next
  case (claim_select i c)
  then show ?thesis
    by (intro hand_inv_shrink [OF assms(2), where i = i and s' = s']) (auto simp: claim_select)
next
  case (claim_commit i t evs)
  show ?thesis
    by (rule hand_inv_commit [OF assms(2,3) claim_commit(2,3), of "Working t evs"]) (simp_all add: claim_commit)
next
  case (claim_ack_lost i t evs)
  show ?thesis
    by (rule hand_inv_commit [OF assms(2,3) claim_ack_lost(2,3), of Idle]) (simp_all add: claim_ack_lost)
next
  case (publish i t ev evs answer p')
  then show ?thesis
    by (intro hand_inv_shrink [OF assms(2), where i = i and s' = s' and
          pc = "case answer of Some err \<Rightarrow> if is_ctx_error err then Idle else Settling t ev answer evs
                | None \<Rightarrow> Settling t ev answer evs"])
      (auto split: option.splits if_splits)
next
  case (settle i t ev answer evs skew c seed)
  show ?thesis
    by (rule hand_inv_settle [OF assms(2) settle(2,3), where x = x and w = w and
          st = "settle_world skew c seed s"])
      (simp_all add: settle settle_world_def)
next
  case (finish_batch i t)
  then show ?thesis by (intro hand_inv_shrink [OF assms(2), where i = i and s' = s' and pc = Idle]) auto
next
  case (crash i)
  then show ?thesis by (intro hand_inv_shrink [OF assms(2), where i = i and s' = s' and pc = Idle]) auto
qed

lemma hand_inv_reach:
  assumes "timely_reach x w publish n (cluster_init s0 now p) s" and "wf_db s0" and "sound_columns x"
  shows "hand_inv n s"
  using assms(1)
proof (induction rule: timely_reach.induct)
  case here
  then show ?case by (simp add: hand_inv_def cluster_init_def ids_def)
next
  case (more s s')
  show ?case
    by (rule hand_inv_step [OF more.hyps(2) more.IH tx_inv_reach [OF timely_reach_reach [OF more.hyps(1)] assms(2,3)]
          timely_reach_timely [OF more.hyps(1)]])
qed

section \<open>The attempts of a row\<close>

definition attempts_inv :: "worker_config \<Rightarrow> db \<Rightarrow> bool" where
  "attempts_inv w s \<longleftrightarrow> (\<forall>k r. outbox_row_of k s = Some r \<longrightarrow>
     or_attempts r \<le> wc_max_retries w \<and>
     (or_status r = CLOSE \<longrightarrow> or_attempts r = wc_max_retries w \<and> or_last_error r \<noteq> None))"

lemma attempts_invD:
  assumes "attempts_inv w s" and "outbox_row_of k s = Some r"
  shows "or_attempts r \<le> wc_max_retries w"
    and "or_status r = CLOSE \<Longrightarrow> or_attempts r = wc_max_retries w \<and> or_last_error r \<noteq> None"
  using assms by (auto simp: attempts_inv_def)

lemma attempts_inv_moves:
  assumes "attempts_inv w s" and "table_moves now L s s'"
    and "\<And>l. L l \<Longrightarrow> l = Claimed \<or> l = Reclaimed \<or> l = Published"
  shows "attempts_inv w s'"
  unfolding attempts_inv_def
proof (intro allI impI)
  fix k r' assume r': "outbox_row_of k s' = Some r'"
  obtain r where r: "outbox_row_of k s = Some r" "row_moves now L r r'"
    using table_moves_row [OF assms(2), of k] r' by (auto elim: option.rel_cases)
  show "or_attempts r' \<le> wc_max_retries w \<and>
      (or_status r' = CLOSE \<longrightarrow> or_attempts r' = wc_max_retries w \<and> or_last_error r' \<noteq> None)"
    using r(2) attempts_invD [OF assms(1) r(1)] assms(3)
    by (auto simp: row_moves_def row_writers elim!: row_stepE)
qed

lemma attempts_inv_save:
  assumes "attempts_inv w s" and "0 \<le> wc_max_retries w"
  shows "attempts_inv w (snd (Save x c rid ev s))"
proof -
  have "attempts_inv w s'" if "saved x c rid ev s s'" for s'
    using assms that
    by (auto simp: attempts_inv_def saved_def outbox_row_of_def row_of_append new_outbox_row_def
        split: option.splits if_splits)
  then show ?thesis by (rule_tac Save_cases [of x c rid ev s]) (use assms(1) in auto)
qed

lemma attempts_inv_failure:
  assumes inv: "attempts_inv w (w_db st)" and held: "held_row (w_db st) t ev"
  shows "attempts_inv w (w_db (on_publish_failure x w ev err st))"
  unfolding attempts_inv_def
proof (intro allI impI)
  fix k r' assume r': "outbox_row_of k (w_db (on_publish_failure x w ev err st)) = Some r'"
  obtain r where r: "outbox_row_of k (w_db st) = Some r" "row_moves 0 (failure_label w ev err) r r'"
    using table_moves_row [OF on_publish_failure_moves [of 0 w ev err st x], of k] r'
    by (auto elim: option.rel_cases)
  show "or_attempts r' \<le> wc_max_retries w \<and>
      (or_status r' = CLOSE \<longrightarrow> or_attempts r' = wc_max_retries w \<and> or_last_error r' \<noteq> None)"
  proof (cases "k = oe_id ev")
    case True
    then have a: "or_attempts r = oe_attempts ev" using held r(1) by (auto simp: held_row_def)
    show ?thesis
      using r(2) a attempts_invD [OF inv r(1)]
      by (auto simp: row_moves_def failure_label_def row_writers split: if_splits elim!: row_stepE)
  next
    case False
    then have "r' = r" using on_publish_failure_other [OF False, of x w err st] r(1) r' by simp
    then show ?thesis using attempts_invD [OF inv r(1)] by blast
  qed
qed

lemma attempts_inv_step:
  assumes "cl_step x w publish n s s'" and "attempts_inv w (cl_db s)" and "tx_inv n s" and "hand_inv n s"
    and "0 \<le> wc_max_retries w"
  shows "attempts_inv w (cl_db s')"
  using assms(1)
proof (cases rule: cl_step.cases)
  case (save c rid ev)
  then show ?thesis using attempts_inv_save [OF assms(2,5)] by simp
next
  case (reclaim i c)
  then show ?thesis
    using attempts_inv_moves [OF assms(2) ReclaimStale_moves [OF surjective_pairing]] by simp
next
  case (claim_commit i t evs)
  then show ?thesis using attempts_inv_moves [OF assms(2) commit_moves [OF assms(3) claim_commit(2,3)]] by simp
next
  case (claim_ack_lost i t evs)
  then show ?thesis using attempts_inv_moves [OF assms(2) commit_moves [OF assms(3) claim_ack_lost(2,3)]] by simp
next
  case (settle i t ev answer evs skew c seed)
  let ?st = "settle_world skew c seed s"
  have st: "w_db ?st = cl_db s" by (simp add: settle_world_def)
  have "held_row (cl_db s) t ev"
    by (rule hand_invD(2) [OF assms(4) settle(2)]) (simp_all add: settle(3))
  then have f: "attempts_inv w (w_db (on_publish_failure x w ev err ?st))" for err
    using attempts_inv_failure [of w ?st t ev x err] assms(2) st by simp
  obtain now where "table_moves now (\<lambda>l. l = Published) (cl_db s) (w_db (on_publish_success x ev ?st))"
    using on_publish_success_moves [of ?st x ev] st by auto
  then have "attempts_inv w (w_db (on_publish_success x ev ?st))"
    by (rule attempts_inv_moves [OF assms(2)]) simp
  with f settle(1) show ?thesis by (cases answer) (simp_all add: settle_def)
qed (use assms(2) in simp_all)

lemma attempts_inv_reach:
  assumes "timely_reach x w publish n (cluster_init s0 now p) s" and "wf_db s0" and "sound_columns x"
    and "attempts_inv w s0" and "0 \<le> wc_max_retries w"
  shows "attempts_inv w (cl_db s)"
  using assms(1)
proof (induction rule: timely_reach.induct)
  case here
  then show ?case using assms(4) by (simp add: cluster_init_def)
next
  case (more s s')
  show ?case
    by (rule attempts_inv_step [OF more.hyps(2) more.IH
          tx_inv_reach [OF timely_reach_reach [OF more.hyps(1)] assms(2,3)]
          hand_inv_reach [OF more.hyps(1) assms(2,3)] assms(5)])
qed

section \<open>Properties\<close>

definition pair_working :: "log_publisher cluster" where
  "pair_working =
     \<lparr>cl_db = update_outbox (\<lambda>r. or_id r \<in> set (map oe_id [pair_event 1])) (set_processing 20)
        (update_outbox (\<lambda>r. or_id r \<in> set (map oe_id [pair_event 0])) (set_processing 20) pair_db),
      cl_now = 20, cl_pub = [],
      cl_pc = (\<lambda>_. Idle)(0 := Working 20 [pair_event 0], 1 := Working 20 [pair_event 1])\<rparr>"

lemma reach_timely_reach:
  "cl_reach x w publish n s0 s \<Longrightarrow> (\<And>s. cl_reach x w publish n s0 s \<Longrightarrow> timely w n s) \<Longrightarrow>
   timely_reach x w publish n s0 s"
  by (induction rule: cl_reach.induct) (auto intro: timely_reach.intros cl_reach.more)

lemma pair_working_reach:
  "timely_reach plain_externals pair_config LogPublish 2 (cluster_init pair_db 20 []) pair_working"
proof -
  let ?step = "cl_step plain_externals pair_config LogPublish 2"
  let ?s0 = "cluster_init pair_db 20 [] :: log_publisher cluster"
  let ?c1 = "(quiet_call 20)\<lparr>dc_locked := [2]\<rparr>"
  have tm: "timely pair_config 2 s"
    if "cl_now s = 20" "\<And>i t. hand_time (cl_pc s i) = Some t \<Longrightarrow> t = 20" for s :: "log_publisher cluster"
    using that by (auto simp: timely_def pair_config_def NewOutboxWorker_def)
  define s1 where "s1 = ?s0\<lparr>cl_pc := (cl_pc ?s0)(0 := Claiming (dc_now (quiet_call 20))
    (map claimed_event (select_pending (quiet_call 20) (wc_batch_size pair_config) (db_outbox (cl_db ?s0)))))\<rparr>"
  have 1: "?step ?s0 s1"
    unfolding s1_def
    by (rule cl_step.claim_select) (simp_all add: cluster_init_def locked_by_others_def upt_rec)
  have s1: "s1 = ?s0\<lparr>cl_pc := (\<lambda>_. Idle)(0 := Claiming 20 [pair_event 0])\<rparr>"
    by (simp add: s1_def cluster_init_def pair_db_def pair_config_def NewOutboxWorker_def pair_event_def
        select_pending_def first_by_def eligible_def example_db_def example_row_def)
  define s2 where "s2 = s1\<lparr>cl_pc := (cl_pc s1)(1 := Claiming (dc_now ?c1)
    (map claimed_event (select_pending ?c1 (wc_batch_size pair_config) (db_outbox (cl_db s1)))))\<rparr>"
  have 2: "?step s1 s2"
    unfolding s2_def
    by (rule cl_step.claim_select)
      (simp_all add: s1 cluster_init_def locked_by_others_def upt_rec pair_event_def example_row_def
        quiet_call_def)
  have s2: "s2 = pair_locked"
    by (simp add: s2_def s1 pair_locked_def cluster_init_def pair_db_def pair_config_def NewOutboxWorker_def
        pair_event_def select_pending_def first_by_def eligible_def example_db_def example_row_def
        quiet_call_def)
  define s3 where "s3 = s2\<lparr>
      cl_db := update_outbox (\<lambda>r. or_id r \<in> set (map oe_id [pair_event 0])) (set_processing 20) (cl_db s2),
      cl_pc := (cl_pc s2)(0 := Working 20 [pair_event 0])\<rparr>"
  have 3: "?step s2 s3"
    unfolding s3_def by (rule cl_step.claim_commit) (simp_all add: s2 pair_locked_def)
  define s4 where "s4 = s3\<lparr>
      cl_db := update_outbox (\<lambda>r. or_id r \<in> set (map oe_id [pair_event 1])) (set_processing 20) (cl_db s3),
      cl_pc := (cl_pc s3)(1 := Working 20 [pair_event 1])\<rparr>"
  have 4: "?step s3 s4"
    unfolding s4_def by (rule cl_step.claim_commit) (simp_all add: s3_def s2 pair_locked_def)
  have s4: "s4 = pair_working"
    by (simp add: s4_def s3_def s2 pair_locked_def pair_working_def cluster_init_def fun_upd_twist)
  have t1: "timely pair_config 2 s1" by (rule tm) (auto simp: s1 cluster_init_def split: if_splits)
  have t2: "timely pair_config 2 s2" by (rule tm) (auto simp: s2 pair_locked_def cluster_init_def split: if_splits)
  have t3: "timely pair_config 2 s3"
    by (rule tm) (auto simp: s3_def s2 pair_locked_def cluster_init_def split: if_splits)
  have t4: "timely pair_config 2 s4" by (rule tm) (auto simp: s4 pair_working_def split: if_splits)
  show ?thesis
    using timely_reach.more [OF timely_reach.more [OF timely_reach.more [OF timely_reach.more
      [OF timely_reach.here 1 t1] 2 t2] 3 t3] 4 t4] s4 by simp
qed

text \<open>C10: claims are exclusive.  As long as no worker keeps an event beyond the stale timeout of its
  claim, no event is ever in the hands of two workers, and each event in a hand is still a
  PROCESSING row stamped with that worker's claim and with the attempts it was claimed with.\<close>

theorem timely_claims_exclusive:
  assumes "timely_reach x w publish n (cluster_init s0 now p) s" and "wf_db s0" and "sound_columns x"
    and "i < n" and "ev \<in> set (hand (cl_pc s i))"
  shows "(\<exists>r t. outbox_row_of (oe_id ev) (cl_db s) = Some r \<and> hand_time (cl_pc s i) = Some t \<and>
      or_status r = PROCESSING \<and> or_processing_at r = Some t \<and> or_attempts r = oe_attempts ev) \<and>
    (\<forall>j < n. j \<noteq> i \<longrightarrow> oe_id ev \<notin> oe_id ` set (hand (cl_pc s j)))"
proof -
  note inv = hand_inv_reach [OF assms(1-3)]
  obtain t where t: "hand_time (cl_pc s i) = Some t"
    using assms(5) hand_time_None [of "cl_pc s i"] by fastforce
  have "held_row (cl_db s) t ev" by (rule hand_invD(2) [OF inv assms(4) t assms(5)])
  moreover have "oe_id ev \<notin> oe_id ` set (hand (cl_pc s j))" if "j < n" "j \<noteq> i" for j
    using hand_invD(3) [OF inv assms(4) t that(1)] that(2) assms(5) by (auto simp: ids_def)
  ultimately show ?thesis using t by (auto simp: held_row_def)
qed

theorem timely_claims_exclusive_witness:
  "(\<exists>r t. outbox_row_of (oe_id (pair_event 0)) (cl_db pair_working) = Some r \<and>
      hand_time (cl_pc pair_working 0) = Some t \<and> or_status r = PROCESSING \<and>
      or_processing_at r = Some t \<and> or_attempts r = oe_attempts (pair_event 0)) \<and>
   oe_id (pair_event 0) \<notin> oe_id ` set (hand (cl_pc pair_working 1))"
proof -
  have "pair_event 0 \<in> set (hand (cl_pc pair_working 0))" by (simp add: pair_working_def)
  from timely_claims_exclusive [OF pair_working_reach pair_wf(1,3) _ this] show ?thesis by simp
qed

text \<open>C11: retries are bounded.  Under the same schedule no row ever has more attempts than the
  configured number of retries, and a row is closed only with all of them used up and with the
  last error recorded.\<close>

theorem timely_attempts_bounded:
  assumes "timely_reach x w publish n (cluster_init s0 now p) s" and "wf_db s0" and "sound_columns x"
    and "0 \<le> wc_max_retries w"
    and "\<forall>r \<in> set (db_outbox s0). or_status r = PENDING \<and> or_attempts r = 0"
    and "r \<in> set (db_outbox (cl_db s))"
  shows "or_attempts r \<le> wc_max_retries w \<and>
    (or_status r = CLOSE \<longrightarrow> or_attempts r = wc_max_retries w \<and> or_last_error r \<noteq> None)"
proof -
  have "attempts_inv w s0"
    using assms(4,5) by (auto simp: attempts_inv_def outbox_row_of_def dest!: row_of_SomeD)
  then have "attempts_inv w (cl_db s)" by (rule attempts_inv_reach [OF assms(1-3) _ assms(4)])
  moreover have "outbox_row_of (or_id r) (cl_db s) = Some r"
    using tx_inv_reach [OF timely_reach_reach [OF assms(1)] assms(2,3)] assms(6)
    by (simp add: tx_inv_def wf_db_def outbox_row_of_def row_of_Some_iff)
  ultimately show ?thesis using attempts_invD by blast
qed

theorem timely_attempts_bounded_witness:
  "or_attempts (set_processing 20 (example_row 1 10 PENDING)) \<le> wc_max_retries pair_config"
proof -
  have m: "set_processing 20 (example_row 1 10 PENDING) \<in> set (db_outbox (cl_db pair_working))"
    by (simp add: pair_working_def update_outbox_def update_where_def pair_db_def example_db_def
        pair_event_def example_row_def set_processing_def)
  show ?thesis
    by (rule timely_attempts_bounded [OF pair_working_reach pair_wf(1,3) _ _ m, THEN conjunct1])
      (auto simp: pair_config_def NewOutboxWorker_def pair_db_def example_db_def example_row_def)
qed







end
