(* ===== verification/Service.thy ===== *)
theory Service
  imports Http Json_Valid Cluster_Timely
begin

text \<open>
  The program as a whole: the API and any number of workers on one database and one publisher.
  A step is a request served by the router or a step of the workers.  Every run of the service
  is a run of the cluster, whose theorems therefore hold of it; what the API's own code adds is
  shown here: only well-formed payloads reach the publisher, and an accepted event is kept and,
  once its row reads PUBLISHED, delivered.
\<close>

section \<open>Steps of the service\<close>

inductive service_step ::
  "externals \<Rightarrow> worker_config \<Rightarrow> 'p publisher \<Rightarrow> nat \<Rightarrow> (string \<Rightarrow> int \<Rightarrow> event_schema option) \<Rightarrow>
   'b http_codec \<Rightarrow> 'p cluster \<Rightarrow> 'p cluster \<Rightarrow> bool"
  for x :: externals and w :: worker_config and publish :: "'p publisher" and n :: nat
    and get :: "string \<Rightarrow> int \<Rightarrow> event_schema option" and k :: "'b http_codec"
where
  api: "NewRouter x get conv k pool_ping (pool :: unit option) fresh q r (cl_db s) = (wire, t) \<Longrightarrow>
    service_step x w publish n get k s (s\<lparr>cl_db := t\<rparr>)"
| worker: "cl_step x w publish n s s' \<Longrightarrow> db_events (cl_db s') = db_events (cl_db s) \<Longrightarrow>
    service_step x w publish n get k s s'"

inductive service_reach ::
  "externals \<Rightarrow> worker_config \<Rightarrow> 'p publisher \<Rightarrow> nat \<Rightarrow> (string \<Rightarrow> int \<Rightarrow> event_schema option) \<Rightarrow>
   'b http_codec \<Rightarrow> 'p cluster \<Rightarrow> 'p cluster \<Rightarrow> bool"
  for x w publish n get k s0
where
  here: "service_reach x w publish n get k s0 s0"
| more: "service_reach x w publish n get k s0 s \<Longrightarrow> service_step x w publish n get k s s' \<Longrightarrow>
    service_reach x w publish n get k s0 s'"

lemma service_reach_trans:
  assumes "service_reach x w publish n get k s t" and "service_reach x w publish n get k r s"
  shows "service_reach x w publish n get k r t"
  using assms by (induction rule: service_reach.induct) (auto intro: service_reach.more)

text \<open>A request changes the database by one call of \<open>Save\<close> at most, for an event made
  from the bound request.\<close>

lemma handle_request_db:
  assumes "handle_request x get q s = (res, t)"
  shows "t = s \<or> t = snd (Save x (rq_save_call q) (rq_row_id q) (event_of_command (rq_id q) (rq_command q)) s)"
  using assms by (auto simp: handle_request_def Handle_admission split: option.splits prod.splits if_splits sum.splits)

lemma NewRouter_db:
  assumes "NewRouter x get conv k pool_ping pool fresh q r s = (wire, t)"
  obtains "t = s"
  | req where "decode_body k (hq_body r) = Inr req" and "binding_ok req"
      and "t = snd (Save x (rq_save_call q) (rq_row_id q) (event_of_command (rq_id q) (command_of_request req)) s)"
proof -
  obtain resp where "Ingest_handler x get conv k q (hq_body r) s = (resp, t) \<or> t = s"
    using assms
    by (auto simp: NewRouter_def RequestID_def Let_def split: prod.splits option.splits endpoint.splits)
  then consider "t = s" | "Ingest_handler x get conv k q (hq_body r) s = (resp, t)" by blast
  then show thesis
  proof cases
    case 2
    then show thesis
    proof (cases rule: Ingest_handler_cases)
      case (failed req err)
      then show thesis using that handle_request_db [OF failed(2)]
        by (auto simp: ShouldBindJSON_def split: sum.splits if_splits)
    next
      case (answered req res)
      then show thesis using that handle_request_db [OF answered(2)]
        by (auto simp: ShouldBindJSON_def split: sum.splits if_splits)
    qed (rule that(1))
  qed (rule that(1))
qed

lemma service_step_cl_step: "service_step x w publish n get k s s' \<Longrightarrow> cl_step x w publish n s s'"
proof (induction rule: service_step.induct)
  case (api conv pool_ping pool fresh q r s wire t)
  then show ?case
    by (cases rule: NewRouter_db) (auto intro: cl_step_stay cl_step.save)
qed

lemma service_reach_cl_reach:
  "service_reach x w publish n get k s0 s \<Longrightarrow> cl_reach x w publish n s0 s"
  by (induction rule: service_reach.induct) (auto intro: cl_reach.intros dest: service_step_cl_step)

lemma worker_reach_service:
  "worker_reach x w publish n s0 s \<Longrightarrow> service_reach x w publish n get k s0 s"
  by (induction rule: worker_reach.induct) (auto intro: service_reach.intros service_step.worker)

section \<open>Payloads are well formed\<close>

text \<open>The decoder, like the scanner, refuses a body that nests too deep, so the values of the
  properties, which stand inside two objects, nest two levels less.\<close>

definition decoder_depth :: "'b http_codec \<Rightarrow> bool" where
  "decoder_depth k \<longleftrightarrow> (\<forall>body req kvs. decode_body k body = Inr req \<longrightarrow> ier_properties req = Some kvs \<longrightarrow>
     list_all (\<lambda>kv. fits 9998 (snd kv)) kvs)"

definition payload_ok :: "db \<Rightarrow> bool" where
  "payload_ok s \<longleftrightarrow> (\<forall>r \<in> set (db_outbox s). json_valid (or_payload r))"

lemma outbox_payload_fits:
  "ev_properties ev = Some kvs \<Longrightarrow> list_all (\<lambda>kv. fits n (snd kv)) kvs \<Longrightarrow> fits (Suc (Suc n)) (outbox_payload ev)"
  by (simp add: outbox_payload_def properties_value_def)

lemma Save_payload_ok:
  assumes "payload_ok s" and "json_texts x" and "ev_properties ev = Some kvs"
    and "list_all (\<lambda>kv. fits 9998 (snd kv)) kvs"
  shows "payload_ok (snd (Save x c rid ev s))"
proof -
  have "payload_ok s'" if sv: "saved x c rid ev s s'" for s'
  proof -
    obtain j p where j: "json_marshal x (outbox_payload ev) = Inr j" "x_pg_payload x j = Some p"
      "db_outbox s' = db_outbox s @ [new_outbox_row c rid ev p]"
      using sv by (auto simp: saved_def)
    have "json_valid j"
      by (rule marshal_valid [OF j(1) assms(2) outbox_payload_fits [OF assms(3,4)]])
        (simp add: maxNestingDepth_def)
    then have "json_valid p" using assms(2) j(2) by (simp add: json_texts_def)
    with assms(1) j(3) show ?thesis by (simp add: payload_ok_def new_outbox_row_def)
  qed
  then show ?thesis using assms(1) by (rule_tac Save_cases [of x c rid ev s]) auto
qed

lemma frame_payload_ok:
  assumes "payload_ok s" and "map row_frame (db_outbox s') = map row_frame (db_outbox s)"
  shows "payload_ok s'"
proof -
  have "row_frame r \<in> row_frame ` set (db_outbox s)" if "r \<in> set (db_outbox s')" for r
    using that assms(2) by (metis image_eqI list.set_map)
  then show ?thesis using assms(1) by (fastforce simp: payload_ok_def row_frame_def)
qed

definition payload_inv :: "nat \<Rightarrow> 'p cluster \<Rightarrow> bool" where
  "payload_inv n s \<longleftrightarrow> payload_ok (cl_db s) \<and>
     (\<forall>i < n. \<forall>ev \<in> set (pc_events (cl_pc s i)). json_valid (oe_payload ev))"

text \<open>What a worker holds next is what it holds already, or what it selects from the table.\<close>

lemma cl_step_events:
  assumes "cl_step x w publish n s s'" and "ev \<in> set (pc_events (cl_pc s' i))" and "i < n"
  shows "ev \<in> set (pc_events (cl_pc s i)) \<or> (\<exists>r \<in> set (db_outbox (cl_db s)). ev = claimed_event r)"
  using assms(1)
proof (cases rule: cl_step.cases)
  case (claim_select j c)
  then show ?thesis using assms(2) by (auto simp: pc_events_def split: if_splits dest: set_select_pending)
qed (use assms(2) in \<open>auto simp: pc_events_def split: if_splits option.splits\<close>)

lemma payload_inv_step:
  assumes "service_step x w publish n get k s s'" and "payload_inv n s" and "tx_inv n s"
    and "json_texts x" and "decoder_depth k"
  shows "payload_inv n s'"
proof -
  have db: "payload_ok (cl_db s')"
    using assms(1)
  proof (cases rule: service_step.cases)
    case (api conv pool_ping pool fresh q r wire t)
    from api(2) show ?thesis
    proof (cases rule: NewRouter_db)
      case 1
      then show ?thesis using assms(2) api(1) by (simp add: payload_inv_def)
    next
      case (2 req)
      then obtain kvs where kvs: "ier_properties req = Some kvs" by (auto simp: binding_ok_def)
      then have "list_all (\<lambda>kv. fits 9998 (snd kv)) kvs" using assms(5) 2 by (simp add: decoder_depth_def)
      then show ?thesis
        using Save_payload_ok [OF _ assms(4), of "cl_db s"] kvs assms(2) 2 api(1)
        by (simp add: payload_inv_def event_of_command_def command_of_request_def)
    qed
  next
    case worker
    from worker(1) assms(3) show ?thesis
    proof (cases rule: step_db)
      case (save c rid ev)
      have "cl_db s' = cl_db s"
        by (rule Save_cases [of x c rid ev "cl_db s"]) (use save worker(2) in \<open>auto simp: saved_def\<close>)
      then show ?thesis using assms(2) by (simp add: payload_inv_def)
    next
      case moves
      show ?thesis by (rule frame_payload_ok [OF _ evolves_frame [OF moves, THEN conjunct2, THEN conjunct1]]) (use assms(2) in \<open>simp add: payload_inv_def\<close>)
    qed
  qed
  moreover have "json_valid (oe_payload ev)" if "i < n" "ev \<in> set (pc_events (cl_pc s' i))" for i ev
    using cl_step_events [OF service_step_cl_step [OF assms(1)] that(2,1)] assms(2) that(1)
    by (auto simp: payload_inv_def payload_ok_def)
  ultimately show ?thesis by (simp add: payload_inv_def)
qed

lemma payload_inv_reach:
  assumes "service_reach x w publish n get k (cluster_init s0 now p) s" and "wf_db s0" and "sound_columns x"
    and "json_texts x" and "decoder_depth k" and "payload_ok s0"
  shows "payload_inv n s"
  using assms(1)
proof (induction rule: service_reach.induct)
  case here
  then show ?case using assms(6) by (simp add: payload_inv_def cluster_init_def pc_events_def)
next
  case (more s s')
  show ?case
    by (rule payload_inv_step [OF more.hyps(2) more.IH
          tx_inv_reach [OF service_reach_cl_reach [OF more.hyps(1)] assms(2,3)] assms(4,5)])
qed

section \<open>Accepted events stay\<close>

lemma service_extends:
  assumes "service_reach x w publish n get k s s'" and "tx_inv n s" and "sound_columns x"
  shows "extends (cl_db s) (cl_db s') \<and> tx_inv n s'"
  using assms(1)
proof (induction rule: service_reach.induct)
  case here
  then show ?case using assms(2) by simp
next
  case (more t s')
  note st = service_step_cl_step [OF more.hyps(2)]
  have "extends (cl_db t) (cl_db s')"
    using st more.IH [THEN conjunct2]
    by (cases rule: step_db) (simp_all add: Save_extends evolves_extends)
  moreover have "tx_inv n s'" using tx_inv_step [OF st] more.IH assms(3) by blast
  ultimately show ?case using more.IH extends_trans by blast
qed

lemma handle_request_step:
  assumes "handle_request x get q (cl_db s) = (answer, t)"
  shows "cl_step x w publish n s (s\<lparr>cl_db := t\<rparr>)"
  using handle_request_db [OF assms] by (auto intro: cl_step_stay cl_step.save)

lemma EventBody_stored:
  assumes "NewRouter x get conv k pool_ping pool fresh q r s = (wire, t)"
    and "resp_body (wr_response wire) = EventBody er"
    and "trusted x" and "wf_db s" and "foreign_call (rq_save_call q)"
  shows "er_event_id er \<in> ev_event_id ` set (db_events t)"
proof -
  have "Ingest_handler x get conv k q (hq_body r) s = (wr_response wire, t)"
    using assms(1,2)
    by (auto simp: NewRouter_def RequestID_def Let_def Health_def Ready_def
        split: prod.splits option.splits endpoint.splits if_splits)
  then show ?thesis
  proof (cases rule: Ingest_handler_cases)
    case (answered req res)
    have "er = fromEvent (ir_event res)" using answered(3) assms(2) by simp
    then have "er_event_id er = ev_event_id (ir_event res)" by (simp add: fromEvent_def)
    then show ?thesis
      using ingest_outcomes [OF assms(3,4) _ answered(2)] assms(5)
      by (auto split: if_splits intro: rev_image_eqI)
  qed (use assms(2) in \<open>auto simp: writeError_def split: prod.splits\<close>)
qed

section \<open>Properties\<close>

text \<open>C13: no accepted event is refused for its payload.  In every state of the service, whatever the
  requests, the interleaving and the failures, the answer of the Kafka publisher to an event in
  a worker's hand is the writer's answer alone: the payload is never empty and always well-formed
  JSON.\<close>

theorem service_payloads_publishable:
  assumes "service_reach x w publish n get k (cluster_init s0 now p0) s" and "wf_db s0" and "sound_columns x"
    and "json_texts x" and "decoder_depth k" and "\<forall>r \<in> set (db_outbox s0). json_valid (or_payload r)"
    and "i < n" and "ev \<in> set (hand (cl_pc s i))"
  shows "fst (KafkaPublish x send p ev) =
    (case fst (send (kp_writer p) (message_of x ev)) of
       None \<Rightarrow> None
     | Some err \<Rightarrow> Some (if is_ctx_error err then err
                          else wrapf (''kafka publish to '' @ kp_topic p @ '': '') err))"
proof -
  have "payload_inv n s"
    by (rule payload_inv_reach [OF assms(1-5)]) (use assms(6) in \<open>simp add: payload_ok_def\<close>)
  then have v: "json_valid (oe_payload ev)" using assms(7,8) by (auto simp: payload_inv_def pc_events_def)
  moreover have "\<not> json_valid []" by code_simp
  ultimately have "oe_payload ev \<noteq> []" by metis
  with v show ?thesis
    by (simp add: KafkaPublish_def Let_def split: prod.splits option.splits)
qed

definition bounded_codec :: "ingest_event_request http_codec" where
  "bounded_codec = plain_codec\<lparr>decode_body := (\<lambda>req.
     if (case ier_properties req of None \<Rightarrow> True | Some kvs \<Rightarrow> list_all (\<lambda>kv. fits 9998 (snd kv)) kvs)
     then Inr req else Inl (ErrorString ''exceeded max depth''))\<rparr>"

lemma decoder_depth_bounded: "decoder_depth bounded_codec"
  by (auto simp: decoder_depth_def bounded_codec_def split: if_splits)

lemma json_texts_plain: "json_texts plain_externals"
proof -
  have "scan_number ''0'' = Some []" by code_simp
  then show ?thesis by (auto simp: json_texts_def plain_externals_def)
qed

definition solo_working :: "log_publisher cluster" where
  "solo_working =
     \<lparr>cl_db = update_outbox (\<lambda>r. or_id r \<in> set (map oe_id [solo_event])) (set_processing 20) solo_db,
      cl_now = 20, cl_pub = [], cl_pc = (\<lambda>_. Idle)(0 := Working 20 [solo_event])\<rparr>"

lemma solo_working_reach:
  "service_reach plain_externals pair_config LogPublish 1 get k (cluster_init solo_db 20 []) solo_working"
proof -
  let ?step = "service_step plain_externals pair_config LogPublish 1 get k"
  let ?s0 = "cluster_init solo_db 20 [] :: log_publisher cluster"
  define s1 where "s1 = ?s0\<lparr>cl_pc := (cl_pc ?s0)(0 := Claiming (dc_now (quiet_call 20))
    (map claimed_event (select_pending (quiet_call 20) (wc_batch_size pair_config) (db_outbox (cl_db ?s0)))))\<rparr>"
  have 1: "?step ?s0 s1"
    unfolding s1_def
    by (rule service_step.worker, rule cl_step.claim_select)
      (simp_all add: cluster_init_def locked_by_others_def)
  have pc1: "s1 = ?s0\<lparr>cl_pc := (\<lambda>_. Idle)(0 := Claiming 20 [solo_event])\<rparr>"
    by (simp add: s1_def cluster_init_def solo_db_def pair_config_def NewOutboxWorker_def
        solo_event_def select_pending_def first_by_def eligible_def example_db_def example_row_def)
  have 2: "?step s1 (s1\<lparr>
      cl_db := update_outbox (\<lambda>r. or_id r \<in> set (map oe_id [solo_event])) (set_processing 20) (cl_db s1),
      cl_pc := (cl_pc s1)(0 := Working 20 [solo_event])\<rparr>)"
    by (rule service_step.worker, rule cl_step.claim_commit) (simp_all add: pc1 update_outbox_def)
  show ?thesis
    using service_reach.more [OF service_reach.more [OF service_reach.here 1] 2]
    by (simp add: pc1 solo_working_def cluster_init_def)
qed

theorem service_payloads_publishable_witness:
  "fst (KafkaPublish plain_externals ack_writer solo_publisher solo_event) =
    (case fst (ack_writer (kp_writer solo_publisher) (message_of plain_externals solo_event)) of
       None \<Rightarrow> None
     | Some err \<Rightarrow> Some (if is_ctx_error err then err
                          else wrapf (''kafka publish to '' @ kp_topic solo_publisher @ '': '') err))"
proof (rule service_payloads_publishable [OF solo_working_reach _ pair_wf(3) json_texts_plain decoder_depth_bounded])
  show "wf_db solo_db" by (simp add: solo_db_def example_defs)
  have "json_valid (or_payload (example_row 1 10 PENDING))" unfolding example_row_def by simp code_simp
  then show "\<forall>r \<in> set (db_outbox solo_db). json_valid (or_payload r)"
    by (simp add: solo_db_def example_db_def)
  show "solo_event \<in> set (hand (cl_pc solo_working 0))" by (simp add: solo_working_def)
qed simp

text \<open>C4: ingestion is idempotent.  Once a request was answered with an event, created or found, some
  event stored then stands for its identifier: the one shown, or the created one as the columns
  hold it.  Whatever the service does next (further requests, claims, publishes, marks, crashes,
  failing calls), a later request for the same identifier, with whatever other fields and
  whatever its database calls do, changes nothing and, if it is answered with an event, gets this
  stored event, not created; and it is so answered when the command is admissible, its columns
  accept its values, and its two database calls go through.\<close>

theorem ingest_idempotent:
  assumes "service_reach x w publish n get k (cluster_init s0 now p) s" and "trusted x" and "wf_db s0"
    and "foreign_call (rq_save_call q)" and "handle_request x get q (cl_db s) = (Inr r, t)"
    and "service_reach x w publish n get k (s\<lparr>cl_db := t\<rparr>) s'"
    and "cmd_event_id (rq_command q') = cmd_event_id (rq_command q)"
  shows "\<exists>stored \<in> set (db_events t). ev_event_id stored = cmd_event_id (rq_command q) \<and>
    (if ir_created r
     then \<exists>row. x_pg_event x (ir_event r) = Some row \<and> stored = row\<lparr>ev_created_at := dc_now (rq_save_call q)\<rparr>
     else ir_event r = stored) \<and>
    (let (answer, t') = handle_request x get q' (cl_db s') in
       t' = cl_db s' \<and>
       (\<forall>r'. answer = Inr r' \<longrightarrow> r' = \<lparr>ir_event = stored, ir_created = False\<rparr>) \<and>
       (admission get (rq_command q') = None \<and>
        x_pg_event x (event_of_command (rq_id q') (rq_command q')) \<noteq> None \<and>
        smooth_call (rq_save_call q') \<and> smooth_call (rq_find_call q') \<longrightarrow>
          answer = Inr \<lparr>ir_event = stored, ir_created = False\<rparr>))"
proof -
  have sc: "sound_columns x" using assms(2) by (simp add: trusted_def)
  note tx = tx_inv_reach [OF service_reach_cl_reach [OF assms(1)] assms(3) sc]
  have "tx_inv n (s\<lparr>cl_db := t\<rparr>)"
    by (rule tx_inv_step [OF handle_request_step [OF assms(5), of w publish n] tx sc])
  from service_extends [OF assms(6) this sc] have ext: "extends t (cl_db s')" and wf: "wf_db (cl_db s')"
    by (simp_all add: tx_inv_def)
  have "wf_db (cl_db s)" using tx by (simp add: tx_inv_def)
  from answered_stored [OF assms(2) this assms(4,5)] obtain ev where ev: "ev \<in> set (db_events t)"
    "ev_event_id ev = cmd_event_id (rq_command q)" "if ir_created r
     then \<exists>row. x_pg_event x (ir_event r) = Some row \<and> ev = row\<lparr>ev_created_at := dc_now (rq_save_call q)\<rparr>
     else ir_event r = ev" by blast
  have kept: "ev \<in> set (db_events (cl_db s'))" using ext ev(1) by (auto simp: extends_def)
  have same: "ev_event_id ev = cmd_event_id (rq_command q')" using ev(2) assms(7) by simp
  obtain answer t' where h: "handle_request x get q' (cl_db s') = (answer, t')" by fastforce
  note later = repeated_request [OF assms(2) wf kept same h]
  show ?thesis
    unfolding h Let_def prod.case
    by (rule bexI [OF _ ev(1)], intro conjI, rule ev(2), rule ev(3), rule later(1))
      (use later(2) in blast, use later(3) in blast)
qed

theorem ingest_idempotent_witness:
  "\<exists>stored. ev_event_id stored = 7 \<and>
    fst (handle_request plain_externals search_only (request_example 4)
      (snd (handle_request plain_externals search_only (request_example 3) empty_db))) =
    Inr \<lparr>ir_event = stored, ir_created = False\<rparr>"
proof -
  let ?s = "cluster_init empty_db 20 [] :: log_publisher cluster"
  let ?h = "handle_request plain_externals search_only (request_example 3) (cl_db ?s)"
  have h: "?h = (Inr \<lparr>ir_event = event_of_command 3 (command_example 1), ir_created = True\<rparr>, snd ?h)"
    using handle_example by (simp add: cluster_init_def prod_eq_iff)
  have f: "foreign_call (rq_save_call (request_example 3))"
    "cmd_event_id (rq_command (request_example 4)) = cmd_event_id (rq_command (request_example 3))"
    "wf_db empty_db" by (simp_all add: request_example_def wf_db_def empty_db_def)
  from ingest_idempotent [OF service_reach.here trusted_plain f(3) f(1) h service_reach.here f(2)]
  obtain stored where stored: "ev_event_id stored = cmd_event_id (rq_command (request_example 3))"
    "admission search_only (rq_command (request_example 4)) = None \<and>
        x_pg_event plain_externals (event_of_command (rq_id (request_example 4)) (rq_command (request_example 4))) \<noteq> None \<and>
        smooth_call (rq_save_call (request_example 4)) \<and> smooth_call (rq_find_call (request_example 4)) \<longrightarrow>
      fst (handle_request plain_externals search_only (request_example 4) (cl_db (?s\<lparr>cl_db := snd ?h\<rparr>))) =
        Inr \<lparr>ir_event = stored, ir_created = False\<rparr>"
    unfolding Let_def case_prod_beta by blast
  have "admission search_only (rq_command (request_example 4)) = None"
    "x_pg_event plain_externals (event_of_command (rq_id (request_example 4)) (rq_command (request_example 4))) \<noteq> None"
    "smooth_call (rq_save_call (request_example 4))" "smooth_call (rq_find_call (request_example 4))"
    using admission_example by (simp_all add: request_example_def plain_externals_def)
  moreover have "ev_event_id stored = 7" using stored(1) by (simp add: request_example_def command_example_def)
  moreover have "cl_db (?s\<lparr>cl_db := snd ?h\<rparr>) = snd (handle_request plain_externals search_only (request_example 3) empty_db)"
    by (simp add: cluster_init_def)
  ultimately show ?thesis using stored(2) by auto
qed

text \<open>C2: an accepted event is kept, and delivered once its row says so.  After an answer that shows an
  event, 201 or 200, whatever the service and its failures do next, the event is in the
  database together with an outbox row of its own; and when that row reads PUBLISHED, the
  brokers have acknowledged its message.\<close>

theorem accepted_event_is_kept_and_delivered:
  assumes "service_reach x w (KafkaPublish x send) n get k (cluster_init s0 now p) s"
    and "trusted x" and "wf_db s0" and "paired s0"
    and "\<forall>r \<in> set (db_outbox s0). or_status r = PUBLISHED \<longrightarrow> or_event_id r \<in> set (map fst (kp_acked p))"
    and "foreign_call (rq_save_call q)"
    and "NewRouter x get conv k pool_ping (pool :: unit option) fresh q r (cl_db s) = (wire, t)"
    and "resp_body (wr_response wire) = EventBody er"
    and "service_reach x w (KafkaPublish x send) n get k (s\<lparr>cl_db := t\<rparr>) s'"
  shows "\<exists>ev \<in> set (db_events (cl_db s')). \<exists>row \<in> set (db_outbox (cl_db s')).
    ev_event_id ev = er_event_id er \<and> or_event_id row = er_event_id er \<and>
    (or_status row = PUBLISHED \<longrightarrow> er_event_id er \<in> set (map fst (kp_acked (cl_pub s'))))"
proof -
  have sc: "sound_columns x" using assms(2) by (simp add: trusted_def)
  note tx = tx_inv_reach [OF service_reach_cl_reach [OF assms(1)] assms(3) sc]
  have st: "service_step x w (KafkaPublish x send) n get k s (s\<lparr>cl_db := t\<rparr>)"
    by (rule service_step.api [OF assms(7)])
  have reach: "service_reach x w (KafkaPublish x send) n get k (cluster_init s0 now p) s'"
    by (rule service_reach_trans [OF assms(9) service_reach.more [OF assms(1) st]])
  note cl = service_reach_cl_reach [OF reach]
  have "er_event_id er \<in> ev_event_id ` set (db_events t)"
    using EventBody_stored [OF assms(7,8,2) _ assms(6)] tx by (simp add: tx_inv_def)
  moreover have "extends t (cl_db s')"
    using service_extends [OF assms(9) tx_inv_step [OF service_step_cl_step [OF st] tx sc] sc] by simp
  ultimately have ev: "er_event_id er \<in> ev_event_id ` set (db_events (cl_db s'))"
    by (auto simp: extends_def)
  have "paired (cl_db s')" using cluster_extends [OF cl assms(3) sc] assms(4) by blast
  then obtain row where row: "row \<in> set (db_outbox (cl_db s'))" "or_event_id row = er_event_id er"
    using ev by (force simp: paired_def)
  have "published_delivered (\<lambda>p. map fst (kp_acked p)) (cl_pub s') (cl_db s')"
    by (rule kafka_worker.cluster_delivered [OF cl assms(3) sc])
      (use assms(5) in \<open>simp add: published_delivered_def\<close>)
  then have "or_status row = PUBLISHED \<longrightarrow> er_event_id er \<in> set (map fst (kp_acked (cl_pub s')))"
    using row unfolding published_delivered_def by metis
  with ev row show ?thesis by force
qed

definition one_post :: "ingest_event_request http_request" where
  "one_post = \<lparr>hq_method = ''POST'', hq_path = ''/api/v1/events'', hq_headers = Map.empty,
     hq_body = search_request 5 False, hq_client_ip = ''::1'', hq_context = Map.empty\<rparr>"

theorem accepted_event_is_kept_and_delivered_witness:
  "\<exists>(er :: event_response) s'. er_event_id er = 7 \<and> (\<exists>ev \<in> set (db_events (cl_db s')). \<exists>row \<in> set (db_outbox (cl_db s')).
    ev_event_id ev = er_event_id er \<and> or_event_id row = er_event_id er \<and>
    (or_status row = PUBLISHED \<longrightarrow> er_event_id er \<in> set (map fst (kp_acked (cl_pub (s' :: unit kafka_publisher cluster))))))"
proof -
  let ?s0 = "cluster_init empty_db 20 solo_publisher"
  obtain wire t where nr: "NewRouter plain_externals search_only (\<lambda>_ _. None) plain_codec (\<lambda>_. None)
      (Some ()) ''rid'' (request_example 3) one_post (cl_db ?s0) = (wire, t)" by fastforce
  let ?er = "fromEvent (event_of_command 3 (command_example 1))"
  have "resp_body (wr_response wire) = EventBody ?er"
    using nr search_created
    by (auto simp: NewRouter_def RequestID_def one_post_def route_def cluster_init_def Let_def
        split: prod.splits)
  from accepted_event_is_kept_and_delivered [OF service_reach.here trusted_plain _ _ _ _ nr this service_reach.here]
  have kept: "\<exists>ev \<in> set (db_events (cl_db (?s0\<lparr>cl_db := t\<rparr>))). \<exists>row \<in> set (db_outbox (cl_db (?s0\<lparr>cl_db := t\<rparr>))).
    ev_event_id ev = er_event_id ?er \<and> or_event_id row = er_event_id ?er \<and>
    (or_status row = PUBLISHED \<longrightarrow> er_event_id ?er \<in> set (map fst (kp_acked (cl_pub (?s0\<lparr>cl_db := t\<rparr>)))))"
    by (simp add: wf_db_def paired_def empty_db_def request_example_def)
  have seven: "er_event_id ?er = 7" by (simp add: fromEvent_def command_example_def)
  show ?thesis
    by (rule exI [of _ ?er], rule exI [of _ "?s0\<lparr>cl_db := t\<rparr>"]) (rule conjI [OF seven kept])
qed

end
