(* ===== verification/Kafka_Admin.thy ===== *)
theory Kafka_Admin
  imports Kafka
begin

text \<open>
  Topic administration (internal/platform/kafka/admin.go).  The calls of kafka-go's client are
  arguments: a broker's answer to a metadata request, and its per-topic errors.  Waiting is a
  loop over time: a poll starts at an instant, its answer takes a while, and the timer of 200
  milliseconds may be cut short by the context.
\<close>

section \<open>The code\<close>

record partition_metadata =
  pm_error :: failure
  pm_leader :: int

record topic_metadata =
  tm_name :: string
  tm_error :: failure
  tm_partitions :: "partition_metadata list"

fun partitions_ready :: "partition_metadata list \<Rightarrow> bool" where
  "partitions_ready [] = True"
| "partitions_ready (p # ps) =
     (if pm_error p \<noteq> None \<or> pm_leader p < 0 then False else partitions_ready ps)"

fun topic_ready_in :: "string \<Rightarrow> topic_metadata list \<Rightarrow> bool \<times> failure" where
  "topic_ready_in topic [] = (False, None)"
| "topic_ready_in topic (t # ts) =
     (if tm_name t \<noteq> topic then topic_ready_in topic ts
      else if tm_error t \<noteq> None then (False, tm_error t)
      else if tm_partitions t = [] then (False, None)
      else if partitions_ready (tm_partitions t) then (True, None)
      else (False, None))"

definition topicReady :: "(string \<Rightarrow> topic_metadata list result) \<Rightarrow> string \<Rightarrow> bool \<times> failure" where
  "topicReady metadata topic =
     (case metadata topic of Inl err \<Rightarrow> (False, Some err) | Inr ts \<Rightarrow> topic_ready_in topic ts)"

text \<open>One client call of the administration of a topic: the error of the call, and the errors
  the response lists by topic.  \<open>exists\<close> is the error kafka-go calls
  \<open>TopicAlreadyExists\<close>, recognised by \<open>errors.Is\<close>.\<close>

type_synonym admin_response = "(string \<rightharpoonup> gerror) result"

definition EnsureTopic :: "(gerror \<Rightarrow> bool) \<Rightarrow> (string \<Rightarrow> int \<Rightarrow> admin_response) \<Rightarrow> string \<Rightarrow> int \<Rightarrow> failure" where
  "EnsureTopic is_exists create topic partitions =
     (case create topic partitions of
        Inl err \<Rightarrow> Some (wrapf (''create topic '' @ topic @ '': '') err)
      | Inr errors \<Rightarrow>
          (case errors topic of
             Some topicErr \<Rightarrow>
               if \<not> is_exists topicErr then Some (wrapf (''create topic '' @ topic @ '': '') topicErr) else None
           | None \<Rightarrow> None))"

definition DeleteTopic :: "(string \<Rightarrow> admin_response) \<Rightarrow> string \<Rightarrow> failure" where
  "DeleteTopic delete topic =
     (case delete topic of
        Inl err \<Rightarrow> Some (wrapf (''delete topic '' @ topic @ '': '') err)
      | Inr errors \<Rightarrow>
          (case errors topic of
             Some topicErr \<Rightarrow> Some (wrapf (''delete topic '' @ topic @ '': '') topicErr)
           | None \<Rightarrow> None))"

text \<open>The environment of the wait: what poll number \<open>i\<close> meets (the broker's metadata and how
  long the call takes), and when the context ends, with its error.\<close>

record wait_world =
  ww_metadata :: "nat \<Rightarrow> string \<Rightarrow> topic_metadata list result"
  ww_call_time :: "nat \<Rightarrow> int"
  ww_ctx_done :: "(time \<times> gerror) option"

definition poll_interval :: int where
  "poll_interval = 200000000"

definition not_ready_error :: "string \<Rightarrow> string \<Rightarrow> failure \<Rightarrow> gerror" where
  "not_ready_error topic timeout_text err =
     (case err of
        Some e \<Rightarrow> wrapf (''topic '' @ topic @ '' not ready within '' @ timeout_text @ '': '') e
      | None \<Rightarrow> ErrorString (''topic '' @ topic @ '' not ready within '' @ timeout_text))"

text \<open>The loop from poll \<open>i\<close>, which starts at the instant \<open>now\<close>.  The select takes the
  context's branch when the context ends before the timer.  The answer shows when the wait
  returned and after how many polls; \<open>None\<close> would be a loop that does not end.\<close>

partial_function (option) wait_loop ::
  "wait_world \<Rightarrow> string \<Rightarrow> string \<Rightarrow> time \<Rightarrow> nat \<Rightarrow> time \<Rightarrow> (failure \<times> time \<times> nat) option" where
  "wait_loop W topic tt deadline i now =
     (let (ready, err) = topicReady (ww_metadata W i) topic;
          now = now + ww_call_time W i
      in if err = None \<and> ready then Some (None, now, Suc i)
         else if now > deadline then Some (Some (not_ready_error topic tt err), now, Suc i)
         else
           (case ww_ctx_done W of
              Some (t, e) \<Rightarrow>
                if t < now + poll_interval then Some (Some e, max now t, Suc i)
                else wait_loop W topic tt deadline (Suc i) (now + poll_interval)
            | None \<Rightarrow> wait_loop W topic tt deadline (Suc i) (now + poll_interval)))"

definition WaitTopicReady ::
  "wait_world \<Rightarrow> string \<Rightarrow> int \<Rightarrow> string \<Rightarrow> time \<Rightarrow> (failure \<times> time \<times> nat) option" where
  "WaitTopicReady W topic timeout timeout_text now =
     wait_loop W topic timeout_text (now + timeout) 0 now"

section \<open>When a topic is ready\<close>

lemma partitions_ready_iff:
  "partitions_ready ps \<longleftrightarrow> (\<forall>p \<in> set ps. pm_error p = None \<and> 0 \<le> pm_leader p)"
  by (induction ps) auto

lemma topicReady_iff:
  "topicReady metadata topic = (True, None) \<longleftrightarrow>
     (\<exists>ts. metadata topic = Inr ts \<and>
       (\<exists>t. find (\<lambda>t. tm_name t = topic) ts = Some t \<and> tm_error t = None \<and> tm_partitions t \<noteq> [] \<and>
          (\<forall>p \<in> set (tm_partitions t). pm_error p = None \<and> 0 \<le> pm_leader p)))"
proof -
  have "topic_ready_in topic ts = (True, None) \<longleftrightarrow>
      (\<exists>t. find (\<lambda>t. tm_name t = topic) ts = Some t \<and> tm_error t = None \<and> tm_partitions t \<noteq> [] \<and>
         partitions_ready (tm_partitions t))" for ts
    by (induction ts) auto
  then show ?thesis by (simp add: topicReady_def partitions_ready_iff split: sum.split)
qed

lemma topicReady_fst: "fst (topicReady metadata topic) \<Longrightarrow> snd (topicReady metadata topic) = None"
proof -
  have "fst (topic_ready_in topic ts) \<Longrightarrow> snd (topic_ready_in topic ts) = None" for ts
    by (induction ts) auto
  then show "fst (topicReady metadata topic) \<Longrightarrow> ?thesis"
    by (auto simp: topicReady_def split: sum.splits)
qed

section \<open>The wait ends\<close>

text \<open>What the answer of a wait means.\<close>

definition wait_answer :: "wait_world \<Rightarrow> string \<Rightarrow> string \<Rightarrow> time \<Rightarrow> failure \<times> time \<times> nat \<Rightarrow> bool" where
  "wait_answer W topic tt deadline a \<longleftrightarrow>
     (case a of (f, t, polls) \<Rightarrow>
        0 < polls \<and>
        (case f of
           None \<Rightarrow> topicReady (ww_metadata W (polls - 1)) topic = (True, None)
         | Some e \<Rightarrow>
             topicReady (ww_metadata W (polls - 1)) topic \<noteq> (True, None) \<and>
             (deadline < t \<and> e = not_ready_error topic tt (snd (topicReady (ww_metadata W (polls - 1)) topic)) \<or>
              (\<exists>u. ww_ctx_done W = Some (u, e)))))"

lemma wait_loop_ends:
  assumes "\<And>i. 0 \<le> ww_call_time W i"
  shows "\<exists>a. wait_loop W topic tt deadline i now = Some a \<and> wait_answer W topic tt deadline a \<and>
    i < snd (snd a) \<and> poll_interval * (int (snd (snd a)) - int i - 1) \<le> max 0 (deadline - now + poll_interval)"
proof (induction "nat (deadline + poll_interval - now)" arbitrary: i now rule: less_induct)
  case less
  let ?r = "topicReady (ww_metadata W i) topic"
  let ?now = "now + ww_call_time W i"
  have c: "0 \<le> ww_call_time W i" by (rule assms)
  show ?case
  proof (cases "?r = (True, None)")
    case True
    then show ?thesis by (subst wait_loop.simps) (simp add: wait_answer_def)
  next
    case not_ready: False
    then have nr: "\<not> (snd ?r = None \<and> fst ?r)" by (metis prod.collapse)
    show ?thesis
    proof (cases "?now > deadline")
      case True
      then show ?thesis using nr not_ready
        by (subst wait_loop.simps) (auto simp: wait_answer_def split_beta)
    next
      case False
      have "nat (deadline + poll_interval - (?now + poll_interval)) < nat (deadline + poll_interval - now)"
        using False c by (simp add: poll_interval_def)
      from less [OF this, of "Suc i"] obtain a where a:
        "wait_loop W topic tt deadline (Suc i) (?now + poll_interval) = Some a"
        "wait_answer W topic tt deadline a" "Suc i < snd (snd a)"
        "poll_interval * (int (snd (snd a)) - int (Suc i) - 1) \<le> max 0 (deadline - (?now + poll_interval) + poll_interval)"
        by blast
      have b: "poll_interval * (int (snd (snd a)) - int i - 1) \<le> max 0 (deadline - now + poll_interval)"
        using a(3,4) False c by (simp add: poll_interval_def algebra_simps)
      show ?thesis
      proof (cases "\<exists>t e. ww_ctx_done W = Some (t, e) \<and> t < ?now + poll_interval")
        case True
        then show ?thesis using nr not_ready False
          by (subst wait_loop.simps) (auto simp: wait_answer_def split_beta)
      next
        case go: False
        have "wait_loop W topic tt deadline i now = wait_loop W topic tt deadline (Suc i) (?now + poll_interval)"
          using nr False go by (subst wait_loop.simps) (auto simp: split_beta Let_def split: option.splits)
        with a b show ?thesis by auto
      qed
    qed
  qed
qed

section \<open>Properties\<close>

text \<open>C26: waiting for a topic ends, and its answer can be trusted.  Whatever the brokers answer, the
  wait returns after at most one poll for every 200 milliseconds of its timeout and two more; nil
  means that the last poll found the topic without error, with at least one partition, and every
  partition with a leader; an error means that the last poll did not, and either the deadline has
  passed or the context was done.\<close>

theorem WaitTopicReady_terminates:
  assumes "\<And>i. 0 \<le> ww_call_time W i" and "0 \<le> timeout"
  shows "\<exists>f t polls. WaitTopicReady W topic timeout tt now = Some (f, t, polls) \<and>
    0 < polls \<and> poll_interval * (int polls - 2) \<le> timeout \<and>
    (f = None \<longleftrightarrow> (\<exists>ts m. ww_metadata W (polls - 1) topic = Inr ts \<and>
       find (\<lambda>t. tm_name t = topic) ts = Some m \<and> tm_error m = None \<and> tm_partitions m \<noteq> [] \<and>
       (\<forall>p \<in> set (tm_partitions m). pm_error p = None \<and> 0 \<le> pm_leader p))) \<and>
    (f \<noteq> None \<longrightarrow> now + timeout < t \<or> (\<exists>u e. ww_ctx_done W = Some (u, e) \<and> f = Some e))"
proof -
  obtain a where a: "wait_loop W topic tt (now + timeout) 0 now = Some a"
    "wait_answer W topic tt (now + timeout) a" "poll_interval * (int (snd (snd a)) - 1) \<le> max 0 (timeout + poll_interval)"
    using wait_loop_ends [OF assms(1), of topic tt "now + timeout" 0 now] by auto
  obtain f t polls where f: "a = (f, t, polls)" by (cases a)
  have "f = None \<longleftrightarrow> topicReady (ww_metadata W (polls - 1)) topic = (True, None)"
    using a(2) f by (auto simp: wait_answer_def split: option.splits)
  moreover have "f \<noteq> None \<longrightarrow> now + timeout < t \<or> (\<exists>u e. ww_ctx_done W = Some (u, e) \<and> f = Some e)"
    using a(2) f by (auto simp: wait_answer_def split: option.splits)
  moreover have "0 < polls" using a(2) f by (simp add: wait_answer_def)
  ultimately show ?thesis
    using a(1,3) f assms(2) unfolding topicReady_iff WaitTopicReady_def
    by (auto simp: poll_interval_def)
qed

definition late_topic :: wait_world where
  "late_topic = \<lparr>ww_metadata = (\<lambda>i topic. Inr [\<lparr>tm_name = topic, tm_error = None, tm_partitions =
      [\<lparr>pm_error = None, pm_leader = (if i = 0 then - 1 else 2)\<rparr>]\<rparr>]),
     ww_call_time = (\<lambda>_. 1000), ww_ctx_done = None\<rparr>"

theorem WaitTopicReady_terminates_witness:
  "\<exists>f t polls. WaitTopicReady late_topic ''events'' 1000000000 ''1s'' 0 = Some (f, t, polls) \<and>
    0 < polls \<and> poll_interval * (int polls - 2) \<le> 1000000000"
proof -
  have "\<And>i. 0 \<le> ww_call_time late_topic i" by (simp add: late_topic_def)
  from WaitTopicReady_terminates [OF this, of 1000000000 "''events''" "''1s''" 0] show ?thesis by auto
qed

text \<open>The loop's second poll finds the leader.\<close>

lemma late_topic_run: "WaitTopicReady late_topic ''events'' 1000000000 ''1s'' 0 = Some (None, 200002000, 2)"
  by (simp add: WaitTopicReady_def wait_loop.simps late_topic_def topicReady_def poll_interval_def)

text \<open>Creating a topic that exists is no error, deleting one that does not is one.\<close>

lemma EnsureTopic_None_iff:
  "EnsureTopic is_exists create topic n = None \<longleftrightarrow>
     (\<exists>errors. create topic n = Inr errors \<and> (\<forall>e. errors topic = Some e \<longrightarrow> is_exists e))"
  by (auto simp: EnsureTopic_def split: sum.splits option.splits)

lemma DeleteTopic_None_iff:
  "DeleteTopic delete topic = None \<longleftrightarrow> (\<exists>errors. delete topic = Inr errors \<and> errors topic = None)"
  by (auto simp: DeleteTopic_def split: sum.splits option.splits)

end
