(* ===== verification/Bench_Correct.thy ===== *)
theory Bench_Correct
  imports Bench
begin

text \<open>
  What the figures of a benchmark mean: the counting publisher counts exactly the acknowledged
  deliveries, no seeded event is ever unaccounted for, every row that reads PUBLISHED was
  delivered, and the wait for the outbox to drain ends.
\<close>

section \<open>Counting publishers\<close>

text \<open>A publisher with a log of its deliveries, row and event identifier: an entry is added exactly
  for a nil answer.\<close>

locale counting_publisher =
  fixes publish :: "'p publisher" and log :: "'p \<Rightarrow> (uuid \<times> uuid) list"
  assumes publish_log: "publish p ev = (res, p') \<Longrightarrow>
    log p' = log p @ (if res = None then [(oe_id ev, oe_event_id ev)] else [])"

sublocale counting_publisher \<subseteq> event_publisher publish "\<lambda>p. map snd (log p)"
proof unfold_locales
  show "publish p ev = (None, p') \<Longrightarrow> oe_event_id ev \<in> set (map snd (log p'))" for p ev p'
    by (simp add: publish_log)
  show "publish p ev = (res, p') \<Longrightarrow> set (map snd (log p)) \<subseteq> set (map snd (log p'))" for p ev res p'
    by (auto simp: publish_log)
qed

locale counting_worker = counting_publisher publish log
  for publish :: "'p publisher" and log :: "'p \<Rightarrow> (uuid \<times> uuid) list" +
  fixes x :: externals and w :: worker_config

sublocale counting_worker \<subseteq> outbox_worker publish "\<lambda>p. map snd (log p)" x w
  by unfold_locales

definition named :: "db \<Rightarrow> uuid \<times> uuid \<Rightarrow> bool" where
  "named s d \<longleftrightarrow> (\<exists>r \<in> set (db_outbox s). or_id r = fst d \<and> or_event_id r = snd d)"

lemma named_extends:
  assumes "named s d" and "extends s s'"
  shows "named s' d"
proof -
  obtain r where r: "r \<in> set (db_outbox s)" "or_id r = fst d" "or_event_id r = snd d"
    using assms(1) by (auto simp: named_def)
  obtain new where "map row_frame (db_outbox s') = map row_frame (db_outbox s) @ new"
    using assms(2) by (auto simp: extends_def)
  then have "row_frame r \<in> set (map row_frame (db_outbox s'))"
    unfolding \<open>map row_frame (db_outbox s') = _\<close> using r(1) by simp
  then obtain q where "q \<in> set (db_outbox s')" "row_frame q = row_frame r" by auto
  then show ?thesis using r by (auto simp: named_def row_frame_def)
qed

lemma step_extends: "cl_step x w publish n s s' \<Longrightarrow> tx_inv n s \<Longrightarrow> extends (cl_db s) (cl_db s')"
  by (erule (1) step_db) (simp_all add: Save_extends evolves_extends)

context counting_worker
begin

lemma log_named_step:
  assumes "cl_step x w publish n s s'" and "tx_inv n s" and "delivery_inv (\<lambda>p. map snd (log p)) n s"
    and "\<forall>d \<in> set (log (cl_pub s)). named (cl_db s) d"
  shows "\<forall>d \<in> set (log (cl_pub s')). named (cl_db s') d"
  using assms(1)
proof (cases rule: cl_step.cases)
  case (publish i t ev evs answer p')
  have "names_row (cl_db s) ev \<and> oe_id ev \<in> or_id ` set (db_outbox (cl_db s))"
    using assms(3) publish(2,3) by (simp add: delivery_inv_def pc_events_def)
  then have "named (cl_db s) (oe_id ev, oe_event_id ev)" by (auto simp: named_def names_row_def)
  then show ?thesis using assms(4) publish_log [OF publish(4)] publish(1) by (auto split: if_splits)
qed (use assms(4) step_extends [OF assms(1,2)] in \<open>auto intro: named_extends\<close>)

lemma log_named_reach:
  assumes "cl_reach x w publish n (cluster_init s0 now p) s" and "wf_db s0" and "sound_columns x"
    and "log p = []" and "\<forall>r \<in> set (db_outbox s0). or_status r \<noteq> PUBLISHED"
  shows "\<forall>d \<in> set (log (cl_pub s)). named (cl_db s) d"
  using assms(1)
proof (induction rule: cl_reach.induct)
  case here
  then show ?case using assms(4) by (simp add: cluster_init_def)
next
  case (more s s')
  have "delivery_inv (\<lambda>p. map snd (log p)) n s"
    by (rule delivery_inv_reach [OF more.hyps(1) assms(2,3)]) (use assms(5) in \<open>auto simp: published_delivered_def\<close>)
  then show ?case
    using log_named_step [OF more.hyps(2) tx_inv_reach [OF more.hyps(1) assms(2,3)] _ more.IH] by blast
qed

lemma log_grows:
  assumes "worker_reach x w publish n s s'"
  shows "set (log (cl_pub s)) \<subseteq> set (log (cl_pub s'))"
  using assms
proof (induction rule: worker_reach.induct)
  case (more s1 s2)
  from more.hyps(2) have "set (log (cl_pub s1)) \<subseteq> set (log (cl_pub s2))"
    by (cases rule: cl_step.cases) (auto dest: publish_log)
  then show ?case using more.IH by blast
qed simp

text \<open>The rows that read PUBLISHED are among the rows delivered.\<close>

lemma published_logged:
  assumes "cl_reach x w publish n (cluster_init s0 now p) s" and "wf_db s0" and "sound_columns x"
    and "log p = []" and "\<forall>r \<in> set (db_outbox s0). or_status r \<noteq> PUBLISHED"
    and "r \<in> set (db_outbox (cl_db s))" and "or_status r = PUBLISHED"
  shows "or_id r \<in> fst ` set (log (cl_pub s))"
proof -
  have "published_delivered (\<lambda>p. map snd (log p)) (cl_pub s) (cl_db s)"
    by (rule cluster_delivered [OF assms(1-3)]) (use assms(5) in \<open>auto simp: published_delivered_def\<close>)
  then obtain d where d: "d \<in> set (log (cl_pub s))" "snd d = or_event_id r"
    using assms(6,7) by (auto simp: published_delivered_def)
  then obtain q where q: "q \<in> set (db_outbox (cl_db s))" "or_id q = fst d" "or_event_id q = snd d"
    using log_named_reach [OF assms(1-5)] by (auto simp: named_def)
  have "wf_db (cl_db s)" using tx_inv_reach [OF assms(1-3)] by (simp add: tx_inv_def)
  then have "q = r" using q d(2) assms(6) by (auto simp: wf_db_def dest: distinct_key_eq)
  then show ?thesis using q(2) d(1) by force
qed

end

section \<open>The chain counts\<close>

lemma BenchPublish_log:
  "BenchPublish next p ev = (res, p') \<Longrightarrow>
   bp_log p' = bp_log p @ (if res = None then [(oe_id ev, oe_event_id ev)] else [])"
  by (auto simp: BenchPublish_def record_delivery_def Let_def split: if_splits option.splits prod.splits)

lemma injectFailure_inner: "fp_inner (snd (injectFailure rnd ev q)) = fp_inner q"
  by (simp add: injectFailure_def Let_def)

interpretation bench: counting_worker "ChainPublish rnd next" "\<lambda>ch. bp_log (bench_of ch)" x w
  for rnd :: "nat \<Rightarrow> rat" and "next" :: "'n publisher" and x w
proof unfold_locales
  fix ch :: "'n bench_chain" and ev res ch'
  assume h: "ChainPublish rnd next ch ev = (res, ch')"
  show "bp_log (bench_of ch') = bp_log (bench_of ch) @ (if res = None then [(oe_id ev, oe_event_id ev)] else [])"
  proof (cases ch)
    case (PlainChain p)
    then show ?thesis using h BenchPublish_log [of "next" p ev] by (auto split: prod.splits)
  next
    case (InjectedChain q)
    obtain q' where q': "FailingPublish rnd (BenchPublish next) q ev = (res, q')" "ch' = InjectedChain q'"
      using h InjectedChain by (auto split: prod.splits)
    have "bp_log (fp_inner q') = bp_log (fp_inner q) @ (if res = None then [(oe_id ev, oe_event_id ev)] else [])"
      using q'(1) injectFailure_inner [of rnd ev q]
      by (auto simp: FailingPublish_def dest!: BenchPublish_log split: prod.splits option.splits)
    then show ?thesis using InjectedChain q'(2) by simp
  qed
qed

definition bench_ok :: "'n benchPublisher \<Rightarrow> bool" where
  "bench_ok p \<longleftrightarrow> distinct (map fst (bp_calls p)) \<and> fst ` set (bp_calls p) = fst ` set (bp_log p) \<and>
     sum_list (map snd (bp_calls p)) = bp_total p \<and> (\<forall>c \<in> set (bp_calls p). 1 \<le> snd c)"

lemma map_default_calls:
  assumes "distinct (map fst cs)"
  shows "fst ` set (AList.map_default k 1 Suc cs) = insert k (fst ` set cs)"
    and "distinct (map fst (AList.map_default k 1 Suc cs))"
    and "sum_list (map snd (AList.map_default k 1 Suc cs)) = sum_list (map snd cs) + 1"
    and "\<forall>c \<in> set cs. 1 \<le> snd c \<Longrightarrow> \<forall>c \<in> set (AList.map_default k 1 Suc cs). 1 \<le> snd c"
  using assms by (induction cs) auto

lemma BenchPublish_ok:
  "bench_ok p \<Longrightarrow> BenchPublish next p ev = (res, p') \<Longrightarrow> bench_ok p'"
proof -
  have "bench_ok (record_delivery f ev q)" if "bench_ok q" for f and q :: "'a benchPublisher"
    using that map_default_calls [of "bp_calls q" "oe_id ev"] by (auto simp: bench_ok_def record_delivery_def)
  moreover have "bench_ok (p\<lparr>bp_step := n, bp_next := q\<rparr>) = bench_ok p" "bench_ok (p\<lparr>bp_step := n\<rparr>) = bench_ok p"
    for n q and p :: "'a benchPublisher"
    by (simp_all add: bench_ok_def)
  ultimately show "bench_ok p \<Longrightarrow> BenchPublish next p ev = (res, p') \<Longrightarrow> bench_ok p'"
    by (auto simp: BenchPublish_def Let_def split: if_splits option.splits prod.splits)
qed

lemma ChainPublish_ok:
  assumes "bench_ok (bench_of ch)" and "ChainPublish rnd next ch ev = (res, ch')"
  shows "bench_ok (bench_of ch')"
proof (cases ch)
  case (PlainChain p)
  then show ?thesis using assms BenchPublish_ok [of p "next" ev] by (auto split: prod.splits)
next
  case (InjectedChain q)
  then show ?thesis using assms injectFailure_inner [of rnd ev q]
    by (auto simp: FailingPublish_def split: prod.splits option.splits dest: BenchPublish_ok)
qed

lemma chain_ok_reach:
  assumes "cl_reach x w (ChainPublish rnd next) n (cluster_init s0 now p) s" and "bench_ok (bench_of p)"
  shows "bench_ok (bench_of (cl_pub s))"
  by (rule cl_reach_publisher [where P = "\<lambda>p. bench_ok (bench_of p)", OF assms]) (rule ChainPublish_ok)

text \<open>The figures that follow from the calls.\<close>

lemma stats_figures:
  assumes "bench_ok p"
  shows "ps_distinct (bench_stats p) \<le> ps_total (bench_stats p)"
    and "ps_duplicates (bench_stats p) = 0 \<longleftrightarrow> ps_distinct (bench_stats p) = ps_total (bench_stats p)"
    and "ps_distinct (bench_stats p) = card (fst ` set (bp_log p))"
proof -
  have le: "length cs \<le> sum_list (map snd cs)" and eq: "filter (\<lambda>c. snd c > 1) cs = [] \<longleftrightarrow> length cs = sum_list (map snd cs)"
    if "\<forall>c \<in> set cs. 1 \<le> snd c" for cs :: "(uuid \<times> nat) list"
  proof -
    show l: "length cs \<le> sum_list (map snd cs)" using that by (induction cs) auto
    show "filter (\<lambda>c. snd c > 1) cs = [] \<longleftrightarrow> length cs = sum_list (map snd cs)"
      using that
    proof (induction cs)
      case (Cons c cs)
      have "length cs \<le> sum_list (map snd cs)" using Cons.prems by (induction cs) auto
      then show ?case using Cons by (cases "snd c = 1") auto
    qed simp
  qed
  have s: "sum_list (map snd (bp_calls p)) = bp_total p" "\<forall>c \<in> set (bp_calls p). 1 \<le> snd c"
    using assms by (simp_all add: bench_ok_def)
  show "ps_distinct (bench_stats p) \<le> ps_total (bench_stats p)"
    using le [OF s(2)] s(1) by (simp add: bench_stats_def)
  show "ps_duplicates (bench_stats p) = 0 \<longleftrightarrow> ps_distinct (bench_stats p) = ps_total (bench_stats p)"
    using eq [OF s(2)] s(1) by (simp add: bench_stats_def)
  have "card (fst ` set (bp_calls p)) = length (bp_calls p)"
    using assms distinct_card [of "map fst (bp_calls p)"] by (simp add: bench_ok_def)
  then show "ps_distinct (bench_stats p) = card (fst ` set (bp_log p))"
    using assms by (simp add: bench_stats_def bench_ok_def)
qed

section \<open>Nothing is unaccounted for\<close>

lemma bench_rows:
  assumes "worker_reach x w publish n (cluster_init s0 now p) s" and "wf_db s0" and "sound_columns x"
  shows "length (db_outbox (cl_db s)) = length (db_outbox s0)"
  using assms(1)
proof (induction rule: worker_reach.induct)
  case here
  then show ?case by (simp add: cluster_init_def)
next
  case (more s s')
  from more.hyps(2) tx_inv_reach [OF worker_reach_cl_reach [OF more.hyps(1)] assms(2,3)] show ?case
  proof (cases rule: step_db)
    case (save c rid ev)
    have "cl_db s' = cl_db s"
      by (rule Save_cases [of x c rid ev "cl_db s"]) (use save more.hyps(3) in \<open>auto simp: saved_def\<close>)
    then show ?thesis using more.IH by simp
  next
    case moves
    then have "map row_frame (db_outbox (cl_db s')) = map row_frame (db_outbox (cl_db s))"
      using evolves_frame by blast
    then have "length (map row_frame (db_outbox (cl_db s'))) = length (map row_frame (db_outbox (cl_db s)))"
      by (rule arg_cong)
    then show ?thesis using more.IH by simp
  qed
qed

lemma count_sum:
  "count_status PUBLISHED s + count_status CLOSE s + count_status PENDING s + count_status PROCESSING s =
   length (db_outbox s)"
proof -
  have "length (filter (\<lambda>r. or_status r = PUBLISHED) rs) + length (filter (\<lambda>r. or_status r = CLOSE) rs) +
      length (filter (\<lambda>r. or_status r = PENDING) rs) + length (filter (\<lambda>r. or_status r = PROCESSING) rs) = length rs"
    for rs
  proof (induction rs)
    case (Cons r rs)
    then show ?case by (cases "or_status r") simp_all
  qed simp
  then show ?thesis by (simp add: count_status_def)
qed

text \<open>A seeded database.\<close>

lemma seedBatch_None:
  assumes "seedBatch c us m ty s = (None, t)" and "wf_db s" and "nat m \<le> length us"
  shows "wf_db t \<and> length (db_outbox t) = length (db_outbox s) + nat m \<and>
    (\<forall>r \<in> set (db_outbox t). r \<in> set (db_outbox s) \<or> or_status r = PENDING)"
  using assms
  by (auto simp: seedBatch_def Let_def seeded_row_def split: if_splits prod.splits option.splits)

lemma reseed_None:
  assumes "reseed c1 c2 c3 us1 us2 normal poison s = (None, t)"
    and "nat normal \<le> length us1" and "nat poison \<le> length us2"
  shows "wf_db t \<and> length (db_outbox t) = nat normal + nat poison \<and> (\<forall>r \<in> set (db_outbox t). or_status r = PENDING)"
proof -
  obtain u where u: "seedBatch c2 us1 normal ''benchmark.event'' empty_db = (None, u)"
    "seedBatch c3 us2 poison poisonEventType u = (None, t)"
    using assms(1) by (auto simp: reseed_def split: prod.splits option.splits)
  have "wf_db empty_db" "db_outbox empty_db = []" by (simp_all add: wf_db_def empty_db_def)
  then show ?thesis
    using seedBatch_None [OF u(1) _ assms(2)] seedBatch_None [OF u(2) _ assms(3)] by auto
qed

section \<open>The wait ends\<close>

definition drained :: "outboxCounts \<Rightarrow> bool" where
  "drained c \<longleftrightarrow> cnt_pending c = 0 \<and> cnt_processing c = 0"

text \<open>What the answer after poll \<open>j\<close> says.\<close>

definition drain_answer :: "drain_world \<Rightarrow> time \<Rightarrow> nat \<Rightarrow> outboxCounts \<times> failure \<Rightarrow> bool" where
  "drain_answer W deadline j a \<longleftrightarrow>
     (if snd a = None then drained (fst a) \<and> dw_count W j = Inr (fst a)
      else (\<exists>e. dw_count W j = Inl e) \<or>
        dw_count W j = Inr (fst a) \<and> \<not> drained (fst a) \<and> (deadline < dw_clock W j \<or> dw_interrupted W j))"

lemma drain_loop_ends:
  assumes "deadline < dw_clock W (i + m)"
  shows "\<exists>a j. drain_loop W tt deadline i cs = Some a \<and> i \<le> j \<and> j \<le> i + m \<and> drain_answer W deadline j a"
  using assms
proof (induction m arbitrary: i cs)
  case 0
  then show ?case
    by (subst drain_loop.simps) (auto simp: drain_answer_def drained_def split: sum.split intro!: exI [of _ i])
next
  case (Suc m)
  show ?case
  proof (cases "\<exists>fresh. dw_count W i = Inr fresh \<and> \<not> drained fresh \<and> \<not> deadline < dw_clock W i \<and> \<not> dw_interrupted W i")
    case True
    then obtain fresh where f: "dw_count W i = Inr fresh" "\<not> drained fresh" "\<not> deadline < dw_clock W i"
      "\<not> dw_interrupted W i" by blast
    have "drain_loop W tt deadline i cs = drain_loop W tt deadline (Suc i) fresh"
      using f by (subst drain_loop.simps) (auto simp: drained_def)
    then show ?thesis using Suc.IH [of "Suc i" fresh] Suc.prems by (auto dest: Suc_leD)
  next
    case False
    then have "\<exists>a. drain_loop W tt deadline i cs = Some a \<and> drain_answer W deadline i a"
      by (subst drain_loop.simps) (auto simp: drain_answer_def drained_def split: sum.split)
    then show ?thesis by (meson le_add1 order_refl)
  qed
qed

section \<open>The figures of a run\<close>

lemma new_bench_chain_start:
  "bp_log (bench_of (new_bench_chain cfg terminal fates)) = []" "bench_ok (bench_of (new_bench_chain cfg terminal fates))"
  by (simp_all add: new_bench_chain_def newBenchPublisher_def NewFailingPublisher_def bench_ok_def Let_def)

text \<open>The figures of the publisher, at any moment.\<close>

lemma bench_deliveries:
  assumes "worker_reach x w (ChainPublish rnd next) n (cluster_init s0 now (new_bench_chain cfg terminal fates)) s"
  shows "let r = buildResult cfg counts (cl_pub s) duration start in
    br_distinct r \<le> br_publish_calls r \<and> (br_duplicate r = 0 \<longleftrightarrow> br_distinct r = br_publish_calls r)"
  using stats_figures [OF chain_ok_reach [OF worker_reach_cl_reach [OF assms] new_bench_chain_start(2)]]
  by (simp add: buildResult_def Let_def split_beta)

text \<open>The outbox is counted at one moment and the figures of the publisher are taken at that moment or
  later: no event is lost, and every row that read PUBLISHED is one of the deliveries counted.\<close>

lemma bench_figures_truthful:
  assumes "reseed c1 c2 c3 us1 us2 (rc_total_events cfg - rc_poison_events cfg) (rc_poison_events cfg) s00 = (None, s0)"
    and "0 \<le> rc_poison_events cfg" and "rc_poison_events cfg \<le> rc_total_events cfg"
    and "nat (rc_total_events cfg - rc_poison_events cfg) \<le> length us1" and "nat (rc_poison_events cfg) \<le> length us2"
    and "sound_columns x"
    and "worker_reach x w (ChainPublish rnd next) n (cluster_init s0 now (new_bench_chain cfg terminal fates)) s1"
    and "countByStatus c (cl_db s1) = Inr counts"
    and "worker_reach x w (ChainPublish rnd next) n s1 s2"
  shows "let r = buildResult cfg counts (cl_pub s2) duration start in br_lost r = 0 \<and> br_published r \<le> br_distinct r"
proof -
  let ?p = "new_bench_chain cfg terminal fates"
  note s0 = reseed_None [OF assms(1,4,5)]
  note cl = worker_reach_cl_reach [OF assms(7)]
  have wf: "wf_db s0" and np: "\<forall>r \<in> set (db_outbox s0). or_status r \<noteq> PUBLISHED" using s0 by auto
  note start = new_bench_chain_start [of cfg terminal fates]
  have len: "int (length (db_outbox (cl_db s1))) = rc_total_events cfg"
    using bench_rows [OF assms(7) wf assms(6)] s0 assms(2,3) by simp
  have cs: "counts = \<lparr>cnt_pending = count_status PENDING (cl_db s1), cnt_processing = count_status PROCESSING (cl_db s1),
      cnt_published = count_status PUBLISHED (cl_db s1), cnt_closed = count_status CLOSE (cl_db s1)\<rparr>"
    using assms(8) by (simp add: countByStatus_def split: option.splits)
  have "worker_reach x w (ChainPublish rnd next) n (cluster_init s0 now ?p) s2" by (rule worker_reach_trans [OF assms(9,7)])
  note fig = stats_figures [OF chain_ok_reach [OF worker_reach_cl_reach [OF this] start(2)]]
  have "distinct (map or_id (filter (\<lambda>r. or_status r = PUBLISHED) (db_outbox (cl_db s1))))"
    using tx_inv_reach [OF cl wf assms(6)] by (simp add: tx_inv_def wf_db_def distinct_map_filter)
  then have "count_status PUBLISHED (cl_db s1) =
      card (or_id ` {r \<in> set (db_outbox (cl_db s1)). or_status r = PUBLISHED})"
    using distinct_card [of "map or_id (filter (\<lambda>r. or_status r = PUBLISHED) (db_outbox (cl_db s1)))"]
    by (simp add: count_status_def)
  moreover have "or_id ` {r \<in> set (db_outbox (cl_db s1)). or_status r = PUBLISHED} \<subseteq>
      fst ` set (bp_log (bench_of (cl_pub s2)))"
    using bench.published_logged [OF cl wf assms(6) start(1) np] bench.log_grows [OF assms(9)] by blast
  ultimately have "count_status PUBLISHED (cl_db s1) \<le> ps_distinct (bench_stats (bench_of (cl_pub s2)))"
    unfolding fig(3) by (simp add: card_mono)
  moreover have "rc_total_events cfg - int (count_status PUBLISHED (cl_db s1) + count_status CLOSE (cl_db s1) +
      count_status PENDING (cl_db s1) + count_status PROCESSING (cl_db s1)) = 0"
    using len count_sum [of "cl_db s1"] by simp
  ultimately show ?thesis by (simp add: buildResult_def cs Let_def split_beta)
qed

section \<open>Properties\<close>

text \<open>C29: the wait for the outbox to drain ends.  When the clock passes the deadline at some poll, the
  wait has answered by then; nil is answered only on counts, just read, with nothing pending or
  processing, and an error only when counting failed, or on counts that are not drained when the
  time was up or the run was interrupted.\<close>

theorem waitDrained_terminates:
  assumes "now + timeout < dw_clock W m"
  shows "\<exists>counts f j. waitDrained W timeout tt now = Some (counts, f) \<and> j \<le> m \<and>
    (f = None \<longrightarrow> dw_count W j = Inr counts \<and> cnt_pending counts = 0 \<and> cnt_processing counts = 0) \<and>
    (f \<noteq> None \<longrightarrow> (\<exists>e. dw_count W j = Inl e) \<or>
       (cnt_pending counts \<noteq> 0 \<or> cnt_processing counts \<noteq> 0) \<and> (now + timeout < dw_clock W j \<or> dw_interrupted W j))"
proof -
  obtain a j where a: "waitDrained W timeout tt now = Some a" "j \<le> m" "drain_answer W (now + timeout) j a"
    using drain_loop_ends [of "now + timeout" W 0 m tt
        "\<lparr>cnt_pending = 0, cnt_processing = 0, cnt_published = 0, cnt_closed = 0\<rparr>"] assms
    unfolding waitDrained_def by auto
  then show ?thesis
    by (cases a) (auto simp: drain_answer_def drained_def split: if_splits)
qed

theorem waitDrained_terminates_witness:
  "\<exists>counts f. waitDrained \<lparr>dw_count = (\<lambda>i. Inr \<lparr>cnt_pending = 2 - i, cnt_processing = 0, cnt_published = i,
      cnt_closed = 0\<rparr>), dw_clock = (\<lambda>i. int i * 20), dw_interrupted = (\<lambda>_. False)\<rparr> 100 ''100ns'' 0 = Some (counts, f)"
proof -
  have "0 + 100 < dw_clock \<lparr>dw_count = (\<lambda>i. Inr \<lparr>cnt_pending = 2 - i, cnt_processing = 0, cnt_published = i,
      cnt_closed = 0\<rparr>), dw_clock = (\<lambda>i. int i * 20), dw_interrupted = (\<lambda>_. False)\<rparr> 6" by simp
  from waitDrained_terminates [OF this] show ?thesis by blast
qed

text \<open>A configuration that passes the checks of \<open>main\<close>.\<close>

lemma bench_main_Inr:
  assumes "bench_main env fl = Inr cfg"
  shows "0 < rc_workers cfg \<and> 0 < rc_batch cfg \<and> 0 < rc_total_events cfg \<and> 0 < rc_interval cfg \<and>
    0 \<le> rc_poison_events cfg \<and> rc_poison_events cfg \<le> rc_total_events cfg \<and> 0 < rc_stale_timeout cfg \<and>
    0 < rc_pool_size cfg \<and> rc_publisher cfg \<in> {publisherInMemory, publisherKafka}"
  using assms by (auto simp: bench_main_def Let_def split: if_splits)

lemma flag_defaults_accepted: "\<exists>cfg. bench_main (\<lambda>_. []) flag_defaults = Inr cfg \<and> rc_pool_size cfg = 5"
  by (simp add: bench_main_def flag_defaults_def publisherInMemory_def)

text \<open>What a setup without error leaves behind: a freshly seeded database and the chain.\<close>

lemma bench_setup_seeds:
  assumes "bench_setup bl cfg s = Some (Inr chain, t)"
  shows "\<exists>s1 terminal. reseed (bl_truncate bl) (bl_seed_normal bl) (bl_seed_poison bl) (bl_normal_ids bl)
      (bl_poison_ids bl) (rc_total_events cfg - rc_poison_events cfg) (rc_poison_events cfg) s1 = (None, t) \<and>
    chain = new_bench_chain cfg terminal (bl_fates bl) \<and> (terminal = None \<longleftrightarrow> rc_publisher cfg \<noteq> publisherKafka)"
  using assms
  by (auto simp: bench_setup_def bench_terminal_def split: sum.splits option.splits prod.splits if_splits)

end
