(* ===== verification/Api_Main.thy ===== *)
theory Api_Main
  imports Service Bench_Correct
begin

text \<open>
  The API process (cmd/api/main.go): what it checks and builds before it serves, the publisher
  chain it gives to its workers, and how it shuts down.  Log lines are kept by their event names.
  An early return of \<open>main\<close> is \<open>Stopped\<close> with the error it logged.
\<close>

section \<open>The publisher chain\<close>

datatype 'w api_terminal = KafkaTerminal "'w kafka_publisher" | LogTerminal log_publisher

datatype 'w api_publisher = Direct_publisher "'w api_terminal" | Injected_publisher "'w api_terminal failing_publisher"

fun TerminalPublish :: "externals \<Rightarrow> 'w message_writer \<Rightarrow> 'w api_terminal publisher" where
  "TerminalPublish x send (KafkaTerminal p) ev = (let (res, p') = KafkaPublish x send p ev in (res, KafkaTerminal p'))"
| "TerminalPublish x send (LogTerminal p) ev = (let (res, p') = LogPublish p ev in (res, LogTerminal p'))"

fun ApiPublish :: "(nat \<Rightarrow> rat) \<Rightarrow> externals \<Rightarrow> 'w message_writer \<Rightarrow> 'w api_publisher publisher" where
  "ApiPublish rnd x send (Direct_publisher p) ev =
     (let (res, p') = TerminalPublish x send p ev in (res, Direct_publisher p'))"
| "ApiPublish rnd x send (Injected_publisher q) ev =
     (let (res, q') = FailingPublish rnd (TerminalPublish x send) q ev in (res, Injected_publisher q'))"

fun terminal_of :: "'w api_publisher \<Rightarrow> 'w api_terminal" where
  "terminal_of (Direct_publisher p) = p"
| "terminal_of (Injected_publisher q) = fp_inner q"

fun terminal_delivered :: "'w api_terminal \<Rightarrow> uuid list" where
  "terminal_delivered (KafkaTerminal p) = map fst (kp_acked p)"
| "terminal_delivered (LogTerminal p) = map fst p"

text \<open>The close of \<open>main\<close>: it keeps its own pointer to the Kafka publisher beside the chain, and closes
  that publisher if there is one; the log publisher is never closed.  The chain holds the same
  publisher, so a later publish meets the closed writer.\<close>

fun TerminalClose :: "('w \<Rightarrow> failure \<times> 'w) \<Rightarrow> 'w api_terminal \<Rightarrow> failure \<times> 'w api_terminal" where
  "TerminalClose close_writer (KafkaTerminal p) =
     (let (err, p') = PublisherClose close_writer p in (err, KafkaTerminal p'))"
| "TerminalClose close_writer (LogTerminal p) = (None, LogTerminal p)"

fun ApiClose :: "('w \<Rightarrow> failure \<times> 'w) \<Rightarrow> 'w api_publisher \<Rightarrow> failure \<times> 'w api_publisher" where
  "ApiClose close_writer (Direct_publisher p) =
     (let (err, p') = TerminalClose close_writer p in (err, Direct_publisher p'))"
| "ApiClose close_writer (Injected_publisher q) =
     (let (err, p') = TerminalClose close_writer (fp_inner q) in (err, Injected_publisher (q\<lparr>fp_inner := p'\<rparr>)))"

definition choose_publisher :: "(writer_settings \<Rightarrow> 'w) \<Rightarrow> Configuration \<Rightarrow> 'w api_publisher" where
  "choose_publisher make_writer cfg =
     (let publisher =
            (if oc_publisher (cf_outbox cfg) = OutboxPublisherKafka
             then KafkaTerminal (NewPublisher make_writer (cf_kafka cfg) NewKafkaMetrics)
             else LogTerminal NewLogPublisher)
      in if f64_less (Finite 0) (oc_publish_failure_rate (cf_outbox cfg)) then
           Injected_publisher (NewFailingPublisher publisher (oc_publish_failure_rate (cf_outbox cfg)) 0 [])
         else Direct_publisher publisher)"

section \<open>Startup\<close>

record ('o, 'p, 'w) api_platform =
  al_parsers :: parsers
  al_parse_config :: "string \<Rightarrow> 'o pool_config result"
  al_new_pool :: "'o pool_config \<Rightarrow> 'p result"
  al_pool_ping :: "'p \<Rightarrow> failure"
  al_files :: file_system
  al_exec :: "string \<Rightarrow> db \<Rightarrow> db result"
  al_migrations :: "string \<Rightarrow> migration_call"
  al_make_writer :: "writer_settings \<Rightarrow> 'w"

record ('p, 'w) api_process =
  ap_config :: Configuration
  ap_pool :: "'p option"
  ap_registry :: registry
  ap_publisher :: "'w api_publisher"
  ap_workers :: "worker_config list"
  ap_warnings :: "string list"

datatype ('p, 'w) startup = Stopped string gerror | Serving "('p, 'w) api_process"

definition api_worker :: "Configuration \<Rightarrow> worker_config" where
  "api_worker cfg =
     NewOutboxWorker (oc_interval (cf_outbox cfg)) (oc_batch_size (cf_outbox cfg)) 3 1000000000 30000000000
       (cf_shutdown_timeout cfg) (oc_stale_timeout (cf_outbox cfg))"

definition startup_warnings :: "Configuration \<Rightarrow> string list" where
  "startup_warnings cfg =
     (if dbc_max_conns (cf_database cfg) < oc_workers (cf_outbox cfg) then [''outbox_workers_exceed_pool_size''] else []) @
     (if oc_publisher (cf_outbox cfg) = OutboxPublisherKafka then [] else [''log_publisher_configured'']) @
     (if f64_less (Finite 0) (oc_publish_failure_rate (cf_outbox cfg)) then [''publish_failure_injection_enabled''] else []) @
     (if oc_stale_timeout (cf_outbox cfg) \<le> cf_shutdown_timeout cfg
      then [''outbox_stale_timeout_below_shutdown_timeout''] else [])"

text \<open>\<open>env\<close> is the environment after \<open>godotenv.Load()\<close>, whose failure is only warned of.\<close>

definition api_start ::
  "('o, 'p, 'w) api_platform \<Rightarrow> environment \<Rightarrow> db \<Rightarrow> ('p, 'w) startup \<times> db" where
  "api_start al env s =
     (case Load (al_parsers al) env of
        Inl err \<Rightarrow> (Stopped ''config_load_failed'' err, s)
      | Inr cfg \<Rightarrow>
     (case DatabaseConfig_Validate (cf_database cfg) of
        Some err \<Rightarrow> (Stopped ''database_config_invalid'' err, s)
      | None \<Rightarrow>
     (case OutboxConfig_Validate (cf_outbox cfg) of
        Some err \<Rightarrow> (Stopped ''outbox_config_invalid'' err, s)
      | None \<Rightarrow>
     (case KafkaConfig_Validate (cf_kafka cfg) of
        Some err \<Rightarrow> (Stopped ''kafka_config_invalid'' err, s)
      | None \<Rightarrow>
     (case NewDB (al_parse_config al) (al_new_pool al) (cf_database cfg) of
        Inl err \<Rightarrow> (Stopped ''database_connection_create_failed'' err, s)
      | Inr pool \<Rightarrow>
     (case Ping (al_pool_ping al) pool of
        Some err \<Rightarrow> (Stopped ''database_ping_failed'' err, s)
      | None \<Rightarrow>
     (case Migrate (al_files al) (al_exec al) (al_migrations al) pool s of
        (Some err, s') \<Rightarrow> (Stopped ''database_migration_failed'' err, s')
      | (None, s') \<Rightarrow>
          (Serving \<lparr>ap_config = cfg, ap_pool = pool, ap_registry = api_registry,
             ap_publisher = choose_publisher (al_make_writer al) cfg,
             ap_workers = replicate (nat (oc_workers (cf_outbox cfg))) (api_worker cfg),
             ap_warnings = startup_warnings cfg\<rparr>, s'))))))))"

section \<open>Shutdown\<close>

text \<open>What the shutdown meets, in nanoseconds from its start: whether the HTTP server failed, how
  long its graceful shutdown takes and its error, when the last worker has returned (if ever)
  and the workers' answers, how long the Kafka writer's \<open>Close\<close> takes, which flushes what the
  writer holds, and its answer, and how long the deferred close of the connection pool takes,
  which waits for the connections in use.\<close>

record shutdown_world =
  sw_server_failed :: bool
  sw_server_time :: int
  sw_server_error :: failure
  sw_workers_done :: "int option"
  sw_worker_answers :: "failure list"
  sw_close_time :: int
  sw_close :: failure
  sw_pool_time :: int

record shutdown_trace =
  st_log :: "string list"
  st_waited :: int                   \<comment> \<open>when the wait for the workers ended\<close>
  st_closes :: "(int \<times> int) list"   \<comment> \<open>the calls of \<open>Close\<close> on the Kafka publisher: begin and end\<close>
  st_stopped :: int                  \<comment> \<open>when the last line was logged\<close>
  st_end :: int                      \<comment> \<open>when \<open>main\<close> returned, after its deferred calls\<close>

definition drain_grace :: int where "drain_grace = 5000000000"

definition api_shutdown :: "int \<Rightarrow> bool \<Rightarrow> shutdown_world \<Rightarrow> shutdown_trace" where
  "api_shutdown timeout kafka W =
     (let cause = (if sw_server_failed W then ''http_server_failed'' else ''shutdown_signal_received'');
          t1 = sw_server_time W;
          server = (if sw_server_error W \<noteq> None then [''http_server_shutdown_failed''] else []) @ [''http_server_stopped''];
          (workers, t2) =
            (case sw_workers_done W of
               Some t \<Rightarrow>
                 if t \<le> t1 + (timeout + drain_grace)
                 then (map (\<lambda>_. ''outbox_worker_stopped_with_error'') (filter (\<lambda>f. f \<noteq> None) (sw_worker_answers W)) @
                       [''outbox_workers_stopped''], max t1 t)
                 else ([''outbox_worker_shutdown_timeout''], t1 + (timeout + drain_grace))
             | None \<Rightarrow> ([''outbox_worker_shutdown_timeout''], t1 + (timeout + drain_grace)));
          (closing, closes, t3) =
            (if kafka
             then ([if sw_close W \<noteq> None then ''kafka_publisher_close_failed'' else ''kafka_publisher_closed''],
                   [(t2, t2 + sw_close_time W)], t2 + sw_close_time W)
             else ([], [], t2))
      in \<lparr>st_log = [cause, ''application_shutdown_started''] @ server @ workers @ closing @ [''application_stopped''],
          st_waited = t2, st_closes = closes, st_stopped = t3, st_end = t3 + sw_pool_time W\<rparr>)"

section \<open>The chain keeps the publisher's contract\<close>

definition uses_kafka :: "'w api_publisher \<Rightarrow> bool" where
  "uses_kafka p = (case terminal_of p of KafkaTerminal _ \<Rightarrow> True | LogTerminal _ \<Rightarrow> False)"

lemma TerminalPublish_delivers:
  assumes "TerminalPublish x send p ev = (res, p')"
  shows "res = None \<Longrightarrow> oe_event_id ev \<in> set (terminal_delivered p')"
    and "set (terminal_delivered p) \<subseteq> set (terminal_delivered p')"
    and "(case p' of KafkaTerminal _ \<Rightarrow> True | LogTerminal _ \<Rightarrow> False) = (case p of KafkaTerminal _ \<Rightarrow> True | LogTerminal _ \<Rightarrow> False)"
proof -
  consider (kafka) q q' where "p = KafkaTerminal q" "KafkaPublish x send q ev = (res, q')" "p' = KafkaTerminal q'"
    | (log) q where "p = LogTerminal q" "p' = LogTerminal (q @ [(oe_event_id ev, oe_event_type ev)])"
    using assms by (cases p) (auto simp: LogPublish_def Let_def split: prod.splits)
  note c = this
  show "res = None \<Longrightarrow> oe_event_id ev \<in> set (terminal_delivered p')"
    by (cases rule: c) (simp_all add: KafkaPublish_acked)
  show "set (terminal_delivered p) \<subseteq> set (terminal_delivered p')"
    by (cases rule: c) (auto simp: KafkaPublish_acked)
  show "(case p' of KafkaTerminal _ \<Rightarrow> True | LogTerminal _ \<Rightarrow> False) = (case p of KafkaTerminal _ \<Rightarrow> True | LogTerminal _ \<Rightarrow> False)"
    by (cases rule: c) simp_all
qed

lemma ApiPublish_cases:
  assumes "ApiPublish rnd x send p ev = (res, p')"
  shows "TerminalPublish x send (terminal_of p) ev = (res, terminal_of p') \<or>
    res \<noteq> None \<and> terminal_of p' = terminal_of p"
proof (cases p)
  case (Injected_publisher q)
  then show ?thesis using assms injectFailure_inner [of rnd ev q]
    by (auto simp: FailingPublish_def split: prod.splits option.splits)
qed (use assms in \<open>auto split: prod.splits\<close>)

lemma ApiPublish_uses_kafka: "ApiPublish rnd x send p ev = (res, p') \<Longrightarrow> uses_kafka p' = uses_kafka p"
  using ApiPublish_cases [of rnd x send p ev res p'] TerminalPublish_delivers(3) [of x send "terminal_of p" ev res "terminal_of p'"]
  by (auto simp: uses_kafka_def)

lemma ApiClose_keeps:
  "terminal_delivered (terminal_of (snd (ApiClose close_writer p))) = terminal_delivered (terminal_of p)"
  "uses_kafka (snd (ApiClose close_writer p)) = uses_kafka p"
proof -
  have t: "terminal_delivered (snd (TerminalClose close_writer u)) = terminal_delivered u"
    "uses_kafka (Direct_publisher (snd (TerminalClose close_writer u))) = uses_kafka (Direct_publisher u)" for u
    by (cases u; simp add: PublisherClose_def uses_kafka_def split: prod.splits)+
  have "terminal_of (snd (ApiClose close_writer p)) = snd (TerminalClose close_writer (terminal_of p))"
    by (cases p) (simp_all split: prod.splits)
  then show "terminal_delivered (terminal_of (snd (ApiClose close_writer p))) = terminal_delivered (terminal_of p)"
    "uses_kafka (snd (ApiClose close_writer p)) = uses_kafka p"
    using t [of "terminal_of p"] by (simp_all add: uses_kafka_def)
qed

text \<open>\<open>old\<close> are the events delivered before this process started.\<close>

interpretation api_chain: outbox_worker "ApiPublish rnd x send" "\<lambda>p. old @ terminal_delivered (terminal_of p)" x w
  for rnd x send w old
proof unfold_locales
  show "ApiPublish rnd x send p ev = (None, p') \<Longrightarrow> oe_event_id ev \<in> set (old @ terminal_delivered (terminal_of p'))"
    for p ev p'
    using ApiPublish_cases [of rnd x send p ev None p'] TerminalPublish_delivers(1) by fastforce
  show "ApiPublish rnd x send p ev = (res, p') \<Longrightarrow> set (old @ terminal_delivered (terminal_of p)) \<subseteq>
      set (old @ terminal_delivered (terminal_of p'))" for p ev res p'
    using ApiPublish_cases [of rnd x send p ev res p'] TerminalPublish_delivers(2) by fastforce
qed

lemma choose_publisher_kind: "uses_kafka (choose_publisher mw cfg) \<longleftrightarrow> oc_publisher (cf_outbox cfg) = OutboxPublisherKafka"
  by (simp add: uses_kafka_def choose_publisher_def Let_def NewFailingPublisher_def)

lemma api_start_Serving:
  assumes "api_start al env s = (Serving ap, s')"
  shows "Load (al_parsers al) env = Inr (ap_config ap)" and "ap_pool ap \<noteq> None"
    and "ap_registry ap = api_registry" and "ap_publisher ap = choose_publisher (al_make_writer al) (ap_config ap)"
    and "ap_workers ap = replicate (nat (oc_workers (cf_outbox (ap_config ap)))) (api_worker (ap_config ap))"
    and "Migrate (al_files al) (al_exec al) (al_migrations al) (ap_pool ap) s = (None, s')"
    and "DatabaseConfig_Validate (cf_database (ap_config ap)) = None"
  using assms
  by (auto simp: api_start_def NewDB_def split: sum.splits option.splits prod.splits)

lemma Load_workers:
  assumes "Load ps env = Inr cfg"
  shows "OutboxConfig_Validate (cf_outbox cfg) = None" and "0 < oc_workers (cf_outbox cfg)"
    and "0 < oc_batch_size (cf_outbox cfg)" and "0 < oc_stale_timeout (cf_outbox cfg)"
    and "0 < cf_shutdown_timeout cfg"
  using loadOutbox_valid [OF Load_parts(1) [OF assms]] getDurationWithDefault_pos [OF Load_parts(3) [OF assms]]
  by (simp_all add: OutboxConfig_Validate_None_iff time_units)

section \<open>What every run of the service keeps\<close>

text \<open>From the database \<open>s0\<close> on which the process starts: nothing is lost, what reads PUBLISHED is
  delivered or was published before, and the publisher is of the configured kind.\<close>

definition api_inv :: "db \<Rightarrow> uuid list \<Rightarrow> bool \<Rightarrow> nat \<Rightarrow> 'w api_publisher cluster \<Rightarrow> bool" where
  "api_inv s0 old kafka n s \<longleftrightarrow> tx_inv n s \<and>
     delivery_inv (\<lambda>p. old @ terminal_delivered (terminal_of p)) n s \<and>
     uses_kafka (cl_pub s) = kafka \<and> extends s0 (cl_db s) \<and> (paired s0 \<longrightarrow> paired (cl_db s))"

definition published_before :: "db \<Rightarrow> uuid list" where
  "published_before s = map or_event_id (filter (\<lambda>r. or_status r = PUBLISHED) (db_outbox s))"

lemma api_inv_init:
  assumes "wf_db s0"
  shows "api_inv s0 (published_before s0) (uses_kafka p) n (cluster_init s0 now p)"
  using tx_inv_init [OF assms, of n now p]
  by (auto simp: api_inv_def delivery_inv_def cluster_init_def pc_events_def published_delivered_def published_before_def)

lemma cl_step_uses_kafka:
  assumes "cl_step x w (ApiPublish rnd x send) n s s'"
  shows "uses_kafka (cl_pub s') = uses_kafka (cl_pub s)"
  using assms by (cases rule: cl_step.cases) (auto dest: ApiPublish_uses_kafka)

lemma api_inv_step:
  assumes "cl_step x w (ApiPublish rnd x send) n s s'" and "api_inv s0 old kafka n s" and "sound_columns x"
  shows "api_inv s0 old kafka n s'"
proof -
  have tx: "tx_inv n s" using assms(2) by (simp add: api_inv_def)
  have "extends (cl_db s) (cl_db s') \<and> (paired (cl_db s) \<longrightarrow> paired (cl_db s'))"
    using assms(1) tx
  proof (cases rule: step_db)
    case (save c rid ev)
    then show ?thesis using Save_paired [OF assms(3) _ surjective_pairing, of "cl_db s" c rid ev] by (simp add: Save_extends)
  next
    case moves
    then show ?thesis using evolves_frame [OF moves] by (simp add: evolves_extends)
  qed
  then show ?thesis
    using assms(2) tx_inv_step [OF assms(1) tx assms(3)] api_chain.delivery_inv_step [OF assms(1) tx]
      cl_step_uses_kafka [OF assms(1)] extends_trans by (auto simp: api_inv_def)
qed

lemma api_inv_reach:
  assumes "service_reach x w (ApiPublish rnd x send) n get k s s'" and "api_inv s0 old kafka n s" and "sound_columns x"
  shows "api_inv s0 old kafka n s'"
  using assms
  by (induction rule: service_reach.induct) (auto intro: api_inv_step service_step_cl_step)

lemma api_inv_close:
  "api_inv s0 old kafka n s \<Longrightarrow> api_inv s0 old kafka n (s\<lparr>cl_pub := snd (ApiClose close_writer (cl_pub s))\<rparr>)"
  by (simp add: api_inv_def tx_inv_def delivery_inv_def ApiClose_keeps published_delivered_def)

lemma api_inv_published:
  assumes "api_inv s0 (published_before s0) kafka n s"
    and "r \<in> set (db_outbox (cl_db s))" and "or_status r = PUBLISHED"
    and "\<forall>q \<in> set (db_outbox s0). or_event_id q = or_event_id r \<longrightarrow> or_status q \<noteq> PUBLISHED"
  shows "case terminal_of (cl_pub s) of
       KafkaTerminal p \<Rightarrow> kafka \<and> or_event_id r \<in> set (map fst (kp_acked p))
     | LogTerminal p \<Rightarrow> \<not> kafka \<and> or_event_id r \<in> set (map fst p)"
proof -
  have "or_event_id r \<notin> set (published_before s0)" using assms(4) by (auto simp: published_before_def)
  then have "or_event_id r \<in> set (terminal_delivered (terminal_of (cl_pub s)))"
    using assms(1-3) by (auto simp: api_inv_def delivery_inv_def published_delivered_def)
  then show ?thesis using assms(1) by (auto simp: api_inv_def uses_kafka_def split: api_terminal.splits)
qed

lemma api_start_workers:
  assumes "api_start al env s = (Serving ap, s')"
  shows "int (length (ap_workers ap)) = oc_workers (cf_outbox (ap_config ap))"
    and "set (ap_workers ap) = {api_worker (ap_config ap)}"
  using api_start_Serving(5) [OF assms] Load_workers(2) [OF api_start_Serving(1) [OF assms]] by auto

section \<open>Properties\<close>

text \<open>A platform on which everything answers: the process of the example configuration, with the log
  publisher and three workers, over a database that holds one pending event.\<close>

definition calm_platform :: "(unit, unit, unit) api_platform" where
  "calm_platform =
     \<lparr>al_parsers = example_parsers,
      al_parse_config = (\<lambda>_. Inr \<lparr>pool_options = (), pool_max_conns = 4, pool_min_conns = 0,
        pool_max_lifetime = 0, pool_max_idle_time = 0\<rparr>),
      al_new_pool = (\<lambda>_. Inr ()), al_pool_ping = (\<lambda>_. None), al_files = repo_files,
      al_exec = (\<lambda>_ s. Inr s), al_migrations = (\<lambda>_. smooth_migration), al_make_writer = (\<lambda>_. ())\<rparr>"

definition calm_environment :: "Configuration \<Rightarrow> environment" where
  "calm_environment cfg = render_environment itoa (\<lambda>_. ''0'') cfg"

lemma calm_start:
  assumes "renderable cfg" and "reads_back example_parsers itoa (\<lambda>_. ''0'') cfg"
  shows "\<exists>ap. api_start calm_platform (calm_environment cfg) s = (Serving ap, s) \<and> ap_config ap = cfg \<and>
     ap_publisher ap = choose_publisher (\<lambda>_. ()) cfg \<and> length (ap_workers ap) = nat (oc_workers (cf_outbox cfg))"
proof -
  have v: "DatabaseConfig_Validate (cf_database cfg) = None" "OutboxConfig_Validate (cf_outbox cfg) = None"
    "KafkaConfig_Validate (cf_kafka cfg) = None"
    using assms(1) by (simp_all add: renderable_def)
  have l: "Load example_parsers (calm_environment cfg) = Inr cfg"
    unfolding calm_environment_def by (rule Load_rendered [OF assms])
  show ?thesis by (simp add: api_start_def calm_platform_def l v NewDB_def Ping_def Migrate_calm)
qed

lemma log_start:
  "\<exists>ap. api_start calm_platform (calm_environment example_configuration) s = (Serving ap, s) \<and>
     ap_config ap = example_configuration \<and> ap_publisher ap = Direct_publisher (LogTerminal []) \<and>
     length (ap_workers ap) = 3"
proof -
  have "reads_back example_parsers itoa (\<lambda>_. ''0'') example_configuration"
    by (simp add: reads_back_def example_parsers_def atoi_def parse_int_itoa in_int64_def example_configuration_def)
  moreover have "choose_publisher (\<lambda>_. ()) example_configuration = Direct_publisher (LogTerminal [])"
    by (simp add: choose_publisher_def example_configuration_def OutboxPublisherKafka_def OutboxPublisherLog_def
        NewLogPublisher_def)
  moreover have "nat (oc_workers (cf_outbox example_configuration)) = 3" by (simp add: example_configuration_def)
  ultimately show ?thesis using calm_start [OF example_renderable, of s] by auto
qed

text \<open>The same with Kafka as the publisher.\<close>

definition kafka_configuration :: Configuration where
  "kafka_configuration = example_configuration\<lparr>
     cf_outbox := (cf_outbox example_configuration)\<lparr>oc_publisher := OutboxPublisherKafka\<rparr>\<rparr>"

definition kafka_terminal :: "unit api_terminal" where
  "kafka_terminal = KafkaTerminal (NewPublisher (\<lambda>_. ()) (cf_kafka kafka_configuration) NewKafkaMetrics)"

lemma kafka_start:
  "\<exists>ap. api_start calm_platform (calm_environment kafka_configuration) s = (Serving ap, s) \<and>
     ap_config ap = kafka_configuration \<and> ap_publisher ap = Direct_publisher kafka_terminal \<and>
     length (ap_workers ap) = 3"
proof -
  have "renderable kafka_configuration"
    by (simp add: renderable_def kafka_configuration_def example_configuration_def DatabaseConfig_Validate_def
        OutboxConfig_Validate_def KafkaConfig_Validate_def in_int32_def in_int64_def plain_text_def)
  moreover have "reads_back example_parsers itoa (\<lambda>_. ''0'') kafka_configuration"
    by (simp add: reads_back_def example_parsers_def atoi_def parse_int_itoa in_int64_def kafka_configuration_def
        example_configuration_def)
  moreover have "choose_publisher (\<lambda>_. ()) kafka_configuration = Direct_publisher kafka_terminal"
    by (simp add: choose_publisher_def kafka_terminal_def kafka_configuration_def example_configuration_def)
  moreover have "nat (oc_workers (cf_outbox kafka_configuration)) = 3"
    by (simp add: kafka_configuration_def example_configuration_def)
  ultimately show ?thesis using calm_start [of kafka_configuration s] by auto
qed

text \<open>C25: shutting down is bounded and orderly.  When the server's own shutdown keeps its timeout, the
  wait for the workers is over after twice the timeout and five seconds; what is added is the time
  of the Kafka publisher's \<open>Close\<close>, if Kafka is configured, and at the very end that of the
  connection pool.  The Kafka publisher is closed exactly once, last before the process logs that
  it has stopped, and after the workers unless the wait for them ran out, which is logged: then it
  is closed although a worker may still be publishing.\<close>

theorem api_shutdown_bounded:
  assumes "0 < timeout" and "0 \<le> sw_server_time W" and "sw_server_time W \<le> timeout"
  shows "let tr = api_shutdown timeout kafka W; close = (if kafka then sw_close_time W else 0) in
    st_waited tr \<le> 2 * timeout + 5000000000 \<and>
    st_stopped tr = st_waited tr + close \<and> st_end tr = st_stopped tr + sw_pool_time W \<and>
    st_end tr \<le> 2 * timeout + 5000000000 + close + sw_pool_time W \<and>
    last (st_log tr) = ''application_stopped'' \<and>
    st_closes tr = (if kafka then [(st_waited tr, st_stopped tr)] else []) \<and>
    (if ''outbox_workers_stopped'' \<in> set (st_log tr) then (\<exists>t. sw_workers_done W = Some t \<and> t \<le> st_waited tr)
     else ''outbox_worker_shutdown_timeout'' \<in> set (st_log tr) \<and>
       (\<forall>t. sw_workers_done W = Some t \<longrightarrow> st_waited tr < t))"
  using assms
  by (cases "sw_workers_done W"; cases kafka) (auto simp: api_shutdown_def drain_grace_def Let_def split: if_splits)

theorem api_shutdown_bounded_witness:
  "st_end (api_shutdown 30000000000 True \<lparr>sw_server_failed = False, sw_server_time = 30000000000,
      sw_server_error = None, sw_workers_done = None, sw_worker_answers = [], sw_close_time = 200000000,
      sw_close = None, sw_pool_time = 10\<rparr>) \<le>
    2 * 30000000000 + 5000000000 + 200000000 + 10"
proof -
  let ?W = "\<lparr>sw_server_failed = False, sw_server_time = 30000000000, sw_server_error = None,
    sw_workers_done = None, sw_worker_answers = [], sw_close_time = 200000000, sw_close = None,
    sw_pool_time = 10\<rparr> :: shutdown_world"
  have "0 \<le> sw_server_time ?W" "sw_server_time ?W \<le> 30000000000" by simp_all
  from api_shutdown_bounded [OF _ this, of True] show ?thesis by (simp add: Let_def)
qed

end
