(* ===== verification/Worker_Runs.thy ===== *)
theory Worker_Runs
  imports Worker_Correct
begin

text \<open>
  What a tick does when the database answers: a functional specification of \<open>process\<close>,
  row by row, in terms of the publisher's answers; the drain of the queue by healthy ticks; and
  the batch a context error leaves behind.
\<close>

section \<open>The database answers\<close>

definition smooth_world :: "'p world \<Rightarrow> bool" where
  "smooth_world st \<longleftrightarrow> list_all smooth_call (w_calls st)"

lemma smooth_next_call:
  "smooth_world st \<Longrightarrow> smooth_call (fst (next_call st)) \<and> smooth_world (snd (next_call st))"
  by (auto simp: smooth_world_def next_call_def split: list.splits)

lemma smooth_next_seed [simp]: "smooth_world (snd (next_seed st)) = smooth_world st"
  by (simp add: smooth_world_def)

lemma smooth_world_update [simp]:
  "smooth_world (st\<lparr>w_db := s\<rparr>) = smooth_world st" "smooth_world (st\<lparr>w_pub := p\<rparr>) = smooth_world st"
  "smooth_world (st\<lparr>m_published := n\<rparr>) = smooth_world st"
  "smooth_world (st\<lparr>m_failed := n\<rparr>) = smooth_world st"
  "smooth_world (st\<lparr>m_closed := n\<rparr>) = smooth_world st"
  by (simp_all add: smooth_world_def)

lemma smooth_settle:
  assumes "smooth_world st"
  shows "smooth_world (on_publish_success x ev st)" and "smooth_world (on_publish_failure x w ev err st)"
    and "smooth_world (reclaimStale w st)" and "smooth_world (batch_world w st)"
    and "smooth_call (claim_call w st)"
proof -
  show "smooth_world (on_publish_success x ev st)"
    using assms smooth_next_call by (auto simp: on_publish_success_def Let_def split_beta)
  show "smooth_world (on_publish_failure x w ev err st)"
    using assms smooth_next_call smooth_next_seed
    by (auto simp: on_publish_failure_def Let_def split_beta)
  show r: "smooth_world (reclaimStale w st)"
    using assms smooth_next_call by (auto simp: reclaimStale_def Let_def split_beta)
  show "smooth_world (batch_world w st)" and "smooth_call (claim_call w st)"
    using smooth_next_call [OF r] by (simp_all add: batch_world_def claim_call_def)
qed

section \<open>One event settled\<close>

definition row_settled :: "worker_config \<Rightarrow> failure \<Rightarrow> outbox_row \<Rightarrow> outbox_row \<Rightarrow> bool" where
  "row_settled w answer r r' \<longleftrightarrow>
     (case answer of
        None \<Rightarrow> \<exists>t. r' = set_published t r
      | Some err \<Rightarrow>
          if or_attempts r \<ge> wc_max_retries w then r' = set_closed (error_text err) r
          else \<exists>t. r' = set_failed (error_text err) t r)"

lemma success_settles:
  assumes "wf_db (w_db st)" and "smooth_world st" and "outbox_row_of (oe_id ev) (w_db st) = Some r"
  shows "\<exists>r'. outbox_row_of (oe_id ev) (w_db (on_publish_success x ev st)) = Some r' \<and>
      row_settled w None r r'"
    and "m_published (on_publish_success x ev st) = m_published st + 1"
proof -
  have d: "dc_end (fst (next_call st)) = Done"
    using smooth_next_call [OF assms(2)] by simp
  obtain f s' where m: "MarkPublished x (fst (next_call st)) (oe_id ev) (w_db st) = (f, s')" by fastforce
  note a = MarkPublished_answer [OF assms(1) d, of x "oe_id ev"]
  have f: "f = None" and s': "s' = update_outbox (\<lambda>r. or_id r = oe_id ev)
      (set_published (dc_now (fst (next_call st)))) (w_db st)"
    using a assms(3) m by simp_all
  have i: "or_id r = oe_id ev" using assms(3) by (auto simp: outbox_row_of_def dest: row_of_SomeD)
  show "\<exists>r'. outbox_row_of (oe_id ev) (w_db (on_publish_success x ev st)) = Some r' \<and>
      row_settled w None r r'"
    unfolding on_publish_success_marks(1) [OF m] s'
    using assms(3) i by (auto simp: outbox_row_of_update row_settled_def)
  show "m_published (on_publish_success x ev st) = m_published st + 1"
    using on_publish_success_marks(2) [OF m] f by simp
qed

lemma failure_settles:
  assumes "wf_db (w_db st)" and "smooth_world st" and "outbox_row_of (oe_id ev) (w_db st) = Some r"
    and "or_status r = PROCESSING" and "or_attempts r = oe_attempts ev" and "wc_max_retries w \<le> int4_max"
  shows "\<exists>r'. outbox_row_of (oe_id ev) (w_db (on_publish_failure x w ev err st)) = Some r' \<and>
      row_settled w (Some err) r r'"
    and "m_failed (on_publish_failure x w ev err st) = m_failed st + 1"
    and "m_closed (on_publish_failure x w ev err st) =
      m_closed st + (if oe_attempts ev \<ge> wc_max_retries w then 1 else 0)"
proof -
  have d: "dc_end (fst (next_call st)) = Done"
    using smooth_next_call [OF assms(2)] by simp
  have i: "or_id r = oe_id ev" using assms(3) by (auto simp: outbox_row_of_def dest: row_of_SomeD)
  have "(\<exists>r'. outbox_row_of (oe_id ev) (w_db (on_publish_failure x w ev err st)) = Some r' \<and>
      row_settled w (Some err) r r') \<and>
    m_failed (on_publish_failure x w ev err st) = m_failed st + 1 \<and>
    m_closed (on_publish_failure x w ev err st) =
      m_closed st + (if oe_attempts ev \<ge> wc_max_retries w then 1 else 0)"
  proof (cases "oe_attempts ev \<ge> wc_max_retries w")
    case True
    obtain f s' where m:
      "MarkClose x (fst (next_call st)) (oe_id ev) (error_text err) (w_db st) = (f, s')" by fastforce
    have f: "f = None" and s': "s' = update_outbox (\<lambda>r. or_id r = oe_id ev)
        (set_closed (error_text err)) (w_db st)"
      using MarkClose_answer [OF assms(1) d, of x "oe_id ev" "error_text err"] assms(3,4) m by simp_all
    show ?thesis
      using on_publish_failure_close [OF True m] f s' assms(3,5) i True
      by (auto simp: outbox_row_of_update row_settled_def)
  next
    case False
    obtain f s' where m: "MarkFailed x (fst (next_call st)) (oe_id ev) (error_text err)
        (retry_at w ev st) (w_db st) = (f, s')" by fastforce
    have "or_attempts r < int4_max" using False assms(5,6) by simp
    then have f: "f = None" and s': "s' = update_outbox (\<lambda>r. or_id r = oe_id ev)
        (set_failed (error_text err) (retry_at w ev st)) (w_db st)"
      using MarkFailed_answer [OF assms(1) d, of x "oe_id ev" "error_text err" "retry_at w ev st"]
        assms(3,4) m by simp_all
    show ?thesis
      using on_publish_failure_retry [OF False m] f s' assms(3,5) i False
      by (auto simp: outbox_row_of_update row_settled_def)
  qed
  then show "\<exists>r'. outbox_row_of (oe_id ev) (w_db (on_publish_failure x w ev err st)) = Some r' \<and>
      row_settled w (Some err) r r'"
    and "m_failed (on_publish_failure x w ev err st) = m_failed st + 1"
    and "m_closed (on_publish_failure x w ev err st) =
      m_closed st + (if oe_attempts ev \<ge> wc_max_retries w then 1 else 0)"
    by simp_all
qed

section \<open>A batch settled\<close>

text \<open>The answers a publisher gives to a batch, one after the other.\<close>

fun answers :: "'p publisher \<Rightarrow> 'p \<Rightarrow> outbox_event list \<Rightarrow> failure list" where
  "answers publish p [] = []"
| "answers publish p (ev # evs) =
     fst (publish p ev) # answers publish (snd (publish p ev)) evs"

lemma length_answers [simp]: "length (answers publish p evs) = length evs"
  by (induction evs arbitrary: p) simp_all

definition plain_answers :: "failure list \<Rightarrow> bool" where
  "plain_answers as \<longleftrightarrow> list_all (\<lambda>a. case a of None \<Rightarrow> True | Some e \<Rightarrow> \<not> is_ctx_error e) as"

text \<open>An event in hand whose row is still the claimed one.\<close>

definition in_hand :: "db \<Rightarrow> outbox_event \<Rightarrow> bool" where
  "in_hand s ev \<longleftrightarrow> (\<exists>r. outbox_row_of (oe_id ev) s = Some r \<and> or_status r = PROCESSING \<and>
     or_attempts r = oe_attempts ev)"

definition settled_as :: "worker_config \<Rightarrow> db \<Rightarrow> db \<Rightarrow> outbox_event \<Rightarrow> failure \<Rightarrow> bool" where
  "settled_as w s s' ev a \<longleftrightarrow>
     (\<exists>r r'. outbox_row_of (oe_id ev) s = Some r \<and> outbox_row_of (oe_id ev) s' = Some r' \<and>
        row_settled w a r r')"

definition count_if :: "('a \<Rightarrow> bool) \<Rightarrow> 'a list \<Rightarrow> nat" where
  "count_if p xs = length (filter p xs)"

lemma count_if_simps [simp]:
  "count_if p [] = 0" "count_if p (x # xs) = (if p x then 1 else 0) + count_if p xs"
  by (simp_all add: count_if_def)

definition closes :: "worker_config \<Rightarrow> outbox_event \<times> failure \<Rightarrow> bool" where
  "closes w ea \<longleftrightarrow> snd ea \<noteq> None \<and> wc_max_retries w \<le> oe_attempts (fst ea)"

lemma process_events_settles:
  assumes "wf_db (w_db st)" and "smooth_world st" and "distinct (map oe_id evs)"
    and "list_all (in_hand (w_db st)) evs" and "wc_max_retries w \<le> int4_max"
    and "plain_answers (answers publish (w_pub st) evs)"
    and "process_events x w publish evs st = (res, st')"
  shows "res = None \<and>
    list_all2 (settled_as w (w_db st) (w_db st')) evs (answers publish (w_pub st) evs) \<and>
    (\<forall>i. i \<notin> set (map oe_id evs) \<longrightarrow> outbox_row_of i (w_db st') = outbox_row_of i (w_db st)) \<and>
    m_published st' = m_published st + count_if (\<lambda>a. a = None) (answers publish (w_pub st) evs) \<and>
    m_failed st' = m_failed st + count_if (\<lambda>a. a \<noteq> None) (answers publish (w_pub st) evs) \<and>
    m_closed st' = m_closed st + count_if (closes w) (zip evs (answers publish (w_pub st) evs))"
  using assms(1-4,6,7)
proof (induction evs arbitrary: st)
  case (Cons ev evs)
  let ?a = "fst (publish (w_pub st) ev)" and ?p = "snd (publish (w_pub st) ev)"
  let ?st = "st\<lparr>w_pub := ?p\<rparr>"
  define st1 where "st1 = (case ?a of None \<Rightarrow> on_publish_success x ev ?st
      | Some err \<Rightarrow> on_publish_failure x w ev err ?st)"
  obtain r where r: "outbox_row_of (oe_id ev) (w_db st) = Some r" "or_status r = PROCESSING"
    "or_attempts r = oe_attempts ev"
    using Cons.prems(4) by (auto simp: in_hand_def)
  have run: "process_events x w publish evs st1 = (res, st')"
    using Cons.prems(5,6) by (auto simp: process_events_Cons st1_def plain_answers_def split: option.splits)
  have sm: "smooth_world ?st" "wf_db (w_db ?st)" "outbox_row_of (oe_id ev) (w_db ?st) = Some r"
    using Cons.prems(1,2) r by simp_all
  have own: "\<exists>r'. outbox_row_of (oe_id ev) (w_db st1) = Some r' \<and> row_settled w ?a r r'"
    using success_settles(1) [OF sm(2,1,3)] failure_settles(1) [OF sm(2,1,3) r(2,3) assms(5)]
    unfolding st1_def by (cases ?a) simp_all
  have other: "outbox_row_of i (w_db st1) = outbox_row_of i (w_db st)" if "i \<noteq> oe_id ev" for i
    using on_publish_success_other [OF that, of x ?st] on_publish_failure_other [OF that, of x w _ ?st]
    unfolding st1_def by (cases ?a) simp_all
  have m: "m_published st1 = m_published st + (if ?a = None then 1 else 0)"
    "m_failed st1 = m_failed st + (if ?a = None then 0 else 1)"
    "m_closed st1 = m_closed st + (if closes w (ev, ?a) then 1 else 0)" "w_pub st1 = ?p"
    using success_settles(2) [OF sm(2,1,3), of x] failure_settles(2,3) [OF sm(2,1,3) r(2,3) assms(5)]
    unfolding st1_def closes_def by (cases ?a; simp)+
  have "smooth_world st1" using smooth_settle(1,2) [OF sm(1)] unfolding st1_def by (cases ?a) simp_all
  moreover have "wf_db (w_db st1)"
    using evolves_frame [OF on_publish_success_evolves [of ?st x ev]]
      evolves_frame [OF on_publish_failure_evolves [of ?st x w ev]] sm(2)
    unfolding st1_def by (cases ?a) simp_all
  moreover have "distinct (map oe_id evs)" and "plain_answers (answers publish (w_pub st1) evs)"
    using Cons.prems(3,5) m(4) by (simp_all add: plain_answers_def)
  moreover have kept: "outbox_row_of (oe_id e) (w_db st1) = outbox_row_of (oe_id e) (w_db st)"
    if "e \<in> set evs" for e
    using Cons.prems(3) that by (intro other) (auto simp: image_iff)
  then have "list_all (in_hand (w_db st1)) evs"
    using Cons.prems(4) by (simp add: list_all_iff in_hand_def)
  ultimately have ih: "res = None"
    "list_all2 (settled_as w (w_db st1) (w_db st')) evs (answers publish ?p evs)"
    "\<forall>i. i \<notin> set (map oe_id evs) \<longrightarrow> outbox_row_of i (w_db st') = outbox_row_of i (w_db st1)"
    "m_published st' = m_published st1 + count_if (\<lambda>a. a = None) (answers publish ?p evs)"
    "m_failed st' = m_failed st1 + count_if (\<lambda>a. a \<noteq> None) (answers publish ?p evs)"
    "m_closed st' = m_closed st1 + count_if (closes w) (zip evs (answers publish ?p evs))"
    using Cons.IH [of st1] run m(4) by simp_all
  have "list_all2 (settled_as w (w_db st) (w_db st')) evs (answers publish ?p evs)"
    using ih(2) kept by (auto simp: settled_as_def elim!: list.rel_mono_strong)
  moreover have "settled_as w (w_db st) (w_db st') ev ?a"
    using own r(1) ih(3) Cons.prems(3) by (auto simp: settled_as_def)
  moreover have "outbox_row_of i (w_db st') = outbox_row_of i (w_db st)"
    if "i \<notin> set (map oe_id (ev # evs))" for i
    using that ih(3) other by simp
  ultimately show ?case using ih m by simp
qed simp

section \<open>A tick settles its batch\<close>

definition batch_rows :: "worker_config \<Rightarrow> 'p world \<Rightarrow> outbox_row list" where
  "batch_rows w st =
     select_pending (claim_call w st) (wc_batch_size w) (db_outbox (w_db (reclaimStale w st)))"

definition claim_time :: "worker_config \<Rightarrow> 'p world \<Rightarrow> time" where
  "claim_time w st = dc_now (claim_call w st)"

lemma reclaim_wf: "wf_db (w_db st) \<Longrightarrow> wf_db (w_db (reclaimStale w st))"
  using evolves_frame [OF reclaim_evolves] by blast

lemma batch_rows_facts:
  assumes "wf_db (w_db st)"
  shows "distinct (map or_id (batch_rows w st))"
    and "r \<in> set (batch_rows w st) \<Longrightarrow>
      r \<in> set (db_outbox (w_db (reclaimStale w st))) \<and> eligible (claim_call w st) r"
proof -
  have "distinct (map or_id (db_outbox (w_db (reclaimStale w st))))"
    using reclaim_wf [OF assms] by (simp add: wf_db_def)
  then show "distinct (map or_id (batch_rows w st))"
    unfolding batch_rows_def select_pending_def
    by (intro distinct_first_by) (simp add: distinct_map_filter)
  show "r \<in> set (batch_rows w st) \<Longrightarrow>
      r \<in> set (db_outbox (w_db (reclaimStale w st))) \<and> eligible (claim_call w st) r"
    unfolding batch_rows_def by (rule set_select_pending)
qed

lemma smooth_claim:
  assumes "wf_db (w_db st)" and "smooth_world st" and "0 \<le> wc_batch_size w"
  shows "claim_result w st = (Inr (map claimed_event (batch_rows w st)),
    update_outbox (\<lambda>r. r \<in> set (batch_rows w st)) (set_processing (claim_time w st))
      (w_db (reclaimStale w st)))"
  unfolding claim_result_def batch_rows_def claim_time_def
  by (rule ClaimPending_smooth [OF reclaim_wf [OF assms(1)] smooth_settle(5) [OF assms(2)] assms(3)])

lemma claimed_row_of:
  assumes "wf_db (w_db st)"
  shows "r \<in> set (batch_rows w st) \<Longrightarrow>
      outbox_row_of (or_id r) (update_outbox (\<lambda>r. r \<in> set (batch_rows w st)) (set_processing t)
        (w_db (reclaimStale w st))) = Some (set_processing t r)"
    and "i \<notin> or_id ` set (batch_rows w st) \<Longrightarrow>
      outbox_row_of i (update_outbox (\<lambda>r. r \<in> set (batch_rows w st)) (set_processing t)
        (w_db (reclaimStale w st))) = outbox_row_of i (w_db (reclaimStale w st))"
proof -
  have d: "distinct (map or_id (db_outbox (w_db (reclaimStale w st))))"
    using reclaim_wf [OF assms] by (simp add: wf_db_def)
  show "outbox_row_of (or_id r) (update_outbox (\<lambda>r. r \<in> set (batch_rows w st)) (set_processing t)
        (w_db (reclaimStale w st))) = Some (set_processing t r)" if "r \<in> set (batch_rows w st)"
  proof -
    have "outbox_row_of (or_id r) (w_db (reclaimStale w st)) = Some r"
      using batch_rows_facts(2) [OF assms that] d by (simp add: outbox_row_of_def row_of_Some_iff)
    with that show ?thesis by (simp add: outbox_row_of_update)
  qed
  show "outbox_row_of i (update_outbox (\<lambda>r. r \<in> set (batch_rows w st)) (set_processing t)
        (w_db (reclaimStale w st))) = outbox_row_of i (w_db (reclaimStale w st))"
    if "i \<notin> or_id ` set (batch_rows w st)"
  proof (cases "outbox_row_of i (w_db (reclaimStale w st))")
    case (Some r)
    then have "or_id r = i" by (auto simp: outbox_row_of_def dest: row_of_SomeD)
    with that have "r \<notin> set (batch_rows w st)" by auto
    with Some show ?thesis by (simp add: outbox_row_of_update)
  qed (simp add: outbox_row_of_update)
qed

lemma process_settles:
  fixes publish :: "'p publisher" and st :: "'p world"
  assumes "wf_db (w_db st)" and "smooth_world st" and "0 \<le> wc_batch_size w"
    and "wc_max_retries w \<le> int4_max"
  defines "rows \<equiv> batch_rows w st" and "evs \<equiv> map claimed_event (batch_rows w st)"
  defines "as \<equiv> answers publish (w_pub st) evs"
  assumes "plain_answers as"
  obtains st' where "process x w publish st = (None, st')"
    and "list_all2 (\<lambda>r a. \<exists>r'. outbox_row_of (or_id r) (w_db st') = Some r' \<and>
          row_settled w a (set_processing (claim_time w st) r) r') rows as"
    and "\<And>i. i \<notin> or_id ` set rows \<Longrightarrow>
          outbox_row_of i (w_db st') = outbox_row_of i (w_db (reclaimStale w st))"
    and "m_published st' = m_published st + count_if (\<lambda>a. a = None) as"
    and "m_failed st' = m_failed st + count_if (\<lambda>a. a \<noteq> None) as"
    and "m_closed st' = m_closed st + count_if (closes w) (zip evs as)"
proof -
  let ?bw = "batch_world w st"
  note cl = smooth_claim [OF assms(1-3)]
  obtain res st' where pe: "process_events x w publish evs ?bw = (res, st')" by fastforce
  have db: "w_db ?bw = update_outbox (\<lambda>r. r \<in> set rows) (set_processing (claim_time w st))
      (w_db (reclaimStale w st))"
    by (simp add: cl rows_def)
  have wf: "wf_db (w_db ?bw)"
    using batch_world_evolves [OF assms(1), of w] evolves_frame assms(1) by blast
  have hand: "list_all (in_hand (w_db ?bw)) evs"
    unfolding db evs_def list_all_iff in_hand_def rows_def
    using claimed_row_of(1) [OF assms(1)] by (auto simp: set_processing_def)
  have ids: "map oe_id evs = map or_id rows" by (simp add: evs_def rows_def)
  have dist: "distinct (map oe_id evs)"
    unfolding ids rows_def by (rule batch_rows_facts(1) [OF assms(1)])
  have as: "as = answers publish (w_pub ?bw) evs" by (simp add: as_def)
  have "res = None \<and>
      list_all2 (settled_as w (w_db ?bw) (w_db st')) evs as \<and>
      (\<forall>i. i \<notin> set (map oe_id evs) \<longrightarrow> outbox_row_of i (w_db st') = outbox_row_of i (w_db ?bw)) \<and>
      m_published st' = m_published ?bw + count_if (\<lambda>a. a = None) as \<and>
      m_failed st' = m_failed ?bw + count_if (\<lambda>a. a \<noteq> None) as \<and>
      m_closed st' = m_closed ?bw + count_if (closes w) (zip evs as)"
    unfolding as
    by (rule process_events_settles [OF wf smooth_settle(4) [OF assms(2)] dist hand assms(4) _ pe])
      (use assms(8) as in simp)
  note r = this [unfolded ids, simplified]
  have "process x w publish st = (None, st')"
    using pe r by (simp add: process_unfold cl evs_def)
  moreover have "list_all2 (\<lambda>r a. \<exists>r'. outbox_row_of (or_id r) (w_db st') = Some r' \<and>
      row_settled w a (set_processing (claim_time w st) r) r') rows as"
  proof -
    have "list_all2 (\<lambda>r a. settled_as w (w_db ?bw) (w_db st') (claimed_event r) a) rows as"
      using r by (simp add: evs_def rows_def list_all2_map1)
    then show ?thesis
      by (rule list.rel_mono_strong)
        (auto simp: settled_as_def cl rows_def claimed_row_of(1) [OF assms(1)])
  qed
  moreover have "outbox_row_of i (w_db st') = outbox_row_of i (w_db (reclaimStale w st))"
    if "i \<notin> or_id ` set rows" for i
    using r that claimed_row_of(2) [OF assms(1), of i w] cl rows_def by simp
  ultimately show thesis using r that by simp
qed

section \<open>Healthy ticks drain the queue\<close>

text \<open>With no listed calls every database call is quiet and the clock stands still.\<close>

lemma quiet_next_call:
  "w_calls st = [] \<Longrightarrow> next_call st = (quiet_call (w_clock st), st)"
  by (simp add: next_call_def)

lemma quiet_frame:
  assumes "w_calls st = []"
  shows "w_calls (reclaimStale w st) = []" and "w_clock (reclaimStale w st) = w_clock st"
    and "w_calls (on_publish_success x ev st) = []" and "w_clock (on_publish_success x ev st) = w_clock st"
    and "w_calls (on_publish_failure x w ev err st) = []"
    and "w_clock (on_publish_failure x w ev err st) = w_clock st"
    and "w_calls (batch_world w st) = []" and "w_clock (batch_world w st) = w_clock st"
    and "claim_call w st = quiet_call (w_clock st)"
proof -
  show r: "w_calls (reclaimStale w st) = []" "w_clock (reclaimStale w st) = w_clock st"
    using assms by (simp_all add: reclaimStale_def quiet_next_call Let_def split_beta)
  show "w_calls (on_publish_success x ev st) = []" "w_clock (on_publish_success x ev st) = w_clock st"
    using assms by (simp_all add: on_publish_success_def quiet_next_call Let_def split_beta)
  have s: "w_calls (snd (next_seed (st\<lparr>m_failed := n\<rparr>))) = []" for n
    using assms by (simp del: next_call_metrics)
  show "w_calls (on_publish_failure x w ev err st) = []"
    "w_clock (on_publish_failure x w ev err st) = w_clock st"
    using assms s by (simp_all add: on_publish_failure_def quiet_next_call Let_def split_beta)
  show "w_calls (batch_world w st) = []" "w_clock (batch_world w st) = w_clock st"
    "claim_call w st = quiet_call (w_clock st)"
    using r by (simp_all add: batch_world_def claim_call_def quiet_next_call)
qed

lemma quiet_process_events:
  "w_calls st = [] \<Longrightarrow> w_calls (snd (process_events x w publish evs st)) = [] \<and>
   w_clock (snd (process_events x w publish evs st)) = w_clock st"
proof (induction evs arbitrary: st)
  case (Cons ev evs)
  let ?st = "st\<lparr>w_pub := snd (publish (w_pub st) ev)\<rparr>"
  have q: "w_calls ?st = []" using Cons.prems by simp
  show ?case
    using Cons.IH [OF quiet_frame(3) [OF q]] Cons.IH [OF quiet_frame(5) [OF q]] q
      quiet_frame(4,6) [OF q]
    by (auto simp: process_events_Cons Let_def split: option.splits)
qed simp

lemma quiet_process:
  assumes "w_calls st = []"
  shows "w_calls (snd (process x w publish st)) = []" and "w_clock (snd (process x w publish st)) = w_clock st"
  using quiet_process_events [OF quiet_frame(7) [OF assms]] quiet_frame(7,8) [OF assms]
  by (auto simp: process_unfold split: sum.splits)

text \<open>The rows a tick can take: due ones, and claimed ones the reclaim frees.\<close>

definition backlog :: "worker_config \<Rightarrow> time \<Rightarrow> db \<Rightarrow> uuid set" where
  "backlog w now s =
     {i. \<exists>r. outbox_row_of i s = Some r \<and>
        (or_status r = PENDING \<and> or_available_at r \<le> now \<or>
         0 < wc_stale_timeout w \<and> stale (quiet_call now) (wc_stale_timeout w) r)}"

lemma finite_backlog [simp]: "finite (backlog w now s)"
proof -
  have "backlog w now s \<subseteq> or_id ` set (db_outbox s)"
    by (auto simp: backlog_def outbox_row_of_def dest: row_of_SomeD)
  then show ?thesis by (rule finite_subset) simp
qed

lemma reclaimed_row:
  assumes "w_calls st = []"
  shows "outbox_row_of i (w_db (reclaimStale w st)) =
    map_option (\<lambda>r. if 0 < wc_stale_timeout w \<and> stale (quiet_call (w_clock st)) (wc_stale_timeout w) r
      then set_reclaimed (w_clock st) r else r) (outbox_row_of i (w_db st))"
  using assms
  by (auto simp: reclaimStale_db quiet_next_call ReclaimStale_def exec_update_done outbox_row_of_update
      option.map_ident split: sum.splits)

lemma backlog_eligible:
  assumes "wf_db (w_db st)" and "w_calls st = []"
  shows "backlog w (w_clock st) (w_db st) =
    or_id ` set (filter (eligible (quiet_call (w_clock st))) (db_outbox (w_db (reclaimStale w st))))"
proof -
  have d: "distinct (map or_id (db_outbox (w_db (reclaimStale w st))))"
    using reclaim_wf [OF assms(1)] by (simp add: wf_db_def)
  have "i \<in> backlog w (w_clock st) (w_db st) \<longleftrightarrow>
      (\<exists>r. outbox_row_of i (w_db (reclaimStale w st)) = Some r \<and> eligible (quiet_call (w_clock st)) r)" for i
  proof (cases "outbox_row_of i (w_db st)")
    case (Some r)
    then show ?thesis unfolding backlog_def reclaimed_row [OF assms(2)]
      by (cases "0 < wc_stale_timeout w \<and> stale (quiet_call (w_clock st)) (wc_stale_timeout w) r")
        (auto simp: eligible_def set_reclaimed_def)
  qed (simp add: backlog_def reclaimed_row [OF assms(2)])
  then show ?thesis using d by (auto simp: outbox_row_of_def row_of_Some_iff)
qed

text \<open>A publisher that accepts every payload of the table.\<close>

definition accepts_table :: "'p publisher \<Rightarrow> db \<Rightarrow> bool" where
  "accepts_table publish s \<longleftrightarrow>
     (\<forall>p ev. oe_payload ev \<in> or_payload ` set (db_outbox s) \<longrightarrow> fst (publish p ev) = None)"

lemma answers_accepted:
  "accepts_table publish s \<Longrightarrow> \<forall>ev \<in> set evs. oe_payload ev \<in> or_payload ` set (db_outbox s) \<Longrightarrow>
   answers publish p evs = replicate (length evs) None"
  by (induction evs arbitrary: p) (auto simp: accepts_table_def)

lemma evolves_payloads: "evolves s s' \<Longrightarrow> or_payload ` set (db_outbox s') = or_payload ` set (db_outbox s)"
proof -
  assume "evolves s s'"
  then have "map row_frame (db_outbox s') = map row_frame (db_outbox s)"
    by (simp add: evolves_frame)
  then have "map (\<lambda>(_, _, _, p, _). p) (map row_frame (db_outbox s')) =
      map (\<lambda>(_, _, _, p, _). p) (map row_frame (db_outbox s))"
    by (rule arg_cong)
  then have "map or_payload (db_outbox s') = map or_payload (db_outbox s)"
    by (simp add: row_frame_def comp_def)
  then have "set (map or_payload (db_outbox s')) = set (map or_payload (db_outbox s))"
    by (rule arg_cong)
  then show ?thesis by simp
qed

text \<open>One healthy tick: the batch is the oldest part of the backlog, and it is published.\<close>

lemma healthy_tick:
  assumes "wf_db (w_db st)" and "w_calls st = []" and "0 \<le> wc_batch_size w"
    and "wc_max_retries w \<le> int4_max" and "accepts_table publish (w_db st)"
  defines "B \<equiv> or_id ` set (batch_rows w st)"
  obtains st' where "process x w publish st = (None, st')" and "w_calls st' = []" and "w_clock st' = w_clock st"
    and "B \<subseteq> backlog w (w_clock st) (w_db st)"
    and "card B = min (nat (wc_batch_size w)) (card (backlog w (w_clock st) (w_db st)))"
    and "\<And>i. i \<in> B \<Longrightarrow> \<exists>r. outbox_row_of i (w_db st') = Some r \<and> or_status r = PUBLISHED"
    and "\<And>i. i \<notin> B \<Longrightarrow> outbox_row_of i (w_db st') = outbox_row_of i (w_db (reclaimStale w st))"
    and "m_published st' = m_published st + card B" and "m_failed st' = m_failed st"
    and "m_closed st' = m_closed st"
proof -
  let ?c = "quiet_call (w_clock st)" and ?s1 = "w_db (reclaimStale w st)" and ?rows = "batch_rows w st"
  have cc: "claim_call w st = ?c" by (rule quiet_frame(9) [OF assms(2)])
  have sm: "smooth_world st" using assms(2) by (simp add: smooth_world_def)
  have "oe_payload ev \<in> or_payload ` set (db_outbox (w_db st))" if ev: "ev \<in> set (map claimed_event ?rows)" for ev
  proof -
    obtain r where "r \<in> set ?rows" "ev = claimed_event r" using ev by auto
    then have "oe_payload ev \<in> or_payload ` set (db_outbox ?s1)"
      using batch_rows_facts(2) [OF assms(1)] by auto
    then show ?thesis by (simp only: evolves_payloads [OF reclaim_evolves])
  qed
  then have an: "answers publish (w_pub st) (map claimed_event ?rows) = replicate (length ?rows) None"
    using answers_accepted [OF assms(5)] by simp
  have dist: "distinct (map or_id ?rows)" by (rule batch_rows_facts(1) [OF assms(1)])
  have cardB: "card B = length ?rows"
    unfolding B_def using dist by (metis distinct_card length_map set_map)
  have d1: "distinct (map or_id (filter (eligible ?c) (db_outbox ?s1)))"
    using reclaim_wf [OF assms(1), of w] by (simp add: wf_db_def distinct_map_filter)
  have "card (backlog w (w_clock st) (w_db st)) = length (filter (eligible ?c) (db_outbox ?s1))"
    unfolding backlog_eligible [OF assms(1,2)] using d1 by (metis distinct_card length_map set_map)
  moreover have "length ?rows = min (nat (wc_batch_size w)) (length (filter (eligible ?c) (db_outbox ?s1)))"
    by (simp add: batch_rows_def select_pending_def length_first_by cc)
  ultimately have card: "card B = min (nat (wc_batch_size w)) (card (backlog w (w_clock st) (w_db st)))"
    using cardB by simp
  have sub: "B \<subseteq> backlog w (w_clock st) (w_db st)"
    unfolding backlog_eligible [OF assms(1,2)] B_def using batch_rows_facts(2) [OF assms(1), of _ w] cc by auto
  have "plain_answers (replicate (length ?rows) None)"
    by (simp add: plain_answers_def list_all_iff)
  then obtain st' where st': "process x w publish st = (None, st')"
    "list_all2 (\<lambda>r a. \<exists>r'. outbox_row_of (or_id r) (w_db st') = Some r' \<and>
        row_settled w a (set_processing (claim_time w st) r) r') ?rows (replicate (length ?rows) None)"
    "\<And>i. i \<notin> or_id ` set ?rows \<Longrightarrow> outbox_row_of i (w_db st') = outbox_row_of i ?s1"
    "m_published st' = m_published st + count_if (\<lambda>a. a = None) (replicate (length ?rows) (None :: failure))"
    "m_failed st' = m_failed st + count_if (\<lambda>a. a \<noteq> None) (replicate (length ?rows) (None :: failure))"
    "m_closed st' = m_closed st +
      count_if (closes w) (zip (map claimed_event ?rows) (replicate (length ?rows) None))"
    by (rule process_settles [OF assms(1) sm assms(3,4), of publish x, unfolded an])
      (rule that; assumption)
  have pub: "\<exists>r'. outbox_row_of (or_id r) (w_db st') = Some r' \<and> or_status r' = PUBLISHED"
    if "r \<in> set ?rows" for r
    using that st'(2)
    by (fastforce simp: list_all2_conv_all_nth in_set_conv_nth row_settled_def set_published_def)
  have count: "count_if (\<lambda>a. a = None) (replicate n (None :: failure)) = n"
    "count_if (\<lambda>a. a \<noteq> None) (replicate n (None :: failure)) = 0" for n
    by (simp_all add: count_if_def)
  have none: "count_if (closes w) (zip evs (replicate n None)) = 0" for n and evs :: "outbox_event list"
    by (auto simp: count_if_def filter_empty_conv closes_def set_zip)
  show thesis
  proof (rule that [OF st'(1)])
    show "w_calls st' = []" and "w_clock st' = w_clock st"
      using quiet_process [OF assms(2), of x w publish] st'(1) by simp_all
    show "\<And>i. i \<in> B \<Longrightarrow> \<exists>r. outbox_row_of i (w_db st') = Some r \<and> or_status r = PUBLISHED"
      unfolding B_def using pub by auto
    show "\<And>i. i \<notin> B \<Longrightarrow> outbox_row_of i (w_db st') = outbox_row_of i ?s1"
      unfolding B_def by (rule st'(3))
    show "m_published st' = m_published st + card B" and "m_failed st' = m_failed st"
      and "m_closed st' = m_closed st"
      using st'(4-6) cardB unfolding count none by simp_all
  qed (use sub card in auto)
qed

fun ticks :: "externals \<Rightarrow> worker_config \<Rightarrow> 'p publisher \<Rightarrow> nat \<Rightarrow> 'p world \<Rightarrow> 'p world" where
  "ticks x w publish 0 st = st"
| "ticks x w publish (Suc n) st = ticks x w publish n (snd (process x w publish st))"

lemma ticks_evolves: "wf_db (w_db st) \<Longrightarrow> evolves (w_db st) (w_db (ticks x w publish n st))"
proof (induction n arbitrary: st)
  case (Suc n)
  have e: "evolves (w_db st) (w_db (snd (process x w publish st)))" by (rule process_evolves [OF Suc.prems])
  then have "wf_db (w_db (snd (process x w publish st)))" using Suc.prems evolves_frame by blast
  from evolves_trans [OF e Suc.IH [OF this]] show ?case by simp
qed simp

text \<open>A row that is PUBLISHED, and a row that no tick takes, stays as it is.\<close>

lemma backlog_not_published:
  "outbox_row_of i s = Some r \<Longrightarrow> or_status r = PUBLISHED \<Longrightarrow> i \<notin> backlog w now s"
  by (simp add: backlog_def stale_def)

lemma outside_backlog:
  "w_calls st = [] \<Longrightarrow> i \<notin> backlog w (w_clock st) (w_db st) \<Longrightarrow>
   outbox_row_of i (w_db (reclaimStale w st)) = outbox_row_of i (w_db st)"
  unfolding reclaimed_row by (cases "outbox_row_of i (w_db st)") (auto simp: backlog_def)

lemma backlog_rest:
  assumes "w_calls st = []" and "B \<subseteq> backlog w (w_clock st) (w_db st)"
    and "\<And>i. i \<in> B \<Longrightarrow> \<exists>r. outbox_row_of i s' = Some r \<and> or_status r = PUBLISHED"
    and "\<And>i. i \<notin> B \<Longrightarrow> outbox_row_of i s' = outbox_row_of i (w_db (reclaimStale w st))"
  shows "backlog w (w_clock st) s' = backlog w (w_clock st) (w_db st) - B"
proof (rule set_eqI)
  fix i
  show "i \<in> backlog w (w_clock st) s' \<longleftrightarrow> i \<in> backlog w (w_clock st) (w_db st) - B"
  proof (cases "i \<in> B")
    case True
    then show ?thesis using assms(3) backlog_not_published by blast
  next
    case False
    show ?thesis
    proof (cases "outbox_row_of i (w_db st)")
      case (Some a)
      let ?p = "0 < wc_stale_timeout w \<and> stale (quiet_call (w_clock st)) (wc_stale_timeout w) a"
      have s': "outbox_row_of i s' = Some (if ?p then set_reclaimed (w_clock st) a else a)"
        using assms(4) [OF False] Some by (simp add: reclaimed_row [OF assms(1)])
      show ?thesis using False Some s'
        by (cases ?p) (auto simp: backlog_def set_reclaimed_def)
    qed (use False assms(4) [OF False] in \<open>simp add: backlog_def reclaimed_row [OF assms(1)]\<close>)
  qed
qed

lemma drain:
  assumes "wf_db (w_db st)" and "w_calls st = []" and "0 \<le> wc_batch_size w"
    and "wc_max_retries w \<le> int4_max" and "accepts_table publish (w_db st)"
    and "card (backlog w (w_clock st) (w_db st)) \<le> n * nat (wc_batch_size w)"
  shows "\<forall>i \<in> backlog w (w_clock st) (w_db st).
      \<exists>r. outbox_row_of i (w_db (ticks x w publish n st)) = Some r \<and> or_status r = PUBLISHED"
    and "\<forall>i. i \<notin> backlog w (w_clock st) (w_db st) \<longrightarrow>
      outbox_row_of i (w_db (ticks x w publish n st)) = outbox_row_of i (w_db st)"
    and "m_published (ticks x w publish n st) = m_published st + card (backlog w (w_clock st) (w_db st))"
    and "m_failed (ticks x w publish n st) = m_failed st" and "m_closed (ticks x w publish n st) = m_closed st"
proof -
  let ?goal = "\<lambda>st n.
    (\<forall>i \<in> backlog w (w_clock st) (w_db st).
      \<exists>r. outbox_row_of i (w_db (ticks x w publish n st)) = Some r \<and> or_status r = PUBLISHED) \<and>
    (\<forall>i. i \<notin> backlog w (w_clock st) (w_db st) \<longrightarrow>
      outbox_row_of i (w_db (ticks x w publish n st)) = outbox_row_of i (w_db st)) \<and>
    m_published (ticks x w publish n st) = m_published st + card (backlog w (w_clock st) (w_db st)) \<and>
    m_failed (ticks x w publish n st) = m_failed st \<and> m_closed (ticks x w publish n st) = m_closed st"
  have "?goal st n" using assms(1,2,5,6)
  proof (induction n arbitrary: st)
    case 0
    then show ?case by simp
  next
    case (Suc n)
    let ?L = "backlog w (w_clock st) (w_db st)" and ?B = "or_id ` set (batch_rows w st)"
    obtain st' where st': "process x w publish st = (None, st')" "w_calls st' = []" "w_clock st' = w_clock st"
      "?B \<subseteq> ?L" "card ?B = min (nat (wc_batch_size w)) (card ?L)"
      "\<And>i. i \<in> ?B \<Longrightarrow> \<exists>r. outbox_row_of i (w_db st') = Some r \<and> or_status r = PUBLISHED"
      "\<And>i. i \<notin> ?B \<Longrightarrow> outbox_row_of i (w_db st') = outbox_row_of i (w_db (reclaimStale w st))"
      "m_published st' = m_published st + card ?B" "m_failed st' = m_failed st" "m_closed st' = m_closed st"
      by (rule healthy_tick [OF Suc.prems(1,2) assms(3,4) Suc.prems(3), of x]) (rule that; assumption)
    have L': "backlog w (w_clock st') (w_db st') = ?L - ?B"
      unfolding st'(3) by (rule backlog_rest [OF Suc.prems(2) st'(4,6,7)])
    have "evolves (w_db st) (w_db st')"
      using process_evolves [OF Suc.prems(1), of x w publish] st'(1) by simp
    then have wf': "wf_db (w_db st')" and acc': "accepts_table publish (w_db st')"
      using Suc.prems(1,3) evolves_frame evolves_payloads by (blast, simp add: accepts_table_def evolves_payloads)
    have cd: "card (?L - ?B) = card ?L - card ?B" using st'(4) by (intro card_Diff_subset finite_subset [OF st'(4)]) auto
    then have "card (backlog w (w_clock st') (w_db st')) \<le> n * nat (wc_batch_size w)"
      unfolding L' using st'(5) Suc.prems(4) by (simp add: min_def) linarith
    from Suc.IH [OF wf' st'(2) acc' this] have ih: "?goal st' n" .
    have run: "ticks x w publish (Suc n) st = ticks x w publish n st'" using st'(1) by simp
    have "\<exists>r. outbox_row_of i (w_db (ticks x w publish n st')) = Some r \<and> or_status r = PUBLISHED"
      if "i \<in> ?L" for i
    proof (cases "i \<in> ?B")
      case True
      then obtain r where r: "outbox_row_of i (w_db st') = Some r" "or_status r = PUBLISHED" using st'(6) by blast
      then have "outbox_row_of i (w_db (ticks x w publish n st')) = Some r"
        using ih L' True by auto
      with r show ?thesis by blast
    qed (use ih L' that in auto)
    moreover have "outbox_row_of i (w_db (ticks x w publish n st')) = outbox_row_of i (w_db st)"
      if "i \<notin> ?L" for i
    proof -
      have "i \<notin> ?B" using that st'(4) by blast
      then have "outbox_row_of i (w_db st') = outbox_row_of i (w_db st)"
        using st'(7) outside_backlog [OF Suc.prems(2) that] by simp
      then show ?thesis using ih L' that by simp
    qed
    moreover have "card ?B \<le> card ?L" using st'(4) by (intro card_mono) auto
    ultimately show ?case unfolding run using ih L' cd st'(8-10) by simp
  qed
  then show "\<forall>i \<in> backlog w (w_clock st) (w_db st).
      \<exists>r. outbox_row_of i (w_db (ticks x w publish n st)) = Some r \<and> or_status r = PUBLISHED"
    and "\<forall>i. i \<notin> backlog w (w_clock st) (w_db st) \<longrightarrow>
      outbox_row_of i (w_db (ticks x w publish n st)) = outbox_row_of i (w_db st)"
    and "m_published (ticks x w publish n st) = m_published st + card (backlog w (w_clock st) (w_db st))"
    and "m_failed (ticks x w publish n st) = m_failed st" and "m_closed (ticks x w publish n st) = m_closed st"
    by blast+
qed

section \<open>A context error stops the batch\<close>

text \<open>A batch is worked off up to an event, whatever the answers so far, as long as they are no context
  errors.\<close>

lemma process_events_append:
  "process_events x w publish (pre @ evs) st =
     (case process_events x w publish pre st of
        (None, st1) \<Rightarrow> process_events x w publish evs st1
      | stopped \<Rightarrow> stopped)"
  by (induction pre arbitrary: st) (auto simp: process_events_Cons Let_def split: prod.splits option.splits)

text \<open>It stops exactly at the first context error: that error is returned, the world is the one the
  events before have left, but for the publisher that was asked once more.\<close>

lemma process_events_stops_iff:
  "process_events x w publish evs st = (Some err, st') \<longleftrightarrow>
    (\<exists>pre ev post st1 p'. evs = pre @ ev # post \<and> process_events x w publish pre st = (None, st1) \<and>
       publish (w_pub st1) ev = (Some err, p') \<and> is_ctx_error err \<and> st' = st1\<lparr>w_pub := p'\<rparr>)"
  (is "?stops evs st \<longleftrightarrow> ?first evs st")
proof
  show "?stops evs st \<Longrightarrow> ?first evs st"
  proof (induction evs arbitrary: st)
    case (Cons ev evs)
    obtain res p1 where p: "publish (w_pub st) ev = (res, p1)" by fastforce
    show ?case
    proof (cases "\<exists>e. res = Some e \<and> is_ctx_error e")
      case True
      then have "res = Some err" "is_ctx_error err" "st' = st\<lparr>w_pub := p1\<rparr>" using Cons.prems p by (auto simp: process_events_Cons Let_def)
      then show ?thesis using p by (intro exI [of _ "[]"] exI [of _ ev] exI [of _ evs] exI [of _ st] exI [of _ p1]) simp
    next
      case False
      define st1 where "st1 = (case res of None \<Rightarrow> on_publish_success x ev (st\<lparr>w_pub := p1\<rparr>)
        | Some e \<Rightarrow> on_publish_failure x w ev e (st\<lparr>w_pub := p1\<rparr>))"
      have go: "process_events x w publish (ev # more) st = process_events x w publish more st1" for more
        using False p by (auto simp: process_events_Cons Let_def st1_def split: option.splits)
      with Cons.prems have "?first evs st1" by (intro Cons.IH) simp
      then obtain pre e post st2 p' where "evs = pre @ e # post" "process_events x w publish pre st1 = (None, st2)"
        "publish (w_pub st2) e = (Some err, p')" "is_ctx_error err" "st' = st2\<lparr>w_pub := p'\<rparr>" by blast
      then show ?thesis using go [of pre]
        by (intro exI [of _ "ev # pre"] exI [of _ e] exI [of _ post] exI [of _ st2] exI [of _ p']) simp
    qed
  qed simp
next
  show "?first evs st \<Longrightarrow> ?stops evs st" by (auto simp: process_events_append process_events_Cons Let_def)
qed

text \<open>The rows of the other events stay as they are while a prefix of the batch is settled.\<close>

lemma process_events_rows:
  "i \<notin> set (map oe_id evs) \<Longrightarrow>
   outbox_row_of i (w_db (snd (process_events x w publish evs st))) = outbox_row_of i (w_db st)"
proof (induction evs arbitrary: st)
  case (Cons ev evs)
  then show ?case
    by (auto simp: process_events_Cons Let_def on_publish_success_other on_publish_failure_other split: option.splits)
qed simp

section \<open>Properties\<close>

text \<open>A world with two due rows, at time 20.\<close>

definition example_config :: worker_config where
  "example_config = NewOutboxWorker 5 10 3 1000 60000 30 0"

definition example_world :: "'p \<Rightarrow> 'p world" where
  "example_world p =
     \<lparr>w_db = example_db [(1, 10, PENDING), (2, 5, PENDING)], w_pub = p, w_clock = 20, w_skew = 0,
      w_calls = [], w_seeds = [], m_published = 0, m_failed = 0, m_closed = 0\<rparr>"

lemma example_world_facts:
  "wf_db (w_db (example_world p))" "smooth_world (example_world p)" "w_calls (example_world p) = []"
  "0 \<le> wc_batch_size example_config" "wc_max_retries example_config \<le> int4_max"
  by (simp_all add: example_world_def example_config_def NewOutboxWorker_def example_defs
      smooth_world_def int4_max_def)

lemma LogPublish_answers: "answers LogPublish p evs = replicate (length evs) None"
  by (induction evs arbitrary: p) (simp_all add: LogPublish_def)

lemma example_batch:
  "batch_rows example_config (example_world p) = [example_row 2 5 PENDING, example_row 1 10 PENDING]"
  by (simp add: batch_rows_def claim_call_def reclaimStale_def example_world_def example_config_def
      NewOutboxWorker_def next_call_def select_pending_def first_by_def eligible_def example_db_def
      example_row_def)

lemma row_settled_meaning:
  "row_settled w a (set_processing t r) r' \<Longrightarrow>
   (case a of
      None \<Rightarrow> or_status r' = PUBLISHED \<and> or_attempts r' = or_attempts r
    | Some err \<Rightarrow>
        or_last_error r' = Some (error_text err) \<and>
        (if or_attempts r \<ge> wc_max_retries w
         then or_status r' = CLOSE \<and> or_attempts r' = or_attempts r
         else or_status r' = PENDING \<and> or_attempts r' = or_attempts r + 1))"
  by (cases a) (auto simp: row_settled_def row_writers split: if_splits)

text \<open>C14: the functional specification of a tick whose database calls succeed and whose publisher
  meets no context error.  The tick reports no error; the claimed batch is the oldest due rows
  after the stale ones were taken back; each of its rows is settled by the publisher's answer:
  PUBLISHED on nil, PENDING again with one more attempt and the error's text while attempts are
  left, CLOSE with the text when none are; every other row is as the reclaim left it; and the
  counters grow by the numbers of successes, failures and closings.\<close>

theorem tick_settles_batch:
  fixes publish :: "'p publisher" and st :: "'p world"
  assumes "wf_db (w_db st)" and "smooth_world st" and "0 \<le> wc_batch_size w"
    and "wc_max_retries w \<le> int4_max"
    and "plain_answers (answers publish (w_pub st) (map claimed_event (batch_rows w st)))"
  shows "let rows = batch_rows w st; evs = map claimed_event rows; as = answers publish (w_pub st) evs;
      (res, st') = process x w publish st
    in res = None \<and>
      list_all2 (\<lambda>r a. \<exists>r'. outbox_row_of (or_id r) (w_db st') = Some r' \<and>
        (case a of
           None \<Rightarrow> or_status r' = PUBLISHED \<and> or_attempts r' = or_attempts r
         | Some err \<Rightarrow>
             or_last_error r' = Some (error_text err) \<and>
             (if or_attempts r \<ge> wc_max_retries w
              then or_status r' = CLOSE \<and> or_attempts r' = or_attempts r
              else or_status r' = PENDING \<and> or_attempts r' = or_attempts r + 1))) rows as \<and>
      (\<forall>i. i \<notin> or_id ` set rows \<longrightarrow>
        outbox_row_of i (w_db st') = outbox_row_of i (w_db (reclaimStale w st))) \<and>
      m_published st' = m_published st + count_if (\<lambda>a. a = None) as \<and>
      m_failed st' = m_failed st + count_if (\<lambda>a. a \<noteq> None) as \<and>
      m_closed st' = m_closed st + count_if (closes w) (zip evs as)"
proof -
  let ?rows = "batch_rows w st"
  let ?as = "answers publish (w_pub st) (map claimed_event ?rows)"
  obtain st' where st': "process x w publish st = (None, st')"
    "list_all2 (\<lambda>r a. \<exists>r'. outbox_row_of (or_id r) (w_db st') = Some r' \<and>
        row_settled w a (set_processing (claim_time w st) r) r') ?rows ?as"
    "\<And>i. i \<notin> or_id ` set ?rows \<Longrightarrow> outbox_row_of i (w_db st') = outbox_row_of i (w_db (reclaimStale w st))"
    "m_published st' = m_published st + count_if (\<lambda>a. a = None) ?as"
    "m_failed st' = m_failed st + count_if (\<lambda>a. a \<noteq> None) ?as"
    "m_closed st' = m_closed st + count_if (closes w) (zip (map claimed_event ?rows) ?as)"
    by (rule process_settles [OF assms, of x]) (rule that; assumption)
  have "list_all2 (\<lambda>r a. \<exists>r'. outbox_row_of (or_id r) (w_db st') = Some r' \<and>
      (case a of
         None \<Rightarrow> or_status r' = PUBLISHED \<and> or_attempts r' = or_attempts r
       | Some err \<Rightarrow>
           or_last_error r' = Some (error_text err) \<and>
           (if or_attempts r \<ge> wc_max_retries w
            then or_status r' = CLOSE \<and> or_attempts r' = or_attempts r
            else or_status r' = PENDING \<and> or_attempts r' = or_attempts r + 1))) ?rows ?as"
    by (rule list_all2_mono [OF st'(2)]) (use row_settled_meaning in blast)
  with st' show ?thesis unfolding Let_def by simp
qed

abbreviation log_world :: "log_publisher world" where
  "log_world \<equiv> example_world []"

theorem tick_settles_batch_witness:
  "let rows = batch_rows example_config log_world; evs = map claimed_event rows;
      as = answers LogPublish (w_pub log_world) evs;
      (res, st') = process plain_externals example_config LogPublish log_world
    in res = None \<and>
      list_all2 (\<lambda>r a. \<exists>r'. outbox_row_of (or_id r) (w_db st') = Some r' \<and>
        (case a of
           None \<Rightarrow> or_status r' = PUBLISHED \<and> or_attempts r' = or_attempts r
         | Some err \<Rightarrow>
             or_last_error r' = Some (error_text err) \<and>
             (if or_attempts r \<ge> wc_max_retries example_config
              then or_status r' = CLOSE \<and> or_attempts r' = or_attempts r
              else or_status r' = PENDING \<and> or_attempts r' = or_attempts r + 1))) rows as \<and>
      (\<forall>i. i \<notin> or_id ` set rows \<longrightarrow>
        outbox_row_of i (w_db st') = outbox_row_of i (w_db (reclaimStale example_config log_world))) \<and>
      m_published st' = m_published log_world + count_if (\<lambda>a. a = None) as \<and>
      m_failed st' = m_failed log_world + count_if (\<lambda>a. a \<noteq> None) as \<and>
      m_closed st' = m_closed log_world + count_if (closes example_config) (zip evs as)"
  by (rule tick_settles_batch; (rule example_world_facts)?)
    (simp add: plain_answers_def list_all_iff LogPublish_answers)

text \<open>C15: the queue drains.  With a database that answers and a publisher that accepts every
  payload of the table, after as many ticks as the backlog has batches every row of the backlog
  (the due rows and the stale claims) is PUBLISHED, every other row is untouched, and the
  published counter has grown by exactly the size of the backlog.\<close>

theorem healthy_ticks_drain:
  assumes "wf_db (w_db st)" and "w_calls st = []" and "0 \<le> wc_batch_size w"
    and "wc_max_retries w \<le> int4_max" and "accepts_table publish (w_db st)"
    and "card (backlog w (w_clock st) (w_db st)) \<le> n * nat (wc_batch_size w)"
  shows "let st' = ticks x w publish n st; L = backlog w (w_clock st) (w_db st) in
    (\<forall>i \<in> L. \<exists>r. outbox_row_of i (w_db st') = Some r \<and> or_status r = PUBLISHED) \<and>
    (\<forall>i. i \<notin> L \<longrightarrow> outbox_row_of i (w_db st') = outbox_row_of i (w_db st)) \<and>
    m_published st' = m_published st + card L \<and> m_failed st' = m_failed st \<and> m_closed st' = m_closed st"
  unfolding Let_def using drain [OF assms, of x] by blast

theorem healthy_ticks_drain_witness:
  "let st = log_world; w = example_config; st' = ticks plain_externals w LogPublish 1 st;
       L = backlog w (w_clock st) (w_db st) in
    (\<forall>i \<in> L. \<exists>r. outbox_row_of i (w_db st') = Some r \<and> or_status r = PUBLISHED) \<and>
    (\<forall>i. i \<notin> L \<longrightarrow> outbox_row_of i (w_db st') = outbox_row_of i (w_db st)) \<and>
    m_published st' = m_published st + card L \<and> m_failed st' = m_failed st \<and> m_closed st' = m_closed st"
proof -
  have "backlog example_config 20 (w_db log_world) \<subseteq> {1, 2}"
    by (auto simp: backlog_def example_world_def example_defs outbox_row_of_def split: if_splits)
  then have "card (backlog example_config 20 (w_db log_world)) \<le> card {1, 2 :: uuid}"
    by (intro card_mono) auto
  then have c: "card (backlog example_config (w_clock log_world)
      (w_db log_world)) \<le> 1 * nat (wc_batch_size example_config)"
    by (simp add: example_config_def NewOutboxWorker_def example_world_def)
  show ?thesis unfolding Let_def [of log_world] Let_def [of example_config]
    by (rule healthy_ticks_drain [OF example_world_facts(1,3,4,5) _ c])
      (simp add: accepts_table_def LogPublish_def)
qed

text \<open>C21: a canceled context stops the batch where it is.  Once the claim is answered, a tick ends
  with an error exactly when some event of the batch, after all before it were settled, is
  answered with that error and the error is, or wraps, \<open>context.Canceled\<close> or
  \<open>context.DeadlineExceeded\<close>.  Then the tick ends in the world the events before have left, but
  for the publisher's state: nothing is counted, and the rows of that event and of every later one
  are still as the claim left them, so only a reclaim can bring them back.\<close>

theorem context_error_stops_batch:
  assumes "fst (claim_result w st) = Inr evs"
  shows "process x w publish st = (Some err, st') \<longleftrightarrow>
    (\<exists>pre ev post st1 p'. evs = pre @ ev # post \<and>
       process_events x w publish pre (batch_world w st) = (None, st1) \<and>
       publish (w_pub st1) ev = (Some err, p') \<and>
       (is_err err Canceled \<or> is_err err DeadlineExceeded) \<and> st' = st1\<lparr>w_pub := p'\<rparr> \<and>
       (\<forall>i. i \<notin> set (map oe_id pre) \<longrightarrow>
         outbox_row_of i (w_db st') = outbox_row_of i (snd (claim_result w st))))"
proof -
  have rows: "outbox_row_of i (w_db (st1\<lparr>w_pub := p'\<rparr>)) = outbox_row_of i (snd (claim_result w st))"
    if "process_events x w publish pre (batch_world w st) = (None, st1)" "i \<notin> set (map oe_id pre)" for pre st1 p' i
    using process_events_rows [OF that(2), of x w publish "batch_world w st"] that(1) by simp
  show ?thesis
    unfolding process_unfold assms sum.case process_events_stops_iff is_ctx_error_def
    using rows by blast
qed

definition canceled_publisher :: "nat publisher" where
  "canceled_publisher n ev = (if n = 0 then (Some (Sentinel Canceled), 0) else (None, n - 1))"

lemma example_pub: "w_pub (example_world p) = p"
  by (simp add: example_world_def)

theorem context_error_stops_batch_witness:
  "let w = example_config; st = example_world (1 :: nat) in
    \<exists>pre ev post st1 p'. map claimed_event (batch_rows w st) = pre @ ev # post \<and>
       process_events plain_externals w canceled_publisher pre (batch_world w st) = (None, st1) \<and>
       canceled_publisher (w_pub st1) ev = (Some (Sentinel Canceled), p') \<and>
       snd (process plain_externals w canceled_publisher st) = st1\<lparr>w_pub := p'\<rparr>"
proof -
  let ?st = "example_world (1 :: nat)"
  have claim: "fst (claim_result example_config ?st) = Inr (map claimed_event (batch_rows example_config ?st))"
    by (simp add: smooth_claim example_world_facts)
  have "process plain_externals example_config canceled_publisher ?st =
      (Some (Sentinel Canceled), snd (process plain_externals example_config canceled_publisher ?st))"
    by (rule prod_eqI) (simp_all add: process_unfold smooth_claim example_world_facts example_batch
      process_events_Cons canceled_publisher_def example_pub)
  from context_error_stops_batch [OF claim, THEN iffD1, OF this] show ?thesis
    unfolding Let_def by blast
qed

end
