(* ===== verification/Lifecycle.thy ===== *)
theory Lifecycle
  imports Worker_Runs
begin

text \<open>
  The life of a worker (internal/event/application/outbox_worker.go): the state cell and its
  compare-and-swap loop, and \<open>Run\<close> with the goroutine that watches for the shutdown.  The
  two goroutines interleave step by step over the shared flags; the caller cancels the context
  at any time, time passes in between, and a batch takes as long as it takes.
\<close>

section \<open>The state cell\<close>

datatype worker_state = workerStarting | workerRunning | workerStopping | workerStopped

fun state_code :: "worker_state \<Rightarrow> int" where
  "state_code workerStarting = 0"
| "state_code workerRunning = 1"
| "state_code workerStopping = 2"
| "state_code workerStopped = 3"

fun state_String :: "worker_state \<Rightarrow> string" where
  "state_String workerStarting = ''STARTING''"
| "state_String workerRunning = ''RUNNING''"
| "state_String workerStopping = ''STOPPING''"
| "state_String workerStopped = ''STOPPED''"

lemma state_code_inject [simp]: "state_code a = state_code b \<longleftrightarrow> a = b"
  by (cases a; cases b) simp_all

instantiation worker_state :: linorder
begin

definition less_eq_worker_state :: "worker_state \<Rightarrow> worker_state \<Rightarrow> bool" where
  "less_eq_worker_state a b \<longleftrightarrow> state_code a \<le> state_code b"

definition less_worker_state :: "worker_state \<Rightarrow> worker_state \<Rightarrow> bool" where
  "less_worker_state a b \<longleftrightarrow> state_code a < state_code b"

instance
  by standard (auto simp: less_eq_worker_state_def less_worker_state_def)

end

lemmas state_order = less_eq_worker_state_def less_worker_state_def

lemma state_bounds [simp]: "workerStarting \<le> s" "s \<le> workerStopped"
  by (cases s; simp add: state_order)+

text \<open>The loop of \<open>advanceState\<close>: each iteration loads the cell, and swaps it unless another
  goroutine changed it in between.  The list holds what the cell contains at each of the swaps;
  when the list ends nobody interferes any more.\<close>

fun advanceState :: "worker_state \<Rightarrow> worker_state list \<Rightarrow> worker_state \<Rightarrow> worker_state" where
  "advanceState s [] current = (if s \<le> current then current else s)"
| "advanceState s (seen # later) current =
     (if s \<le> current then current
      else if seen = current then s
      else advanceState s later seen)"

text \<open>When the others, too, only move the cell forward, the loop is an atomic maximum: it leaves
  the cell at least at \<open>s\<close>, never moves it back, and gives up only when the cell is at
  \<open>s\<close> or beyond.\<close>

lemma advanceState_max:
  assumes "sorted (current # seen)"
  shows "\<exists>c \<in> set (current # seen). advanceState s seen current = max s c"
  using assms
proof (induction seen arbitrary: current)
  case (Cons v vs)
  show ?case
  proof (cases "s \<le> current \<or> v = current")
    case True
    then show ?thesis by (cases "s \<le> current") (auto simp: max_def)
  next
    case False
    then obtain c where "c \<in> set (v # vs)" "advanceState s vs v = max s c"
      using Cons.IH [of v] Cons.prems by auto
    with False show ?thesis by auto
  qed
qed (simp add: max_def)

lemma advanceState_forward:
  "sorted (current # seen) \<Longrightarrow> s \<le> advanceState s seen current \<and> current \<le> advanceState s seen current"
  using advanceState_max [of current seen s] by (auto simp: le_max_iff_disj)

text \<open>A failed swap means that the cell moved forward, so the loop runs at most four times.\<close>

fun swaps :: "worker_state \<Rightarrow> worker_state list \<Rightarrow> worker_state \<Rightarrow> nat" where
  "swaps s [] current = (if s \<le> current then 0 else 1)"
| "swaps s (seen # later) current =
     (if s \<le> current then 0 else if seen = current then 1 else 1 + swaps s later seen)"

lemma swaps_bound:
  "sorted (current # seen) \<Longrightarrow> int (swaps s seen current) \<le> max 0 (state_code s - state_code current)"
proof (induction seen arbitrary: current)
  case (Cons v vs)
  show ?case
  proof (cases "s \<le> current \<or> v = current")
    case False
    then have "int (swaps s vs v) \<le> max 0 (state_code s - state_code v)" "state_code current < state_code v"
      using Cons by (auto simp: state_order order_le_less)
    with False show ?thesis by (auto simp: state_order)
  qed (auto simp: state_order)
qed (auto simp: state_order)

section \<open>Run and its watcher\<close>

text \<open>Where the two goroutines are.\<close>

datatype main_pc =
    M_Start | M_Ready | M_Select | M_Checked | M_Batch | M_CtxSeen | M_Stopped
  | M_Returned failure | M_Closed failure

datatype watch_pc = W_None | W_Wait | W_CtxSeen | W_Timer time | W_Fired | W_Exit

record run_ctl =
  rs_main :: main_pc
  rs_watch :: watch_pc
  rs_state :: worker_state
  rs_ctx_done :: "time option"      \<comment> \<open>when the caller canceled the context\<close>
  rs_stopped :: bool                \<comment> \<open>the channel \<open>stopped\<close> is closed\<close>
  rs_timed_out :: bool
  rs_proc_canceled :: bool          \<comment> \<open>the context of the in-flight work is canceled\<close>
  rs_now :: time
  rs_late :: nat                    \<comment> \<open>history: batches begun after the cancellation\<close>

record 'p run_state = run_ctl +
  rs_world :: "'p world"
  rs_batches :: nat                 \<comment> \<open>history: batches finished\<close>

definition ctl_init :: "time \<Rightarrow> run_ctl" where
  "ctl_init now =
     \<lparr>rs_main = M_Start, rs_watch = W_None, rs_state = workerStarting, rs_ctx_done = None,
      rs_stopped = False, rs_timed_out = False, rs_proc_canceled = False, rs_now = now, rs_late = 0\<rparr>"

definition run_init :: "time \<Rightarrow> 'p world \<Rightarrow> 'p run_state" where
  "run_init now st = run_ctl.extend (ctl_init now) \<lparr>rs_world = st, rs_batches = 0\<rparr>"

definition advance_to :: "worker_state \<Rightarrow> 'z run_ctl_scheme \<Rightarrow> 'z run_ctl_scheme" where
  "advance_to s r = r\<lparr>rs_state := advanceState s [] (rs_state r)\<rparr>"

text \<open>The steps of the two goroutines themselves, whatever the batches do.\<close>

inductive ctl_step :: "worker_config \<Rightarrow> 'z run_ctl_scheme \<Rightarrow> 'z run_ctl_scheme \<Rightarrow> bool"
  for w :: worker_config
where
  start: "rs_main r = M_Start \<Longrightarrow>
    ctl_step w r ((advance_to workerStarting r)\<lparr>rs_main := M_Ready, rs_watch := W_Wait\<rparr>)"
| running: "rs_main r = M_Ready \<Longrightarrow>
    ctl_step w r ((advance_to workerRunning r)\<lparr>rs_main := M_Select\<rparr>)"
| select_ctx: "rs_main r = M_Select \<Longrightarrow> rs_ctx_done r \<noteq> None \<Longrightarrow>
    ctl_step w r (r\<lparr>rs_main := M_CtxSeen\<rparr>)"
| select_tick_late: "rs_main r = M_Select \<Longrightarrow> rs_ctx_done r \<noteq> None \<Longrightarrow> ctl_step w r r"
| select_tick: "rs_main r = M_Select \<Longrightarrow> rs_ctx_done r = None \<Longrightarrow>
    ctl_step w r (r\<lparr>rs_main := M_Checked\<rparr>)"
| batch: "rs_main r = M_Checked \<Longrightarrow>
    ctl_step w r (r\<lparr>rs_main := M_Batch,
      rs_late := rs_late r + (if rs_ctx_done r = None then 0 else 1)\<rparr>)"
| stopped: "rs_main r = M_CtxSeen \<Longrightarrow>
    ctl_step w r ((advance_to workerStopped r)\<lparr>rs_main := M_Stopped\<rparr>)"
| return: "rs_main r = M_Stopped \<Longrightarrow>
    ctl_step w r (r\<lparr>rs_main :=
      M_Returned (if rs_timed_out r then Some (Sentinel ErrShutdownTimeout) else None)\<rparr>)"
| close: "rs_main r = M_Returned f \<Longrightarrow>
    ctl_step w r (r\<lparr>rs_main := M_Closed f, rs_stopped := True, rs_proc_canceled := True\<rparr>)"
| watch_ctx: "rs_watch r = W_Wait \<Longrightarrow> rs_ctx_done r \<noteq> None \<Longrightarrow>
    ctl_step w r (r\<lparr>rs_watch := W_CtxSeen\<rparr>)"
| watch_stopped: "rs_watch r = W_Wait \<or> rs_watch r = W_Timer d \<Longrightarrow> rs_stopped r \<Longrightarrow>
    ctl_step w r (r\<lparr>rs_watch := W_Exit\<rparr>)"
| watch_stopping: "rs_watch r = W_CtxSeen \<Longrightarrow>
    ctl_step w r
      ((advance_to workerStopping r)\<lparr>rs_watch := W_Timer (rs_now r + wc_shutdown_timeout w)\<rparr>)"
| watch_fire: "rs_watch r = W_Timer d \<Longrightarrow> d \<le> rs_now r \<Longrightarrow>
    ctl_step w r (r\<lparr>rs_watch := W_Fired, rs_timed_out := True\<rparr>)"
| watch_cancel: "rs_watch r = W_Fired \<Longrightarrow>
    ctl_step w r (r\<lparr>rs_watch := W_Exit, rs_proc_canceled := True\<rparr>)"

text \<open>\<open>Run\<close> over a world of its own: a batch is a tick; the caller may cancel, and time passes.\<close>

inductive run_step ::
  "externals \<Rightarrow> worker_config \<Rightarrow> 'p publisher \<Rightarrow> 'p run_state \<Rightarrow> 'p run_state \<Rightarrow> bool"
  for x :: externals and w :: worker_config and publish :: "'p publisher"
where
  control: "ctl_step w r r' \<Longrightarrow> run_step x w publish r r'"
| batch_done: "rs_main r = M_Batch \<Longrightarrow>
    run_step x w publish r (r\<lparr>rs_main := M_Select,
      rs_world := snd (process x w publish (rs_world r)), rs_batches := rs_batches r + 1\<rparr>)"
| cancel: "rs_ctx_done r = None \<Longrightarrow> run_step x w publish r (r\<lparr>rs_ctx_done := Some (rs_now r)\<rparr>)"
| time_passes: "0 \<le> d \<Longrightarrow> run_step x w publish r (r\<lparr>rs_now := rs_now r + d\<rparr>)"

inductive_cases run_stepE: "run_step x w publish r r'"
inductive_cases ctl_stepE: "ctl_step w r r'"

lemma advance_to_simps [simp]:
  "rs_state (advance_to s r) = max s (rs_state r)" "rs_main (advance_to s r) = rs_main r"
  "rs_watch (advance_to s r) = rs_watch r" "rs_ctx_done (advance_to s r) = rs_ctx_done r"
  "rs_stopped (advance_to s r) = rs_stopped r" "rs_timed_out (advance_to s r) = rs_timed_out r"
  "rs_proc_canceled (advance_to s r) = rs_proc_canceled r" "rs_now (advance_to s r) = rs_now r"
  "rs_late (advance_to s r) = rs_late r" "run_ctl.more (advance_to s r) = run_ctl.more r"
  by (simp_all add: advance_to_def max_def)

lemma ctl_step_frame:
  "ctl_step w r r' \<Longrightarrow> rs_now r' = rs_now r \<and> rs_ctx_done r' = rs_ctx_done r \<and> run_ctl.more r' = run_ctl.more r"
  by (erule ctl_stepE) simp_all

lemma ctl_step_world:
  "ctl_step w r r' \<Longrightarrow> rs_world r' = rs_world r \<and> rs_batches r' = rs_batches r"
  by (drule ctl_step_frame) (cases r; cases r'; simp)

inductive run_reach ::
  "externals \<Rightarrow> worker_config \<Rightarrow> 'p publisher \<Rightarrow> 'p run_state \<Rightarrow> 'p run_state \<Rightarrow> bool"
  for x w publish r0
where
  here: "run_reach x w publish r0 r0"
| more: "run_reach x w publish r0 r \<Longrightarrow> run_step x w publish r r' \<Longrightarrow> run_reach x w publish r0 r'"

section \<open>The invariant\<close>

definition inv_timer :: "worker_config \<Rightarrow> 'z run_ctl_scheme \<Rightarrow> bool" where
  "inv_timer w r \<longleftrightarrow>
     (case rs_ctx_done r of
        None \<Rightarrow> rs_watch r \<in> {W_None, W_Wait, W_Exit} \<and> \<not> rs_timed_out r
      | Some t \<Rightarrow> t \<le> rs_now r \<and>
          (\<forall>d. rs_watch r = W_Timer d \<longrightarrow> t + wc_shutdown_timeout w \<le> d) \<and>
          (rs_watch r = W_Fired \<longrightarrow> rs_timed_out r) \<and>
          (rs_timed_out r \<longrightarrow> t + wc_shutdown_timeout w \<le> rs_now r))"

definition inv_return :: "'z run_ctl_scheme \<Rightarrow> bool" where
  "inv_return r \<longleftrightarrow>
     (case rs_main r of
        M_CtxSeen \<Rightarrow> rs_ctx_done r \<noteq> None \<and> rs_state r \<noteq> workerStopped \<and> \<not> rs_stopped r
      | M_Stopped \<Rightarrow> rs_ctx_done r \<noteq> None \<and> rs_state r = workerStopped \<and> \<not> rs_stopped r
      | M_Returned f \<Rightarrow> rs_ctx_done r \<noteq> None \<and> rs_state r = workerStopped \<and> \<not> rs_stopped r \<and>
          (f = None \<or> f = Some (Sentinel ErrShutdownTimeout) \<and> rs_timed_out r)
      | M_Closed f \<Rightarrow> rs_ctx_done r \<noteq> None \<and> rs_state r = workerStopped \<and> rs_stopped r \<and>
          (f = None \<or> f = Some (Sentinel ErrShutdownTimeout) \<and> rs_timed_out r)
      | _ \<Rightarrow> rs_state r \<noteq> workerStopped \<and> \<not> rs_stopped r)"

definition inv_cancel :: "'z run_ctl_scheme \<Rightarrow> bool" where
  "inv_cancel r \<longleftrightarrow> rs_proc_canceled r \<longrightarrow> rs_stopped r \<or> rs_timed_out r"

definition inv_late :: "'z run_ctl_scheme \<Rightarrow> bool" where
  "inv_late r \<longleftrightarrow> rs_late r \<le> 1 \<and> (rs_ctx_done r = None \<or> rs_main r = M_Checked \<longrightarrow> rs_late r = 0)"

definition run_inv :: "worker_config \<Rightarrow> 'z run_ctl_scheme \<Rightarrow> bool" where
  "run_inv w r \<longleftrightarrow> inv_timer w r \<and> inv_return r \<and> inv_cancel r \<and> inv_late r"

lemmas run_invs = run_inv_def inv_timer_def inv_return_def inv_cancel_def inv_late_def

lemma run_inv_init: "run_inv w (ctl_init now)" "run_inv w (run_init now st)"
  by (simp_all add: run_invs run_init_def ctl_init_def run_ctl.defs)

lemma max_state_simps [simp]:
  "max workerStarting s = s" "max workerStopped s = workerStopped"
  "max workerRunning s = workerStopped \<longleftrightarrow> s = workerStopped"
  "max workerStopping s = workerStopped \<longleftrightarrow> s = workerStopped"
  by (cases s; simp add: max_def state_order)+

lemma ctl_inv_timer: "ctl_step w r r' \<Longrightarrow> inv_timer w r \<Longrightarrow> inv_timer w r'"
  by (erule ctl_stepE) (auto simp: inv_timer_def split: option.splits)

lemma ctl_inv_return: "ctl_step w r r' \<Longrightarrow> inv_return r \<Longrightarrow> inv_return r'"
  by (erule ctl_stepE) (auto simp: inv_return_def split: main_pc.splits)

lemma ctl_inv_cancel: "ctl_step w r r' \<Longrightarrow> inv_timer w r \<Longrightarrow> inv_cancel r \<Longrightarrow> inv_cancel r'"
  by (erule ctl_stepE) (auto simp: inv_cancel_def inv_timer_def split: option.splits)

lemma ctl_inv_late: "ctl_step w r r' \<Longrightarrow> inv_late r \<Longrightarrow> inv_late r'"
  by (erule ctl_stepE) (auto simp: inv_late_def)

lemma ctl_step_inv: "ctl_step w r r' \<Longrightarrow> run_inv w r \<Longrightarrow> run_inv w r'"
  unfolding run_inv_def by (blast intro: ctl_inv_timer ctl_inv_return ctl_inv_cancel ctl_inv_late)

lemma run_inv_closed:
  assumes "run_inv w r" and "rs_main r = M_Closed f"
  shows "state_String (rs_state r) = ''STOPPED'' \<and>
    (f = None \<or> f = Some (Sentinel ErrShutdownTimeout) \<and>
      (\<exists>t. rs_ctx_done r = Some t \<and> t + wc_shutdown_timeout w \<le> rs_now r))"
  using assms by (auto simp: run_inv_def inv_return_def inv_timer_def split: option.splits)

text \<open>What the surroundings do keeps the invariant, too.\<close>

lemma run_inv_env:
  assumes "run_inv w r"
  shows "rs_ctx_done r = None \<Longrightarrow> run_inv w (r\<lparr>rs_ctx_done := Some (rs_now r)\<rparr>)"
    and "0 \<le> d \<Longrightarrow> run_inv w (r\<lparr>rs_now := rs_now r + d\<rparr>)"
    and "rs_main r = M_Batch \<Longrightarrow> run_inv w (r\<lparr>rs_main := M_Select\<rparr>)"
  using assms by (auto simp: run_invs split: option.splits main_pc.splits)

lemma run_inv_world [simp]: "run_inv w (r\<lparr>rs_world := st, rs_batches := k\<rparr>) = run_inv w r"
  by (simp add: run_invs split: option.split main_pc.split)

lemma run_step_inv:
  assumes "run_step x w publish r r'" and "run_inv w r"
  shows "run_inv w r'"
  using assms(1)
proof (cases rule: run_step.cases)
  case batch_done
  then show ?thesis
    using run_inv_env(3) [OF assms(2)] run_inv_world [where w = w and r = "r\<lparr>rs_main := M_Select\<rparr>"] by simp
qed (use assms(2) in \<open>auto intro: ctl_step_inv run_inv_env\<close>)

lemma run_reach_inv: "run_reach x w publish (run_init now st) r \<Longrightarrow> run_inv w r"
  by (induction rule: run_reach.induct) (auto intro: run_step_inv run_inv_init)

lemma run_step_state: "run_step x w publish r r' \<Longrightarrow> rs_state r \<le> rs_state r'"
  by (erule run_stepE) (auto elim!: ctl_stepE)

lemma run_reach_trans:
  "run_reach x w publish r1 r2 \<Longrightarrow> run_reach x w publish r0 r1 \<Longrightarrow> run_reach x w publish r0 r2"
  by (induction rule: run_reach.induct) (auto intro: run_reach.more)

lemma run_reach_state: "run_reach x w publish r r' \<Longrightarrow> rs_state r \<le> rs_state r'"
  by (induction rule: run_reach.induct) (auto dest: run_step_state)

text \<open>The world changes by whole ticks only.\<close>

lemma ticks_snoc: "ticks x w publish (Suc n) st = snd (process x w publish (ticks x w publish n st))"
  by (induction n arbitrary: st) simp_all

lemma run_reach_ticks:
  "run_reach x w publish (run_init now st) r \<Longrightarrow> rs_world r = ticks x w publish (rs_batches r) st"
proof (induction rule: run_reach.induct)
  case (more r r')
  from more.hyps(2) more.IH show ?case
    by (cases rule: run_step.cases) (auto simp: ticks_snoc dest: ctl_step_world simp del: ticks.simps(2))
qed (simp add: run_init_def run_ctl.defs)

section \<open>Run can always return\<close>

text \<open>Once the context is canceled a few steps of the main goroutine alone lead to the return,
  from every point of the program.\<close>

lemma main_returns:
  assumes "rs_ctx_done r \<noteq> None" and "rs_main r \<noteq> M_Start"
  shows "\<exists>r' f. run_reach x w publish r r' \<and> rs_main r' = M_Closed f"
proof -
  have closed: "\<exists>r' f. run_reach x w publish r r' \<and> rs_main r' = M_Closed f"
    if "rs_main r = M_Returned f" for r :: "'a run_state" and f
    using run_reach.more [OF run_reach.here run_step.control [OF ctl_step.close [OF that]]] by force
  have step: "\<exists>r' f. run_reach x w publish r r' \<and> rs_main r' = M_Closed f"
    if "run_step x w publish r r1" and "\<exists>r' f. run_reach x w publish r1 r' \<and> rs_main r' = M_Closed f"
    for r r1 :: "'a run_state"
    using that run_reach_trans run_reach.more [OF run_reach.here that(1)] by blast
  have stopped: "\<exists>r' f. run_reach x w publish r r' \<and> rs_main r' = M_Closed f"
    if "rs_main r = M_Stopped" for r :: "'a run_state"
    by (rule step [OF run_step.control [OF ctl_step.return [OF that]]], rule closed) simp
  have seen: "\<exists>r' f. run_reach x w publish r r' \<and> rs_main r' = M_Closed f"
    if "rs_main r = M_CtxSeen" for r :: "'a run_state"
    by (rule step [OF run_step.control [OF ctl_step.stopped [OF that]]], rule stopped) simp
  have select: "\<exists>r' f. run_reach x w publish r r' \<and> rs_main r' = M_Closed f"
    if "rs_main r = M_Select" "rs_ctx_done r \<noteq> None" for r :: "'a run_state"
    by (rule step [OF run_step.control [OF ctl_step.select_ctx [OF that]]], rule seen) simp
  have batch: "\<exists>r' f. run_reach x w publish r r' \<and> rs_main r' = M_Closed f"
    if "rs_main r = M_Batch" "rs_ctx_done r \<noteq> None" for r :: "'a run_state"
    by (rule step [OF run_step.batch_done [OF that(1)]], rule select) (use that in simp_all)
  have checked: "\<exists>r' f. run_reach x w publish r r' \<and> rs_main r' = M_Closed f"
    if "rs_main r = M_Checked" "rs_ctx_done r \<noteq> None" for r :: "'a run_state"
    by (rule step [OF run_step.control [OF ctl_step.batch [OF that(1)]]], rule batch) (use that in simp_all)
  have ready: "\<exists>r' f. run_reach x w publish r r' \<and> rs_main r' = M_Closed f"
    if "rs_main r = M_Ready" "rs_ctx_done r \<noteq> None" for r :: "'a run_state"
    by (rule step [OF run_step.control [OF ctl_step.running [OF that(1)]]], rule select) (use that in simp_all)
  show ?thesis using assms closed stopped seen select batch checked ready
    by (cases "rs_main r") (auto intro: run_reach.here)
qed

section \<open>Properties\<close>

text \<open>C30: the compare-and-swap loop acts as an atomic maximum.  However the other goroutines move
  the cell forward between its load and its swap, the loop ends with the maximum of its argument
  and a value the cell held on the way, so the state never goes back and reaches at least the
  argument; and it needs no more swaps than there are states between.\<close>

theorem advanceState_atomic_max:
  assumes "sorted (current # seen)"
  shows "(\<exists>c \<in> set (current # seen). advanceState s seen current = max s c) \<and>
    current \<le> advanceState s seen current \<and> swaps s seen current \<le> 3"
proof -
  have "int (swaps s seen current) \<le> 3"
    using swaps_bound [OF assms, of s] by (cases s; cases current) simp_all
  then show ?thesis using advanceState_max [OF assms, of s] advanceState_forward [OF assms, of s] by simp
qed

theorem advanceState_atomic_max_witness:
  "(\<exists>c \<in> set (workerStarting # [workerRunning, workerStopped]).
      advanceState workerStopping [workerRunning, workerStopped] workerStarting = max workerStopping c) \<and>
   workerStarting \<le> advanceState workerStopping [workerRunning, workerStopped] workerStarting \<and>
   swaps workerStopping [workerRunning, workerStopped] workerStarting \<le> 3"
  by (rule advanceState_atomic_max) simp

text \<open>C20: graceful shutdown.  In every state that \<open>Run\<close> and its watcher can reach, in any
  interleaving: once the context is canceled at most one more batch begins (the one whose check
  came before the cancellation); while \<open>Run\<close> has not returned, the context of the
  in-flight work is canceled only when the shutdown timeout has elapsed since the cancellation;
  \<open>Run\<close> returns nil or the shutdown-timeout error, the latter only when the timeout has
  elapsed, and then the state reads STOPPED; and all it has done to the world is a whole number
  of ticks.\<close>

theorem run_shuts_down_gracefully:
  assumes "run_reach x w publish (run_init now st) r"
  shows "rs_late r \<le> 1 \<and>
    (rs_proc_canceled r \<and> \<not> rs_stopped r \<longrightarrow>
      (\<exists>t. rs_ctx_done r = Some t \<and> t + wc_shutdown_timeout w \<le> rs_now r)) \<and>
    (\<forall>f. rs_main r = M_Closed f \<longrightarrow> state_String (rs_state r) = ''STOPPED'' \<and>
      (f = None \<or> f = Some (Sentinel ErrShutdownTimeout) \<and>
        (\<exists>t. rs_ctx_done r = Some t \<and> t + wc_shutdown_timeout w \<le> rs_now r))) \<and>
    rs_world r = ticks x w publish (rs_batches r) st"
proof -
  note inv = run_reach_inv [OF assms, unfolded run_inv_def]
  have timed: "rs_timed_out r \<Longrightarrow> \<exists>t. rs_ctx_done r = Some t \<and> t + wc_shutdown_timeout w \<le> rs_now r"
    using inv by (auto simp: inv_timer_def split: option.splits)
  have "rs_late r \<le> 1" using inv by (simp add: inv_late_def)
  moreover have "rs_proc_canceled r \<and> \<not> rs_stopped r \<longrightarrow>
      (\<exists>t. rs_ctx_done r = Some t \<and> t + wc_shutdown_timeout w \<le> rs_now r)"
    using inv timed by (auto simp: inv_cancel_def)
  moreover have "state_String (rs_state r) = ''STOPPED'' \<and>
      (f = None \<or> f = Some (Sentinel ErrShutdownTimeout) \<and>
        (\<exists>t. rs_ctx_done r = Some t \<and> t + wc_shutdown_timeout w \<le> rs_now r))"
    if "rs_main r = M_Closed f" for f
    by (rule run_inv_closed [OF run_reach_inv [OF assms] that])
  ultimately show ?thesis using run_reach_ticks [OF assms] by blast
qed

definition closed_run :: "log_publisher run_state" where
  "closed_run = (run_init 0 log_world)\<lparr>rs_main := M_Closed None, rs_watch := W_Wait,
     rs_state := workerStopped, rs_ctx_done := Some 0, rs_stopped := True, rs_proc_canceled := True\<rparr>"

lemma closed_run_reach:
  "run_reach plain_externals example_config LogPublish (run_init 0 log_world) closed_run"
proof -
  let ?step = "run_step plain_externals example_config LogPublish"
  define r1 where "r1 = (advance_to workerStarting (run_init 0 log_world))\<lparr>rs_main := M_Ready, rs_watch := W_Wait\<rparr>"
  define r2 where "r2 = (advance_to workerRunning r1)\<lparr>rs_main := M_Select\<rparr>"
  define r3 where "r3 = r2\<lparr>rs_ctx_done := Some (rs_now r2)\<rparr>"
  define r4 where "r4 = r3\<lparr>rs_main := M_CtxSeen\<rparr>"
  define r5 where "r5 = (advance_to workerStopped r4)\<lparr>rs_main := M_Stopped\<rparr>"
  define r6 where "r6 = r5\<lparr>rs_main :=
    M_Returned (if rs_timed_out r5 then Some (Sentinel ErrShutdownTimeout) else None)\<rparr>"
  define r7 where "r7 = r6\<lparr>rs_main := M_Closed None, rs_stopped := True, rs_proc_canceled := True\<rparr>"
  note d = r1_def r2_def r3_def r4_def r5_def r6_def r7_def run_init_def ctl_init_def run_ctl.defs advance_to_def
  have 1: "?step (run_init 0 log_world) r1" unfolding r1_def by (rule run_step.control, rule ctl_step.start) (simp add: run_init_def ctl_init_def run_ctl.defs)
  have 2: "?step r1 r2" unfolding r2_def by (rule run_step.control, rule ctl_step.running) (simp add: d)
  have 3: "?step r2 r3" unfolding r3_def by (rule run_step.cancel) (simp add: d)
  have 4: "?step r3 r4" unfolding r4_def by (rule run_step.control, rule ctl_step.select_ctx) (simp_all add: d)
  have 5: "?step r4 r5" unfolding r5_def by (rule run_step.control, rule ctl_step.stopped) (simp add: d)
  have 6: "?step r5 r6" unfolding r6_def by (rule run_step.control, rule ctl_step.return) (simp add: d)
  have 7: "?step r6 r7" unfolding r7_def by (rule run_step.control, rule ctl_step.close) (simp add: d)
  have "r7 = closed_run" by (simp add: d closed_run_def state_order)
  then show ?thesis
    using run_reach.more [OF run_reach.more [OF run_reach.more [OF run_reach.more [OF run_reach.more
      [OF run_reach.more [OF run_reach.more [OF run_reach.here 1] 2] 3] 4] 5] 6] 7] by simp
qed

theorem run_shuts_down_gracefully_witness:
  "rs_main closed_run = M_Closed None \<and> state_String (rs_state closed_run) = ''STOPPED'' \<and>
   rs_late closed_run \<le> 1 \<and>
   rs_world closed_run = ticks plain_externals example_config LogPublish (rs_batches closed_run) log_world"
proof -
  have m: "rs_main closed_run = M_Closed None" by (simp add: closed_run_def)
  note run = run_shuts_down_gracefully [OF closed_run_reach]
  show ?thesis using m run [THEN conjunct1] run [THEN conjunct2, THEN conjunct2] by blast
qed

text \<open>The lifecycle only moves forward: between any two states that an execution passes through
  in this order, the worker's state never decreases, whichever goroutine writes it.\<close>

lemma run_state_forward:
  assumes "run_reach x w publish r r'"
  shows "rs_state r \<le> rs_state r'"
  using assms by (rule run_reach_state)

text \<open>A canceled context always lets \<open>Run\<close> return: from every reachable state in which
  the context is canceled, some continuation returns, and it closes the channel the watcher
  waits on.\<close>

lemma run_can_return:
  assumes "run_reach x w publish (run_init now st) r" and "rs_ctx_done r \<noteq> None"
  shows "\<exists>r' f. run_reach x w publish r r' \<and> rs_main r' = M_Closed f \<and> rs_stopped r'"
proof -
  have "\<exists>r' f. run_reach x w publish r r' \<and> rs_main r' = M_Closed f"
  proof (cases "rs_main r = M_Start")
    case True
    let ?r1 = "(advance_to workerStarting r)\<lparr>rs_main := M_Ready, rs_watch := W_Wait\<rparr>"
    have s: "run_step x w publish r ?r1" by (rule run_step.control [OF ctl_step.start [OF True]])
    have "\<exists>r' f. run_reach x w publish ?r1 r' \<and> rs_main r' = M_Closed f"
      by (rule main_returns) (use assms(2) in simp_all)
    then show ?thesis using run_reach_trans run_reach.more [OF run_reach.here s] by blast
  qed (use main_returns [OF assms(2)] in blast)
  then obtain r' f where r': "run_reach x w publish r r'" "rs_main r' = M_Closed f" by blast
  have "rs_stopped r'"
    using run_reach_inv [OF run_reach_trans [OF r'(1) assms(1)]] r'(2)
    by (simp add: run_inv_def inv_return_def)
  with r' show ?thesis by blast
qed

end
