(* ===== verification/Cluster_Ticks.thy ===== *)
theory Cluster_Ticks
  imports Cluster Worker_Runs
begin

text \<open>
  The cluster is made of ticks: a whole tick of one worker, the code of \<open>process\<close> with its reclaim,
  its claim and the loop over the batch, is a run of the cluster while the other workers hold no
  rows locked.  So whatever is shown of the cluster's states holds of the states ticks lead to,
  by any workers in any order.
\<close>

section \<open>The clock and the calls of a tick\<close>

text \<open>The calls of a tick happen up to \<open>T\<close> and meet no locked rows.\<close>

definition calls_within :: "time \<Rightarrow> 'p world \<Rightarrow> bool" where
  "calls_within T st \<longleftrightarrow>
     w_clock st \<le> T \<and> list_all (\<lambda>c. dc_now c \<le> T \<and> dc_locked c = []) (w_calls st)"

lemma calls_within_next:
  assumes "calls_within T st"
  shows "calls_within T (snd (next_call st))" and "dc_now (fst (next_call st)) \<le> T"
    and "dc_locked (fst (next_call st)) = []"
  using assms by (auto simp: calls_within_def next_call_def quiet_call_def split: list.splits)

lemma calls_within_frame [simp]:
  "calls_within T (st\<lparr>w_db := d\<rparr>) = calls_within T st"
  "calls_within T (st\<lparr>w_pub := p\<rparr>) = calls_within T st"
  "calls_within T (st\<lparr>m_published := k\<rparr>) = calls_within T st"
  "calls_within T (st\<lparr>m_failed := k\<rparr>) = calls_within T st"
  "calls_within T (st\<lparr>m_closed := k\<rparr>) = calls_within T st"
  "calls_within T (snd (next_seed st)) = calls_within T st"
  by (simp_all add: calls_within_def)

lemma calls_within_ops:
  assumes "calls_within T st"
  shows "calls_within T (reclaimStale w st)" and "calls_within T (on_publish_success x ev st)"
    and "calls_within T (on_publish_failure x w ev err st)"
  using assms
  by (simp_all add: reclaimStale_def on_publish_success_def on_publish_failure_def Let_def split_beta
      calls_within_next)

lemma calls_within_exists:
  assumes "list_all (\<lambda>c. dc_locked c = []) (w_calls st)"
  shows "\<exists>T \<ge> t. calls_within T st"
proof -
  define T where "T = Max (set (t # w_clock st # map dc_now (w_calls st)))"
  have "u \<le> T" if "u \<in> set (t # w_clock st # map dc_now (w_calls st))" for u
    unfolding T_def using that by (intro Max_ge) simp_all
  then show ?thesis
    using assms by (intro exI [of _ T]) (auto simp: calls_within_def list_all_iff)
qed

section \<open>A tick inside the cluster\<close>

text \<open>The cluster while worker \<open>i\<close> ticks: its world is the shared one, the others stand still.\<close>

definition view :: "nat \<Rightarrow> time \<Rightarrow> (nat \<Rightarrow> worker_pc) \<Rightarrow> worker_pc \<Rightarrow> 'p world \<Rightarrow> 'p cluster" where
  "view i T pcs pc st = \<lparr>cl_db = w_db st, cl_now = T, cl_pub = w_pub st, cl_pc = pcs(i := pc)\<rparr>"

lemma view_simps [simp]:
  "cl_db (view i T pcs pc st) = w_db st" "cl_now (view i T pcs pc st) = T"
  "cl_pub (view i T pcs pc st) = w_pub st" "cl_pc (view i T pcs pc st) = pcs(i := pc)"
  by (simp_all add: view_def)

lemma locked_by_others_own [simp]: "locked_by_others n i (pcs(i := pc)) = locked_by_others n i pcs"
  by (simp add: locked_by_others_def cong: if_cong)

lemma settle_view:
  "w_db (settle x w ev answer (settle_world (w_clock st + w_skew st - T) (fst (next_call st)) (fst (next_seed st))
      (view i T pcs pc st))) = w_db (settle x w ev answer st)"
proof -
  define v where "v = settle_world (w_clock st + w_skew st - T) (fst (next_call st)) (fst (next_seed st))
    (view i T pcs pc st)"
  have v: "next_call v = (fst (next_call st), v\<lparr>w_calls := [], w_clock := dc_now (fst (next_call st))\<rparr>)"
    "fst (next_seed v) = fst (next_seed st)" "w_db v = w_db st" "time_Now v = time_Now st"
    by (simp_all add: v_def settle_world_def next_call_def next_seed_def time_Now_def)
  have "w_db (settle x w ev answer v) = w_db (settle x w ev answer st)"
  proof (cases answer)
    case None
    then show ?thesis by (simp add: settle_def on_publish_success_marks(1) [OF surjective_pairing] v)
  next
    case (Some err)
    then show ?thesis
      by (cases "oe_attempts ev \<ge> wc_max_retries w")
        (simp_all add: settle_def on_publish_failure_close(1) [OF _ surjective_pairing]
          on_publish_failure_retry(1) [OF _ surjective_pairing] retry_at_def v)
  qed
  then show ?thesis by (simp add: v_def)
qed

lemma process_events_run:
  assumes "process_events x w publish evs st = (res, st')" and "calls_within T st"
    and "i < n" and "locked_by_others n i pcs = []"
    and "cl_reach x w publish n s0 (view i T pcs (Working t evs) st)"
  shows "cl_reach x w publish n s0 (view i T pcs Idle st')"
  using assms(1,2,5)
proof (induction evs arbitrary: st)
  case Nil
  then show ?case
    using cl_reach.more [OF Nil.prems(3) cl_step.finish_batch [OF assms(3)]] by (simp add: view_def)
next
  case (Cons ev evs)
  obtain a p' where a: "publish (w_pub st) ev = (a, p')" by fastforce
  let ?st = "st\<lparr>w_pub := p'\<rparr>"
  have pub: "cl_reach x w publish n s0 (view i T pcs (case a of
      Some err \<Rightarrow> if is_ctx_error err then Idle else Settling t ev a evs | None \<Rightarrow> Settling t ev a evs) ?st)"
    using cl_reach.more [OF Cons.prems(3) cl_step.publish [OF assms(3), of _ t ev evs publish a p']] a
    by (simp add: view_def)
  show ?case
  proof (cases "\<exists>err. a = Some err \<and> is_ctx_error err")
    case True
    then show ?thesis using Cons.prems(1) a pub by (auto simp: process_events.simps(2))
  next
    case False
    let ?st1 = "settle x w ev a ?st"
    have set: "cl_reach x w publish n s0 (view i T pcs (Settling t ev a evs) ?st)"
      using pub False by (auto split: option.splits)
    have pub1: "w_pub ?st1 = p'" by (simp add: settle_def split: option.splits)
    have "cl_reach x w publish n s0 (view i T pcs (Working t evs) ?st1)"
      using cl_reach.more [OF set cl_step.settle [OF assms(3), where skew = "w_clock ?st + w_skew ?st - T"
          and c = "fst (next_call ?st)" and seed = "fst (next_seed ?st)"]] assms(4) settle_view [of x w ev a ?st T]
      by (simp add: view_def pub1)
    moreover have "process_events x w publish evs ?st1 = (res, st')"
      using Cons.prems(1) a False by (auto simp: process_events.simps(2) settle_def split: option.splits)
    moreover have "calls_within T ?st1"
      using Cons.prems(2) by (auto simp: settle_def calls_within_ops split: option.splits)
    ultimately show ?thesis by (intro Cons.IH)
  qed
qed

lemma reclaim_run:
  assumes "calls_within T st" and "i < n" and "locked_by_others n i pcs = []"
    and "cl_reach x w publish n s0 (view i T pcs Idle st)"
  shows "cl_reach x w publish n s0 (view i T pcs Idle (reclaimStale w st))"
proof (cases "wc_stale_timeout w \<le> 0")
  case True
  then show ?thesis using assms(4) by (simp add: reclaimStale_def)
next
  case False
  then show ?thesis
    using cl_reach.more [OF assms(4) cl_step.reclaim [OF assms(2), where c = "fst (next_call st)"]]
      calls_within_next [OF assms(1)] assms(3)
    by (simp add: view_def reclaimStale_db)
qed

lemma process_run:
  assumes "process x w publish st0 = (res, st')" and "wf_db (w_db st0)" and "calls_within T st0"
    and "i < n" and "locked_by_others n i pcs = []"
    and "cl_reach x w publish n s0 (view i T pcs Idle st0)"
  shows "cl_reach x w publish n s0 (view i T pcs Idle st')"
proof -
  let ?st = "reclaimStale w st0"
  let ?c = "fst (next_call ?st)"
  let ?sel = "select_pending ?c (wc_batch_size w) (db_outbox (w_db ?st))"
  let ?t = "update_outbox (\<lambda>r. r \<in> set ?sel) (set_processing (dc_now ?c)) (w_db ?st)"
  have r: "cl_reach x w publish n s0 (view i T pcs Idle ?st)"
    by (rule reclaim_run [OF assms(3-6)])
  have cw: "calls_within T ?st" by (rule calls_within_ops [OF assms(3)])
  obtain now where "table_moves now (\<lambda>l. l = Reclaimed) (w_db st0) (w_db ?st)" using reclaimStale_moves by blast
  then have wf: "wf_db (w_db ?st)" using table_moves_wf assms(2) by metis
  have claiming: "cl_reach x w publish n s0 (view i T pcs (Claiming (dc_now ?c) (map claimed_event ?sel)) ?st)"
    using cl_reach.more [OF r cl_step.claim_select [OF assms(4), where c = ?c]] calls_within_next [OF cw] assms(5)
    by (simp add: view_def)
  have upd: "update_outbox (\<lambda>r. or_id r \<in> set (map oe_id (map claimed_event ?sel))) (set_processing (dc_now ?c)) (w_db ?st) = ?t"
    using claim_update_eq [OF wf, of ?c "wc_batch_size w" "set_processing (dc_now ?c)"]
    by (simp add: comp_def scan_row_def)
  obtain a d where a: "ClaimPending ?c (wc_batch_size w) (w_db ?st) = (a, d)" by fastforce
  let ?st2 = "(snd (next_call ?st))\<lparr>w_db := d\<rparr>"
  have pr: "(case a of Inl err \<Rightarrow> (Some err, ?st2) | Inr evs \<Rightarrow> process_events x w publish evs ?st2) = (res, st')"
    using assms(1) a by (cases a) (simp_all add: process_def Let_def split_beta)
  consider (same) e where "a = Inl e" "d = w_db ?st" | (lost) e where "a = Inl e" "d = ?t"
    | (taken) "a = Inr (map claimed_event ?sel)" "d = ?t"
    using ClaimPending_cases [OF wf a] by blast
  then show ?thesis
  proof cases
    case same
    then show ?thesis using pr r by (auto simp: view_def)
  next
    case lost
    then show ?thesis
      using pr cl_reach.more [OF claiming cl_step.claim_ack_lost [OF assms(4)]]
      by (auto simp: view_def upd simp del: set_map map_map)
  next
    case taken
    have "cl_reach x w publish n s0 (view i T pcs (Working (dc_now ?c) (map claimed_event ?sel)) ?st2)"
      using cl_reach.more [OF claiming cl_step.claim_commit [OF assms(4)]]
      by (simp add: view_def upd taken del: set_map map_map)
    moreover have "calls_within T ?st2" using calls_within_next(1) [OF cw] by simp
    ultimately show ?thesis
      using pr taken(1) by (intro process_events_run [OF _ _ assms(4,5)]) simp_all
  qed
qed

section \<open>Properties\<close>

text \<open>C12: every tick is a run of the cluster.  Whatever its database calls answer, and whatever the
  publisher answers, a tick of an idle worker, started in a reachable state in which no other
  worker holds rows locked, leads to the state that steps of the cluster lead to as well: the
  shared database and publisher are as the tick leaves them, and the worker is idle again.  So
  every invariant of the cluster is one of the ticks' code.\<close>

theorem tick_is_cluster_run:
  assumes "cl_reach x w publish n (cluster_init s0 now p) s" and "wf_db s0" and "sound_columns x"
    and "i < n" and "cl_pc s i = Idle" and "locked_by_others n i (cl_pc s) = []"
    and "w_db st = cl_db s" and "w_pub st = cl_pub s" and "list_all (\<lambda>c. dc_locked c = []) (w_calls st)"
    and "process x w publish st = (res, st')"
  shows "\<exists>T. cl_reach x w publish n (cluster_init s0 now p)
    (s\<lparr>cl_db := w_db st', cl_now := T, cl_pub := w_pub st'\<rparr>)"
proof -
  obtain T where T: "cl_now s \<le> T" "calls_within T st" using calls_within_exists [OF assms(9)] by blast
  have idle: "(cl_pc s)(i := Idle) = cl_pc s" using assms(5) by (simp add: fun_upd_idem)
  then have "view i T (cl_pc s) Idle st = s\<lparr>cl_now := cl_now s + (T - cl_now s)\<rparr>"
    using assms(7,8) by (simp add: view_def)
  then have r: "cl_reach x w publish n (cluster_init s0 now p) (view i T (cl_pc s) Idle st)"
    using cl_reach.more [OF assms(1) cl_step.pass [of "T - cl_now s"]] T(1) by simp
  have "wf_db (w_db st)" using tx_inv_reach [OF assms(1-3)] by (simp add: tx_inv_def assms(7))
  from process_run [OF assms(10) this T(2) assms(4,6) r]
  show ?thesis using idle by (intro exI [of _ T]) (cases s, simp add: view_def)
qed

theorem tick_is_cluster_run_witness:
  "let s = cluster_init (w_db log_world) 20 [];
       st' = snd (process plain_externals example_config LogPublish log_world) in
   \<exists>T. cl_reach plain_externals example_config LogPublish 2 s (s\<lparr>cl_db := w_db st', cl_now := T, cl_pub := w_pub st'\<rparr>)"
proof -
  let ?s = "cluster_init (w_db log_world) 20 [] :: log_publisher cluster"
  have "cl_pc ?s 1 = Idle" "locked_by_others 2 1 (cl_pc ?s) = []"
    "w_db log_world = cl_db ?s" "w_pub log_world = cl_pub ?s"
    "list_all (\<lambda>c. dc_locked c = []) (w_calls log_world)"
    by (simp_all add: cluster_init_def locked_by_others_none example_world_def)
  from tick_is_cluster_run [OF cl_reach.here example_world_facts(1) pair_wf(3) _ this surjective_pairing]
  show ?thesis unfolding Let_def by simp
qed

end
