(* ===== verification/Crew.thy ===== *)
theory Crew
  imports Lifecycle Cluster_Ticks
begin

text \<open>
  The workers of a process, as both commands start them: for each the two goroutines of \<open>Run\<close>
  (\<open>ctl_step\<close> of Lifecycle) and its ticks, step by step, all interleaved over one database and
  one publisher.  The state of a command extends the record \<open>crew\<close>, its steps contain
  \<open>crew_step\<close>.  A step of the crew is a step of the cluster; and a crew whose context is
  canceled is never stuck: every \<open>Run\<close> can return.
\<close>

section \<open>A tick, step by step\<close>

text \<open>How far a tick has come: \<open>T_Batch\<close> once the claim was sent.\<close>

datatype tick_pc = T_Reclaim | T_Claim | T_Batch

inductive tick_step ::
  "externals \<Rightarrow> worker_config \<Rightarrow> 'p publisher \<Rightarrow> nat \<Rightarrow> nat \<Rightarrow>
   tick_pc \<Rightarrow> 'p cluster \<Rightarrow> tick_pc \<Rightarrow> 'p cluster \<Rightarrow> bool"
  for x :: externals and w :: worker_config and publish :: "'p publisher" and n :: nat and i :: nat
where
  reclaim_off: "wc_stale_timeout w \<le> 0 \<Longrightarrow> tick_step x w publish n i T_Reclaim s T_Claim s"
| reclaim: "cl_pc s i = Idle \<Longrightarrow> 0 < wc_stale_timeout w \<Longrightarrow> dc_now c \<le> cl_now s \<Longrightarrow>
    dc_locked c = locked_by_others n i (cl_pc s) \<Longrightarrow>
    tick_step x w publish n i T_Reclaim s T_Claim
      (s\<lparr>cl_db := snd (ReclaimStale c (wc_stale_timeout w) (cl_db s))\<rparr>)"
| claim_fails: "tick_step x w publish n i T_Claim s T_Batch s"
| claim_select: "cl_pc s i = Idle \<Longrightarrow> dc_now c \<le> cl_now s \<Longrightarrow>
    dc_locked c = locked_by_others n i (cl_pc s) \<Longrightarrow>
    tick_step x w publish n i T_Claim s T_Batch (s\<lparr>cl_pc := (cl_pc s)(i := Claiming (dc_now c)
      (map claimed_event (select_pending c (wc_batch_size w) (db_outbox (cl_db s)))))\<rparr>)"
| claim_commit: "cl_pc s i = Claiming t evs \<Longrightarrow>
    tick_step x w publish n i T_Batch s T_Batch (s\<lparr>
      cl_db := update_outbox (\<lambda>r. or_id r \<in> set (map oe_id evs)) (set_processing t) (cl_db s),
      cl_pc := (cl_pc s)(i := Working t evs)\<rparr>)"
| claim_ack_lost: "cl_pc s i = Claiming t evs \<Longrightarrow>
    tick_step x w publish n i T_Batch s T_Batch (s\<lparr>
      cl_db := update_outbox (\<lambda>r. or_id r \<in> set (map oe_id evs)) (set_processing t) (cl_db s),
      cl_pc := (cl_pc s)(i := Idle)\<rparr>)"
| claim_rolled_back: "cl_pc s i = Claiming t evs \<Longrightarrow>
    tick_step x w publish n i T_Batch s T_Batch (s\<lparr>cl_pc := (cl_pc s)(i := Idle)\<rparr>)"
| publish: "cl_pc s i = Working t (ev # evs) \<Longrightarrow> publish (cl_pub s) ev = (answer, p') \<Longrightarrow>
    tick_step x w publish n i T_Batch s T_Batch (s\<lparr>cl_pub := p', cl_pc := (cl_pc s)(i :=
      (case answer of
         Some err \<Rightarrow> if is_ctx_error err then Idle else Settling t ev answer evs
       | None \<Rightarrow> Settling t ev answer evs))\<rparr>)"
| settle: "cl_pc s i = Settling t ev answer evs \<Longrightarrow>
    (answer = None \<Longrightarrow> oe_id ev \<notin> set (locked_by_others n i (cl_pc s))) \<Longrightarrow>
    tick_step x w publish n i T_Batch s T_Batch (s\<lparr>
      cl_db := w_db (settle x w ev answer (settle_world skew c seed s)),
      cl_pc := (cl_pc s)(i := Working t evs)\<rparr>)"
| finish_batch: "cl_pc s i = Working t [] \<Longrightarrow>
    tick_step x w publish n i T_Batch s T_Batch (s\<lparr>cl_pc := (cl_pc s)(i := Idle)\<rparr>)"

section \<open>The crew\<close>

record 'p crew =
  pr_runs :: "nat \<Rightarrow> run_ctl"        \<comment> \<open>the goroutines of each worker\<close>
  pr_ticks :: "nat \<Rightarrow> tick_pc"
  pr_cluster :: "'p cluster"
  pr_claims :: "nat \<Rightarrow> nat"          \<comment> \<open>history: claims a worker sent after the cancellation\<close>

text \<open>The context of all workers is one; canceling it twice is canceling it once.\<close>

definition cancel_run :: "run_ctl \<Rightarrow> run_ctl" where
  "cancel_run r = (if rs_ctx_done r = None then r\<lparr>rs_ctx_done := Some (rs_now r)\<rparr> else r)"

definition begins_batch :: "run_ctl \<Rightarrow> run_ctl \<Rightarrow> bool" where
  "begins_batch r r' \<longleftrightarrow> rs_main r = M_Checked \<and> rs_main r' = M_Batch"

inductive crew_step ::
  "externals \<Rightarrow> worker_config \<Rightarrow> 'p publisher \<Rightarrow> nat \<Rightarrow> ('p, 'm) crew_scheme \<Rightarrow> ('p, 'm) crew_scheme \<Rightarrow> bool"
  for x :: externals and w :: worker_config and publish :: "'p publisher" and n :: nat
where
  pass: "0 \<le> d \<Longrightarrow> crew_step x w publish n q (q\<lparr>
    pr_cluster := (pr_cluster q)\<lparr>cl_now := cl_now (pr_cluster q) + d\<rparr>,
    pr_runs := (\<lambda>i. (pr_runs q i)\<lparr>rs_now := rs_now (pr_runs q i) + d\<rparr>)\<rparr>)"
| control: "i < n \<Longrightarrow> ctl_step w (pr_runs q i) r' \<Longrightarrow>
    crew_step x w publish n q (q\<lparr>pr_runs := (pr_runs q)(i := r'),
      pr_ticks := (if begins_batch (pr_runs q i) r' then (pr_ticks q)(i := T_Reclaim) else pr_ticks q)\<rparr>)"
| tick: "i < n \<Longrightarrow> rs_main (pr_runs q i) = M_Batch \<Longrightarrow>
    tick_step x w publish n i (pr_ticks q i) (pr_cluster q) tp c' \<Longrightarrow>
    crew_step x w publish n q (q\<lparr>pr_cluster := c', pr_ticks := (pr_ticks q)(i := tp),
      pr_claims := (if pr_ticks q i = T_Claim \<and> rs_ctx_done (pr_runs q i) \<noteq> None
                    then (pr_claims q)(i := pr_claims q i + 1) else pr_claims q)\<rparr>)"
| tick_done: "i < n \<Longrightarrow> rs_main (pr_runs q i) = M_Batch \<Longrightarrow>
    pr_ticks q i = T_Batch \<Longrightarrow> cl_pc (pr_cluster q) i = Idle \<Longrightarrow>
    crew_step x w publish n q (q\<lparr>pr_runs := (pr_runs q)(i := (pr_runs q i)\<lparr>rs_main := M_Select\<rparr>)\<rparr>)"

inductive crew_reach ::
  "externals \<Rightarrow> worker_config \<Rightarrow> 'p publisher \<Rightarrow> nat \<Rightarrow> ('p, 'm) crew_scheme \<Rightarrow> ('p, 'm) crew_scheme \<Rightarrow> bool"
  for x w publish n q0
where
  here: "crew_reach x w publish n q0 q0"
| more: "crew_reach x w publish n q0 q \<Longrightarrow> crew_step x w publish n q q' \<Longrightarrow> crew_reach x w publish n q0 q'"

inductive_cases tick_stepE: "tick_step x w publish n i a s b s'"
inductive_cases crew_stepE: "crew_step x w publish n q q'"

lemma crew_reach_trans:
  assumes "crew_reach x w publish n q1 q2" and "crew_reach x w publish n q0 q1"
  shows "crew_reach x w publish n q0 q2"
  using assms by (induction rule: crew_reach.induct) (auto intro: crew_reach.more)

section \<open>A step of the crew is a step of the cluster\<close>

lemma tick_step_cl_step:
  assumes "tick_step x w publish n i a s b s'" and "i < n"
  shows "cl_step x w publish n s s'"
  using assms(1)
proof (cases rule: tick_step.cases)
  case (claim_rolled_back t evs)
  then show ?thesis using cl_step.crash [OF assms(2)] by blast
qed (use assms(2) in \<open>auto intro: cl_step_stay cl_step.intros(2-) simp del: set_map\<close>)

lemma settle_events: "db_events (w_db (settle x w ev a st)) = db_events (w_db st)"
  using evolves_frame [OF settle_evolves] by blast

lemma tick_step_events:
  assumes "tick_step x w publish n i a s b s'"
  shows "db_events (cl_db s') = db_events (cl_db s)"
  using assms
proof (cases rule: tick_step.cases)
  case (reclaim c)
  then show ?thesis using ReclaimStale_moves [OF surjective_pairing] by (simp add: table_moves_def)
qed (simp_all add: update_outbox_def settle_events settle_world_def)

lemma crew_step_cluster:
  assumes "crew_step x w publish n q q'"
  shows "cl_step x w publish n (pr_cluster q) (pr_cluster q') \<and>
    db_events (cl_db (pr_cluster q')) = db_events (cl_db (pr_cluster q))"
  using assms
proof (cases rule: crew_step.cases)
  case (pass d)
  then show ?thesis by (auto intro: cl_step.pass)
next
  case (tick i tp c')
  then show ?thesis using tick_step_cl_step [OF tick(4,2)] tick_step_events [OF tick(4)] by simp
qed (simp_all add: cl_step_stay)

lemma crew_reach_workers:
  "crew_reach x w publish n q q' \<Longrightarrow> worker_reach x w publish n (pr_cluster q) (pr_cluster q')"
  by (induction rule: crew_reach.induct) (auto intro: worker_reach.intros dest: crew_step_cluster)

section \<open>Where the workers are\<close>

text \<open>A worker holds events only inside a batch whose claim was sent, its goroutines keep the
  invariant of \<open>Run\<close>, and after the cancellation it sends at most one more claim.\<close>

definition worker_ok :: "worker_config \<Rightarrow> worker_pc \<Rightarrow> tick_pc \<Rightarrow> nat \<Rightarrow> run_ctl \<Rightarrow> bool" where
  "worker_ok w pc tp c r \<longleftrightarrow> run_inv w r \<and>
     (pc = Idle \<or> rs_main r = M_Batch \<and> tp = T_Batch) \<and> c \<le> 1 \<and>
     (rs_ctx_done r = None \<or> rs_main r = M_Checked \<or> rs_main r = M_Batch \<and> tp \<noteq> T_Batch \<longrightarrow> c = 0)"

definition crew_inv :: "worker_config \<Rightarrow> nat \<Rightarrow> ('p, 'm) crew_scheme \<Rightarrow> bool" where
  "crew_inv w n q \<longleftrightarrow>
     (\<forall>i < n. worker_ok w (cl_pc (pr_cluster q) i) (pr_ticks q i) (pr_claims q i) (pr_runs q i))"

lemma worker_ok_init: "worker_ok w Idle T_Reclaim 0 (ctl_init now)"
  by (simp add: worker_ok_def run_inv_init)

lemma worker_ok_ctl:
  assumes "worker_ok w pc tp c r" and "ctl_step w r r'"
  shows "worker_ok w pc (if begins_batch r r' then T_Reclaim else tp) c r'"
proof -
  have "run_inv w r'" using assms ctl_step_inv by (auto simp: worker_ok_def)
  with assms(2,1) show ?thesis
    by (cases rule: ctl_step.cases) (auto simp: worker_ok_def begins_batch_def)
qed

lemma worker_ok_env:
  assumes "worker_ok w pc tp c r"
  shows "worker_ok w pc tp c (cancel_run r)"
    and "0 \<le> d \<Longrightarrow> worker_ok w pc tp c (r\<lparr>rs_now := rs_now r + d\<rparr>)"
    and "rs_main r = M_Batch \<Longrightarrow> tp = T_Batch \<Longrightarrow> worker_ok w Idle tp c (r\<lparr>rs_main := M_Select\<rparr>)"
  using assms run_inv_env [of w r] by (auto simp: worker_ok_def cancel_run_def)

lemma worker_ok_tick:
  assumes "tick_step x w publish n i a s b s'" and "worker_ok w (cl_pc s i) a c r" and "rs_main r = M_Batch"
  shows "worker_ok w (cl_pc s' i) b (if a = T_Claim \<and> rs_ctx_done r \<noteq> None then c + 1 else c) r"
  using assms by (cases rule: tick_step.cases) (auto simp: worker_ok_def)

lemma tick_step_others: "tick_step x w publish n i a s b s' \<Longrightarrow> j \<noteq> i \<Longrightarrow> cl_pc s' j = cl_pc s j"
  by (erule tick_stepE) auto

lemma ctl_closed: "ctl_step w r r' \<Longrightarrow> rs_main r = M_Closed f \<Longrightarrow> rs_main r' = M_Closed f"
  by (erule ctl_stepE) simp_all

lemma crew_step_inv:
  assumes "crew_step x w publish n q q'" and "crew_inv w n q"
  shows "crew_inv w n q'"
  using assms(1)
proof (cases rule: crew_step.cases)
  case (control i r')
  have "worker_ok w (cl_pc (pr_cluster q') j) (pr_ticks q' j) (pr_claims q' j) (pr_runs q' j)" if "j < n" for j
  proof -
    have "worker_ok w (cl_pc (pr_cluster q) j) (pr_ticks q j) (pr_claims q j) (pr_runs q j)"
      using assms(2) that by (simp add: crew_inv_def)
    then show ?thesis
      using worker_ok_ctl [OF _ control(3), of "cl_pc (pr_cluster q) i" "pr_ticks q i" "pr_claims q i"]
      by (cases "j = i") (auto simp: control(1))
  qed
  then show ?thesis by (simp add: crew_inv_def)
next
  case (tick i tp c')
  have "worker_ok w (cl_pc (pr_cluster q) i) (pr_ticks q i) (pr_claims q i) (pr_runs q i)"
    using assms(2) tick(2) by (simp add: crew_inv_def)
  note ok = worker_ok_tick [OF tick(4) this tick(3)]
  show ?thesis
    using assms(2) ok tick_step_others [OF tick(4)]
    unfolding crew_inv_def tick(1) by (simp add: fun_upd_def split: if_splits) auto
next
  case (tick_done i)
  then show ?thesis using assms(2) worker_ok_env(3) by (auto simp: crew_inv_def)
qed (use assms(2) worker_ok_env in \<open>auto simp: crew_inv_def\<close>)

lemma crew_cancel_inv:
  "crew_inv w n q \<Longrightarrow> crew_inv w n (q\<lparr>pr_runs := (\<lambda>i. cancel_run (pr_runs q i))\<rparr>)"
  by (simp add: crew_inv_def worker_ok_env(1))

lemma crew_inv_reach: "crew_reach x w publish n q q' \<Longrightarrow> crew_inv w n q \<Longrightarrow> crew_inv w n q'"
  by (induction rule: crew_reach.induct) (auto intro: crew_step_inv)

lemma tick_step_now: "tick_step x w publish n i a s b s' \<Longrightarrow> cl_now s' = cl_now s"
  by (erule tick_stepE) simp_all

text \<open>What every step of the crew keeps: a returned worker stays so, a canceled context stays canceled,
  and the workers' clock is that of the cluster.\<close>

lemma crew_step_frame:
  assumes "crew_step x w publish n q q'"
  shows "rs_main (pr_runs q i) = M_Closed f \<Longrightarrow> rs_main (pr_runs q' i) = M_Closed f"
    and "rs_ctx_done (pr_runs q' i) = rs_ctx_done (pr_runs q i)"
    and "rs_now (pr_runs q i) = cl_now (pr_cluster q) \<Longrightarrow> rs_now (pr_runs q' i) = cl_now (pr_cluster q')"
    and "crew.more q' = crew.more q"
  using assms by (auto elim!: crew_stepE simp: ctl_closed tick_step_now dest: ctl_step_frame)

text \<open>A crew that has come home does nothing.\<close>

lemma crew_home:
  assumes "crew_step x w publish n q q'" and "\<forall>i < n. (\<exists>f. rs_main (pr_runs q i) = M_Closed f) \<and> cl_pc (pr_cluster q) i = Idle"
  shows "cl_pc (pr_cluster q') = cl_pc (pr_cluster q)" and "cl_pub (pr_cluster q') = cl_pub (pr_cluster q)"
    and "cl_db (pr_cluster q') = cl_db (pr_cluster q)"
  using assms by (auto elim!: crew_stepE)

lemma crew_idle:
  "crew_inv w n q \<Longrightarrow> i < n \<Longrightarrow> rs_main (pr_runs q i) = M_Closed f \<Longrightarrow> cl_pc (pr_cluster q) i = Idle"
  by (auto simp: crew_inv_def worker_ok_def)

section \<open>One worker moves, the others stand still\<close>

definition alone ::
  "externals \<Rightarrow> worker_config \<Rightarrow> 'p publisher \<Rightarrow> nat \<Rightarrow> nat \<Rightarrow> ('p, 'm) crew_scheme \<Rightarrow> ('p, 'm) crew_scheme \<Rightarrow> bool" where
  "alone x w publish n i q q' \<longleftrightarrow>
     crew_reach x w publish n q q' \<and>
     rs_ctx_done (pr_runs q' i) = rs_ctx_done (pr_runs q i) \<and>
     (\<forall>j. j \<noteq> i \<longrightarrow> pr_runs q' j = pr_runs q j \<and> cl_pc (pr_cluster q') j = cl_pc (pr_cluster q) j)"

lemma alone_refl [simp]: "alone x w publish n i q q"
  by (simp add: alone_def crew_reach.here)

lemma alone_trans:
  "alone x w publish n i q q1 \<Longrightarrow> alone x w publish n i q1 q2 \<Longrightarrow> alone x w publish n i q q2"
  by (simp add: alone_def) (blast intro: crew_reach_trans)

lemma alone_locked:
  assumes "alone x w publish n i q q'"
  shows "locked_by_others n i (cl_pc (pr_cluster q')) = locked_by_others n i (cl_pc (pr_cluster q))"
  using assms unfolding locked_by_others_def alone_def
  by (intro arg_cong [where f = concat] map_cong) auto

lemma alone_control:
  assumes "i < n" and "ctl_step w (pr_runs q i) r'"
  shows "\<exists>q'. alone x w publish n i q q' \<and> pr_runs q' i = r' \<and> pr_cluster q' = pr_cluster q \<and>
    (rs_main (pr_runs q i) = M_Checked \<and> rs_main r' = M_Batch \<longrightarrow> pr_ticks q' i = T_Reclaim)"
proof -
  define q' where "q' = q\<lparr>pr_runs := (pr_runs q)(i := r'), pr_ticks := (if begins_batch (pr_runs q i) r'
      then (pr_ticks q)(i := T_Reclaim) else pr_ticks q)\<rparr>"
  have "crew_reach x w publish n q q'"
    unfolding q'_def by (rule crew_reach.more [OF crew_reach.here crew_step.control [OF assms]])
  moreover have "pr_runs q' = (pr_runs q)(i := r')" "pr_cluster q' = pr_cluster q"
    "begins_batch (pr_runs q i) r' \<Longrightarrow> pr_ticks q' i = T_Reclaim"
    by (simp_all add: q'_def)
  ultimately show ?thesis
    using ctl_step_frame [OF assms(2)] by (intro exI [of _ q']) (simp add: alone_def begins_batch_def)
qed

lemma alone_tick:
  assumes "i < n" and "rs_main (pr_runs q i) = M_Batch"
    and "tick_step x w publish n i (pr_ticks q i) (pr_cluster q) tp c'"
  shows "\<exists>q'. alone x w publish n i q q' \<and> pr_runs q' i = pr_runs q i \<and> pr_cluster q' = c' \<and> pr_ticks q' i = tp"
  using crew_reach.more [OF crew_reach.here crew_step.tick [OF assms]] tick_step_others [OF assms(3)]
  by (intro exI) (auto simp: alone_def)

text \<open>A batch in hand can be brought to its end when no other worker holds a row lock.\<close>

lemma batch_ends:
  assumes "i < n" and "rs_main (pr_runs q i) = M_Batch" and "pr_ticks q i = T_Batch"
    and "cl_pc (pr_cluster q) i = Working t evs" and "locked_by_others n i (cl_pc (pr_cluster q)) = []"
  shows "\<exists>q'. alone x w publish n i q q' \<and> pr_runs q' i = pr_runs q i \<and> pr_ticks q' i = T_Batch \<and>
    cl_pc (pr_cluster q') i = Idle"
  using assms
proof (induction evs arbitrary: q)
  case Nil
  have s: "tick_step x w publish n i (pr_ticks q i) (pr_cluster q) T_Batch
      ((pr_cluster q)\<lparr>cl_pc := (cl_pc (pr_cluster q))(i := Idle)\<rparr>)"
    using tick_step.finish_batch [OF Nil.prems(4)] Nil.prems(3) by simp
  show ?case using alone_tick [OF Nil.prems(1,2) s] by fastforce
next
  case (Cons ev evs)
  obtain a p' where a: "publish (cl_pub (pr_cluster q)) ev = (a, p')" by fastforce
  let ?c1 = "(pr_cluster q)\<lparr>cl_pub := p', cl_pc := (cl_pc (pr_cluster q))(i :=
      (case a of Some err \<Rightarrow> if is_ctx_error err then Idle else Settling t ev a evs | None \<Rightarrow> Settling t ev a evs))\<rparr>"
  have s: "tick_step x w publish n i (pr_ticks q i) (pr_cluster q) T_Batch ?c1"
    using tick_step.publish [where publish = publish, OF Cons.prems(4) a] Cons.prems(3) by simp
  obtain q1 where q1: "alone x w publish n i q q1" "pr_runs q1 i = pr_runs q i" "pr_cluster q1 = ?c1"
    "pr_ticks q1 i = T_Batch"
    using alone_tick [OF Cons.prems(1,2) s] by blast
  show ?case
  proof (cases "\<exists>err. a = Some err \<and> is_ctx_error err")
    case True
    then have "cl_pc (pr_cluster q1) i = Idle" using q1(3) by auto
    with q1 show ?thesis by blast
  next
    case False
    then have set: "cl_pc (pr_cluster q1) i = Settling t ev a evs" using q1(3) by (auto split: option.splits)
    have free: "locked_by_others n i (cl_pc (pr_cluster q1)) = []" using alone_locked [OF q1(1)] Cons.prems(5) by simp
    let ?c2 = "(pr_cluster q1)\<lparr>cl_db := w_db (settle x w ev a (settle_world 0 (quiet_call 0) 0 (pr_cluster q1))),
      cl_pc := (cl_pc (pr_cluster q1))(i := Working t evs)\<rparr>"
    have "tick_step x w publish n i (pr_ticks q1 i) (pr_cluster q1) T_Batch ?c2"
      using tick_step.settle [OF set] free q1(4) by simp
    then obtain q2 where q2: "alone x w publish n i q1 q2" "pr_runs q2 i = pr_runs q1 i" "pr_cluster q2 = ?c2"
      "pr_ticks q2 i = T_Batch"
      using alone_tick [OF Cons.prems(1)] q1(2) Cons.prems(2) by metis
    have "locked_by_others n i (cl_pc (pr_cluster q2)) = []" using alone_locked [OF q2(1)] free by simp
    moreover have "cl_pc (pr_cluster q2) i = Working t evs" by (simp add: q2(3))
    ultimately obtain q3 where "alone x w publish n i q2 q3" "pr_runs q3 i = pr_runs q2 i"
      "pr_ticks q3 i = T_Batch" "cl_pc (pr_cluster q3) i = Idle"
      using Cons.IH [of q2] q1(2) q2(2,4) Cons.prems(1,2) by metis
    then show ?thesis using q1 q2 alone_trans by metis
  qed
qed

section \<open>Every worker can return\<close>

definition returns ::
  "externals \<Rightarrow> worker_config \<Rightarrow> 'p publisher \<Rightarrow> nat \<Rightarrow> nat \<Rightarrow> ('p, 'm) crew_scheme \<Rightarrow> bool" where
  "returns x w publish n i q \<longleftrightarrow>
     (\<exists>q' f. alone x w publish n i q q' \<and> rs_main (pr_runs q' i) = M_Closed f)"

text \<open>A worker on its way out: the process is alive, the context is canceled, and nobody else holds a
  row lock.\<close>

definition leaving :: "nat \<Rightarrow> worker_config \<Rightarrow> nat \<Rightarrow> ('p, 'm) crew_scheme \<Rightarrow> bool" where
  "leaving n w i q \<longleftrightarrow> i < n \<and> rs_ctx_done (pr_runs q i) \<noteq> None \<and>
     locked_by_others n i (cl_pc (pr_cluster q)) = [] \<and> crew_inv w n q"

lemma leaving_alone: "leaving n w i q \<Longrightarrow> alone x w publish n i q q' \<Longrightarrow> leaving n w i q'"
  using alone_locked [of x w publish n i q q'] crew_inv_reach [of x w publish n q q']
  by (simp add: leaving_def alone_def)

lemma returns_back: "alone x w publish n i q q' \<Longrightarrow> returns x w publish n i q' \<Longrightarrow> returns x w publish n i q"
  unfolding returns_def by (blast intro: alone_trans)

lemma returns_control:
  fixes q :: "('p, 'm) crew_scheme"
  assumes "leaving n w i q" and "ctl_step w (pr_runs q i) r'"
    and "\<And>q' :: ('p, 'm) crew_scheme. leaving n w i q' \<Longrightarrow> pr_runs q' i = r' \<Longrightarrow> pr_cluster q' = pr_cluster q \<Longrightarrow>
      (rs_main (pr_runs q i) = M_Checked \<and> rs_main r' = M_Batch \<longrightarrow> pr_ticks q' i = T_Reclaim) \<Longrightarrow>
      returns x w publish n i q'"
  shows "returns x w publish n i q"
proof -
  have "i < n" using assms(1) by (simp_all add: leaving_def)
  from alone_control [OF this assms(2)] obtain q' where q': "alone x w publish n i q q'" "pr_runs q' i = r'"
    "pr_cluster q' = pr_cluster q"
    "rs_main (pr_runs q i) = M_Checked \<and> rs_main r' = M_Batch \<longrightarrow> pr_ticks q' i = T_Reclaim" by blast
  show ?thesis by (rule returns_back [OF q'(1) assms(3)]) (use leaving_alone [OF assms(1) q'(1)] q' in simp_all)
qed

lemma returns_tick:
  fixes q :: "('p, 'm) crew_scheme"
  assumes "leaving n w i q" and "rs_main (pr_runs q i) = M_Batch"
    and "tick_step x w publish n i (pr_ticks q i) (pr_cluster q) tp c'"
    and "\<And>q' :: ('p, 'm) crew_scheme. leaving n w i q' \<Longrightarrow> rs_main (pr_runs q' i) = M_Batch \<Longrightarrow> pr_cluster q' = c' \<Longrightarrow> pr_ticks q' i = tp \<Longrightarrow>
      returns x w publish n i q'"
  shows "returns x w publish n i q"
proof -
  have "i < n" using assms(1) by (simp_all add: leaving_def)
  from alone_tick [OF this assms(2,3)] obtain q' where q': "alone x w publish n i q q'"
    "pr_runs q' i = pr_runs q i" "pr_cluster q' = c'" "pr_ticks q' i = tp" by blast
  show ?thesis
    by (rule returns_back [OF q'(1) assms(4)]) (use leaving_alone [OF assms(1) q'(1)] q' assms(2) in simp_all)
qed

lemma returns_closed: "rs_main (pr_runs q i) = M_Closed f \<Longrightarrow> returns x w publish n i q"
  unfolding returns_def by (blast intro: alone_refl)

lemma returns_returned: "leaving n w i q \<Longrightarrow> rs_main (pr_runs q i) = M_Returned f \<Longrightarrow> returns x w publish n i q"
  by (erule returns_control [OF _ ctl_step.close]) (auto intro: returns_closed)

lemma returns_stopped: "leaving n w i q \<Longrightarrow> rs_main (pr_runs q i) = M_Stopped \<Longrightarrow> returns x w publish n i q"
  by (erule returns_control [OF _ ctl_step.return]) (simp_all add: returns_returned)

lemma returns_seen: "leaving n w i q \<Longrightarrow> rs_main (pr_runs q i) = M_CtxSeen \<Longrightarrow> returns x w publish n i q"
  by (erule returns_control [OF _ ctl_step.stopped]) (simp_all add: returns_stopped)

lemma returns_select:
  assumes "leaving n w i q" and "rs_main (pr_runs q i) = M_Select"
  shows "returns x w publish n i q"
  by (rule returns_control [OF assms(1) ctl_step.select_ctx [OF assms(2)]])
    (use assms(1) in \<open>simp_all add: leaving_def returns_seen\<close>)

text \<open>Inside a batch: what is left of the tick comes to its end.\<close>

lemma returns_idle:
  assumes l: "leaving n w i q" and b: "rs_main (pr_runs q i) = M_Batch" "pr_ticks q i = T_Batch"
    and "cl_pc (pr_cluster q) i = Idle"
  shows "returns x w publish n i q"
proof -
  let ?q' = "q\<lparr>pr_runs := (pr_runs q)(i := (pr_runs q i)\<lparr>rs_main := M_Select\<rparr>)\<rparr>"
  have "i < n" using l by (simp_all add: leaving_def)
  then have "crew_reach x w publish n q ?q'"
    by (rule crew_reach.more [OF crew_reach.here crew_step.tick_done]) (use b assms(4) in simp_all)
  then have a: "alone x w publish n i q ?q'" by (simp add: alone_def)
  show ?thesis by (rule returns_back [OF a returns_select [OF leaving_alone [OF l a]]]) simp
qed

lemma returns_working:
  assumes l: "leaving n w i q" and b: "rs_main (pr_runs q i) = M_Batch" "pr_ticks q i = T_Batch"
    and "cl_pc (pr_cluster q) i = Working t evs"
  shows "returns x w publish n i q"
proof -
  from l have "i < n" "locked_by_others n i (cl_pc (pr_cluster q)) = []"
    by (simp_all add: leaving_def)
  from batch_ends [OF this(1) b assms(4) this(2)] obtain q' where q': "alone x w publish n i q q'"
    "pr_runs q' i = pr_runs q i" "pr_ticks q' i = T_Batch" "cl_pc (pr_cluster q') i = Idle" by blast
  show ?thesis
    by (rule returns_back [OF q'(1) returns_idle [OF leaving_alone [OF l q'(1)]]]) (simp_all add: q' b)
qed

lemma returns_claimed:
  assumes l: "leaving n w i q" and b: "rs_main (pr_runs q i) = M_Batch" "pr_ticks q i = T_Batch"
  shows "returns x w publish n i q"
proof (cases "cl_pc (pr_cluster q) i")
  case Idle
  then show ?thesis by (rule returns_idle [OF l b])
next
  case (Working t evs)
  then show ?thesis by (rule returns_working [OF l b])
next
  case (Claiming t evs)
  have "tick_step x w publish n i (pr_ticks q i) (pr_cluster q) T_Batch
      ((pr_cluster q)\<lparr>cl_pc := (cl_pc (pr_cluster q))(i := Idle)\<rparr>)"
    using tick_step.claim_rolled_back [OF Claiming] b(2) by simp
  from returns_tick [OF l b(1) this] show ?thesis by (simp add: returns_idle)
next
  case (Settling t ev a evs)
  have "tick_step x w publish n i (pr_ticks q i) (pr_cluster q) T_Batch ((pr_cluster q)\<lparr>
      cl_db := w_db (settle x w ev a (settle_world 0 (quiet_call 0) 0 (pr_cluster q))),
      cl_pc := (cl_pc (pr_cluster q))(i := Working t evs)\<rparr>)"
    using tick_step.settle [OF Settling] l b(2) by (simp add: leaving_def)
  from returns_tick [OF l b(1) this] show ?thesis by (simp add: returns_working)
qed

lemma returns_claim:
  assumes "leaving n w i q" and "rs_main (pr_runs q i) = M_Batch" and "pr_ticks q i = T_Claim"
  shows "returns x w publish n i q"
proof -
  have "tick_step x w publish n i (pr_ticks q i) (pr_cluster q) T_Batch (pr_cluster q)"
    using tick_step.claim_fails assms(3) by simp
  from returns_tick [OF assms(1,2) this] show ?thesis by (simp add: returns_claimed)
qed

lemma returns_reclaim:
  assumes l: "leaving n w i q" and b: "rs_main (pr_runs q i) = M_Batch" and t: "pr_ticks q i = T_Reclaim"
  shows "returns x w publish n i q"
proof -
  let ?c = "quiet_call (cl_now (pr_cluster q))"
  have idle: "cl_pc (pr_cluster q) i = Idle"
    using l t by (auto simp: leaving_def crew_inv_def worker_ok_def)
  have "\<exists>c'. tick_step x w publish n i (pr_ticks q i) (pr_cluster q) T_Claim c'"
  proof (cases "wc_stale_timeout w \<le> 0")
    case True
    then show ?thesis using tick_step.reclaim_off t by metis
  next
    case False
    then show ?thesis
      using tick_step.reclaim [OF idle, of w ?c n x publish] l t by (auto simp: leaving_def quiet_call_def)
  qed
  then obtain c' where "tick_step x w publish n i (pr_ticks q i) (pr_cluster q) T_Claim c'" by blast
  from returns_tick [OF l b this] show ?thesis by (simp add: returns_claim)
qed

lemma returns_batch: "leaving n w i q \<Longrightarrow> rs_main (pr_runs q i) = M_Batch \<Longrightarrow> returns x w publish n i q"
  by (cases "pr_ticks q i") (auto intro: returns_reclaim returns_claim returns_claimed)

lemma returns_checked: "leaving n w i q \<Longrightarrow> rs_main (pr_runs q i) = M_Checked \<Longrightarrow> returns x w publish n i q"
  by (erule returns_control [OF _ ctl_step.batch]) (simp_all add: returns_batch)

lemma returns_ready: "leaving n w i q \<Longrightarrow> rs_main (pr_runs q i) = M_Ready \<Longrightarrow> returns x w publish n i q"
  by (erule returns_control [OF _ ctl_step.running]) (simp_all add: returns_select)

lemma returns_start: "leaving n w i q \<Longrightarrow> rs_main (pr_runs q i) = M_Start \<Longrightarrow> returns x w publish n i q"
  by (erule returns_control [OF _ ctl_step.start]) (simp_all add: returns_ready)

lemmas returns_points = returns_start returns_ready returns_select returns_checked returns_batch returns_seen
  returns_stopped returns_returned returns_closed

lemma worker_returns: "leaving n w i q \<Longrightarrow> returns x w publish n i q"
  by (cases "rs_main (pr_runs q i)") (blast intro: returns_points)+

section \<open>All of them can\<close>

text \<open>The shutdown has begun, and nobody holds a row lock.\<close>

definition unlocked :: "nat \<Rightarrow> worker_config \<Rightarrow> nat \<Rightarrow> ('p, 'm) crew_scheme \<Rightarrow> bool" where
  "unlocked n w m q \<longleftrightarrow> crew_inv w n q \<and> (\<forall>i < n. rs_ctx_done (pr_runs q i) \<noteq> None) \<and> (\<forall>i < m. tx_events (cl_pc (pr_cluster q) i) = [])"

lemma unlocked_alone:
  assumes "unlocked n w m q" and "alone x w publish n i q q'" and "tx_events (cl_pc (pr_cluster q') i) = []"
  shows "unlocked n w m q'"
proof -
  have ctx: "rs_ctx_done (pr_runs q' j) = rs_ctx_done (pr_runs q j)" for j
    using assms(2) by (cases "j = i") (simp_all add: alone_def)
  have "tx_events (cl_pc (pr_cluster q') j) = []" if "j < m" for j
    using assms that by (cases "j = i") (simp_all add: alone_def unlocked_def)
  then show ?thesis
    using assms(1,2) crew_inv_reach [of x w publish n q q'] ctx by (simp add: unlocked_def alone_def)
qed

lemma unlocked_idle: "unlocked n w n q \<Longrightarrow> locked_by_others n i (cl_pc (pr_cluster q)) = []"
  by (auto simp: unlocked_def locked_by_others_def)

text \<open>Any open claim can be rolled back.\<close>

lemma unlock:
  assumes "unlocked n w 0 q" and "m \<le> n"
  shows "\<exists>q'. crew_reach x w publish n q q' \<and> unlocked n w m q'"
  using assms(2)
proof (induction m)
  case 0
  then show ?case using assms(1) crew_reach.here by blast
next
  case (Suc m)
  then obtain q1 where q1: "crew_reach x w publish n q q1" "unlocked n w m q1"
    by auto
  show ?case
  proof (cases "tx_events (cl_pc (pr_cluster q1) m) = []")
    case True
    with q1 show ?thesis by (auto simp: unlocked_def less_Suc_eq)
  next
    case False
    then obtain t evs where pc: "cl_pc (pr_cluster q1) m = Claiming t evs"
      by (cases "cl_pc (pr_cluster q1) m") simp_all
    have "m < n" using Suc.prems by simp
    then have b: "rs_main (pr_runs q1 m) = M_Batch" "pr_ticks q1 m = T_Batch"
      using q1(2) pc by (auto simp: unlocked_def crew_inv_def worker_ok_def)
    have "tick_step x w publish n m (pr_ticks q1 m) (pr_cluster q1) T_Batch
        ((pr_cluster q1)\<lparr>cl_pc := (cl_pc (pr_cluster q1))(m := Idle)\<rparr>)"
      using tick_step.claim_rolled_back [OF pc] b(2) by simp
    then obtain q2 where q2: "alone x w publish n m q1 q2"
      "pr_cluster q2 = (pr_cluster q1)\<lparr>cl_pc := (cl_pc (pr_cluster q1))(m := Idle)\<rparr>"
      using alone_tick \<open>m < n\<close> b(1) by blast
    then have "unlocked n w m q2" using unlocked_alone [OF q1(2) q2(1)] by simp
    then have "unlocked n w (Suc m) q2" using q2(2) by (simp add: unlocked_def less_Suc_eq)
    with q1 q2(1) show ?thesis by (auto simp: alone_def intro: crew_reach_trans)
  qed
qed

lemma returned_idle:
  assumes "crew_inv w n q" and "i < n" and "rs_main (pr_runs q i) = M_Closed f"
  shows "cl_pc (pr_cluster q) i = Idle"
  using assms by (auto simp: crew_inv_def worker_ok_def)

lemma all_return:
  assumes "unlocked n w n q" and "m \<le> n"
  shows "\<exists>q'. crew_reach x w publish n q q' \<and> unlocked n w n q' \<and>
    (\<forall>i < m. \<exists>f. rs_main (pr_runs q' i) = M_Closed f)"
  using assms(2)
proof (induction m)
  case 0
  then show ?case using assms(1) crew_reach.here by blast
next
  case (Suc m)
  then obtain q1 where q1: "crew_reach x w publish n q q1" "unlocked n w n q1"
    "\<forall>i < m. \<exists>f. rs_main (pr_runs q1 i) = M_Closed f" by auto
  have "leaving n w m q1" using q1(2) Suc.prems unlocked_idle [OF q1(2)] by (simp add: leaving_def unlocked_def)
  then have "returns x w publish n m q1" by (rule worker_returns)
  then obtain q2 f where q2: "alone x w publish n m q1 q2" "rs_main (pr_runs q2 m) = M_Closed f"
    by (auto simp: returns_def)
  have "crew_inv w n q2"
    using crew_inv_reach [of x w publish n q1 q2] q1(2) q2(1) by (simp add: unlocked_def alone_def)
  then have "unlocked n w n q2"
    using unlocked_alone [OF q1(2) q2(1)] returned_idle [OF _ _ q2(2)] Suc.prems by simp
  moreover have "\<exists>f. rs_main (pr_runs q2 i) = M_Closed f" if "i < Suc m" for i
    using that q1(3) q2 by (cases "i = m") (auto simp: alone_def)
  ultimately show ?case using q1(1) q2(1) by (auto simp: alone_def intro: crew_reach_trans)
qed

text \<open>A crew whose context is canceled can come home.\<close>

lemma crew_returns:
  assumes "crew_inv w n q" and "\<forall>i < n. rs_ctx_done (pr_runs q i) \<noteq> None"
  shows "\<exists>q'. crew_reach x w publish n q q' \<and> (\<forall>i < n. \<exists>f. rs_main (pr_runs q' i) = M_Closed f)"
proof -
  have "unlocked n w 0 q" using assms by (simp add: unlocked_def)
  from unlock [OF this] obtain q1 where q1: "crew_reach x w publish n q q1" "unlocked n w n q1" by blast
  from all_return [OF q1(2) order_refl] q1(1) show ?thesis by (blast intro: crew_reach_trans)
qed

end
