(* ===== verification/Api_Process.thy ===== *)
theory Api_Process
  imports Api_Main Crew
begin

text \<open>
  The running API process (cmd/api/main.go): the main goroutine from the first signal to its exit,
  the HTTP handlers and the crew of workers, all interleaved over one database and one publisher.
  Forgetting who is where in its program, a run of the process is a run of the service.
\<close>

section \<open>The process\<close>

text \<open>The main goroutine: serving until a signal or the server's failure, shutting the server down,
  waiting for the workers since an instant, and then about to close the publisher, after it, and
  gone; the flag says whether all workers had returned.\<close>

datatype main_phase =
  P_Serving | P_Draining | P_Waiting time | P_Closing bool | P_Closed bool | P_Exited


record 'p api_run = "'p crew" +
  pr_main :: main_phase
  pr_http :: bool                    \<comment> \<open>handlers may be running\<close>

definition process_init :: "'p cluster \<Rightarrow> 'p api_run" where
  "process_init c =
     \<lparr>pr_runs = (\<lambda>_. ctl_init (cl_now c)), pr_ticks = (\<lambda>_. T_Reclaim), pr_cluster = c, pr_claims = (\<lambda>_. 0),
      pr_main = P_Serving, pr_http = True\<rparr>"

text \<open>\<open>close_pub\<close> is what the close of \<open>main\<close> makes of the publisher chain (\<open>ApiClose\<close> of Api_Main for
  the publishers of the API: the Kafka writer's own \<open>Close\<close>, nothing for the log publisher).  The
  close is one step, at the moment it takes effect on the publisher; everything else may go on
  before and after it.\<close>

inductive process_step ::
  "externals \<Rightarrow> worker_config \<Rightarrow> 'p publisher \<Rightarrow> ('p \<Rightarrow> failure \<times> 'p) \<Rightarrow> nat \<Rightarrow> (string \<Rightarrow> int \<Rightarrow> event_schema option) \<Rightarrow>
   'b http_codec \<Rightarrow> 'p api_run \<Rightarrow> 'p api_run \<Rightarrow> bool"
  for x :: externals and w :: worker_config and publish :: "'p publisher" and close_pub :: "'p \<Rightarrow> failure \<times> 'p"
    and n :: nat and get :: "string \<Rightarrow> int \<Rightarrow> event_schema option" and k :: "'b http_codec"
where
  signal: "pr_main q = P_Serving \<Longrightarrow>
    process_step x w publish close_pub n get k q (q\<lparr>pr_runs := (\<lambda>i. cancel_run (pr_runs q i))\<rparr>)"
| shutdown: "pr_main q = P_Serving \<Longrightarrow> process_step x w publish close_pub n get k q (q\<lparr>
    pr_main := P_Draining, pr_runs := (\<lambda>i. cancel_run (pr_runs q i))\<rparr>)"
| server_stopped: "pr_main q = P_Draining \<Longrightarrow> process_step x w publish close_pub n get k q (q\<lparr>
    pr_main := P_Waiting (cl_now (pr_cluster q)), pr_http := False\<rparr>)"
| server_shutdown_failed: "pr_main q = P_Draining \<Longrightarrow> process_step x w publish close_pub n get k q (q\<lparr>
    pr_main := P_Waiting (cl_now (pr_cluster q))\<rparr>)"
| workers_stopped: "pr_main q = P_Waiting t \<Longrightarrow> (\<forall>i < n. \<exists>f. rs_main (pr_runs q i) = M_Closed f) \<Longrightarrow>
    process_step x w publish close_pub n get k q (q\<lparr>pr_main := P_Closing True\<rparr>)"
| wait_timeout: "pr_main q = P_Waiting t \<Longrightarrow> t + (wc_shutdown_timeout w + drain_grace) \<le> cl_now (pr_cluster q) \<Longrightarrow>
    process_step x w publish close_pub n get k q (q\<lparr>pr_main := P_Closing False\<rparr>)"
| close_publisher: "pr_main q = P_Closing b \<Longrightarrow> process_step x w publish close_pub n get k q (q\<lparr>
    pr_main := P_Closed b,
    pr_cluster := (pr_cluster q)\<lparr>cl_pub := snd (close_pub (cl_pub (pr_cluster q)))\<rparr>\<rparr>)"
| exit: "pr_main q = P_Closed b \<Longrightarrow> process_step x w publish close_pub n get k q (q\<lparr>pr_main := P_Exited\<rparr>)"
| api: "pr_main q \<noteq> P_Exited \<Longrightarrow> pr_http q \<Longrightarrow>
    NewRouter x get conv k pool_ping (pool :: unit option) fresh rq r (cl_db (pr_cluster q)) = (wire, t) \<Longrightarrow>
    process_step x w publish close_pub n get k q (q\<lparr>pr_cluster := (pr_cluster q)\<lparr>cl_db := t\<rparr>\<rparr>)"
| workers: "pr_main q \<noteq> P_Exited \<Longrightarrow> crew_step x w publish n q q' \<Longrightarrow> process_step x w publish close_pub n get k q q'"

inductive process_reach ::
  "externals \<Rightarrow> worker_config \<Rightarrow> 'p publisher \<Rightarrow> ('p \<Rightarrow> failure \<times> 'p) \<Rightarrow> nat \<Rightarrow> (string \<Rightarrow> int \<Rightarrow> event_schema option) \<Rightarrow>
   'b http_codec \<Rightarrow> 'p api_run \<Rightarrow> 'p api_run \<Rightarrow> bool"
  for x w publish close_pub n get k q0
where
  here: "process_reach x w publish close_pub n get k q0 q0"
| more: "process_reach x w publish close_pub n get k q0 q \<Longrightarrow> process_step x w publish close_pub n get k q q' \<Longrightarrow>
    process_reach x w publish close_pub n get k q0 q'"

inductive_cases process_stepE: "process_step x w publish close_pub n get k q q'"

lemma process_reach_trans:
  assumes "process_reach x w publish close_pub n get k q1 q2" and "process_reach x w publish close_pub n get k q0 q1"
  shows "process_reach x w publish close_pub n get k q0 q2"
  using assms by (induction rule: process_reach.induct) (auto intro: process_reach.more)

lemma crew_step_main:
  assumes "crew_step x w publish n q q'"
  shows "pr_main q' = pr_main q" and "pr_http q' = pr_http q"
  using assms by (auto elim!: crew_stepE)

text \<open>What the crew can do, the process can do while it is alive.\<close>

lemma crew_reach_process:
  assumes "crew_reach x w publish n q q'" and "pr_main q \<noteq> P_Exited"
  shows "process_reach x w publish close_pub n get k q q' \<and> pr_main q' = pr_main q"
  using assms
proof (induction rule: crew_reach.induct)
  case (more q1 q2)
  then show ?case
    using process_reach.more [OF _ process_step.workers [OF _ more.hyps(2)]] crew_step_main [OF more.hyps(2)] by auto
qed (simp add: process_reach.here)

section \<open>A run of the process is a run of the service\<close>

fun closed_phase :: "main_phase \<Rightarrow> bool" where
  "closed_phase (P_Closed b) = True"
| "closed_phase P_Exited = True"
| "closed_phase _ = False"

definition close_cluster :: "('p \<Rightarrow> failure \<times> 'p) \<Rightarrow> 'p cluster \<Rightarrow> 'p cluster" where
  "close_cluster close_pub c = c\<lparr>cl_pub := snd (close_pub (cl_pub c))\<rparr>"

lemma process_step_service:
  assumes "process_step x w publish close_pub n get k q q'"
  obtains (close) "\<not> closed_phase (pr_main q)" and "closed_phase (pr_main q')"
      and "pr_cluster q' = close_cluster close_pub (pr_cluster q)"
  | (run) "closed_phase (pr_main q') = closed_phase (pr_main q)"
      and "service_reach x w publish n get k (pr_cluster q) (pr_cluster q')"
  using assms
proof (cases rule: process_step.cases)
  case (api conv pool_ping pool fresh rq r wire t)
  then show ?thesis using that(2) service_reach.more [OF service_reach.here service_step.api] by fastforce
next
  case workers
  then show ?thesis
    using that(2) service_reach.more [OF service_reach.here service_step.worker] crew_step_cluster [OF workers(2)]
      crew_step_main [OF workers(2)] by metis
next
  case (close_publisher b)
  then show ?thesis using that(1) by (simp add: close_cluster_def)
qed (use that(2) in \<open>simp_all add: service_reach.here\<close>)

text \<open>A run of the service up to the close, and one from the closed publisher after it.\<close>

lemma process_reach_service:
  assumes "process_reach x w publish close_pub n get k q0 q" and "\<not> closed_phase (pr_main q0)"
  shows "\<exists>c. service_reach x w publish n get k (pr_cluster q0) c \<and>
    (if closed_phase (pr_main q) then service_reach x w publish n get k (close_cluster close_pub c) (pr_cluster q)
     else pr_cluster q = c)"
  using assms
proof (induction rule: process_reach.induct)
  case here
  then show ?case using service_reach.here by auto
next
  case (more q q')
  then obtain c where c: "service_reach x w publish n get k (pr_cluster q0) c"
    "if closed_phase (pr_main q) then service_reach x w publish n get k (close_cluster close_pub c) (pr_cluster q)
     else pr_cluster q = c" by auto
  from more.hyps(2) show ?case
  proof (cases rule: process_step_service)
    case close
    then show ?thesis using c service_reach.here by (intro exI [of _ c]) simp
  next
    case run
    show ?thesis
    proof (cases "closed_phase (pr_main q)")
      case True
      then show ?thesis using run c service_reach_trans by (intro exI [of _ c]) auto
    next
      case False
      then show ?thesis using run c service_reach_trans by (intro exI [of _ "pr_cluster q'"]) auto
    qed
  qed
qed

section \<open>Where the workers are\<close>

definition process_inv :: "worker_config \<Rightarrow> nat \<Rightarrow> 'p api_run \<Rightarrow> bool" where
  "process_inv w n q \<longleftrightarrow> crew_inv w n q \<and>
     (pr_main q \<in> {P_Closing True, P_Closed True} \<longrightarrow> (\<forall>i < n. \<exists>f. rs_main (pr_runs q i) = M_Closed f)) \<and>
     (pr_main q = P_Serving \<or> (\<forall>i < n. rs_ctx_done (pr_runs q i) \<noteq> None))"

lemma process_inv_init: "cl_pc c = (\<lambda>_. Idle) \<Longrightarrow> process_inv w n (process_init c)"
  by (simp add: process_inv_def process_init_def crew_inv_def worker_ok_init)

lemma process_step_inv:
  assumes "process_step x w publish close_pub n get k q q'" and "process_inv w n q"
  shows "process_inv w n q'"
  using assms(1)
proof (cases rule: process_step.cases)
  case workers
  then show ?thesis
    using assms(2) crew_step_inv [OF workers(2)] crew_step_main [OF workers(2)] crew_step_frame(1,2) [OF workers(2)]
    unfolding process_inv_def by (metis (no_types, lifting))
next
  case api
  then show ?thesis using assms(2) by (simp add: process_inv_def crew_inv_def)
qed (use assms(2) worker_ok_env(1) in \<open>auto simp: process_inv_def crew_inv_def cancel_run_def\<close>)

lemma process_inv_reach:
  "process_reach x w publish close_pub n get k q q' \<Longrightarrow> process_inv w n q \<Longrightarrow> process_inv w n q'"
  by (induction rule: process_reach.induct) (auto intro: process_step_inv)

lemma process_reach_inv:
  "process_reach x w publish close_pub n get k (process_init (cluster_init s0 now p)) q \<Longrightarrow> process_inv w n q"
  by (erule process_inv_reach) (simp add: process_inv_init cluster_init_def)

lemma process_reach_clock:
  assumes "process_reach x w publish close_pub n get k (process_init c) q"
  shows "rs_now (pr_runs q i) = cl_now (pr_cluster q)"
  using assms
proof (induction rule: process_reach.induct)
  case (more q q')
  from more.hyps(2) show ?case
    by (cases rule: process_step.cases) (use more.IH crew_step_frame(3) in \<open>auto simp: cancel_run_def\<close>)
qed (simp add: process_init_def ctl_init_def)

section \<open>After an orderly close\<close>

definition at_rest :: "nat \<Rightarrow> 'p api_run \<Rightarrow> bool" where
  "at_rest n q \<longleftrightarrow> pr_main q \<in> {P_Closing True, P_Closed True, P_Exited} \<and>
     (\<forall>i < n. (\<exists>f. rs_main (pr_runs q i) = M_Closed f) \<and> cl_pc (pr_cluster q) i = Idle)"

lemma at_rest_start:
  assumes "process_inv w n q" and "pr_main q \<in> {P_Closing True, P_Closed True}"
  shows "at_rest n q"
  using assms crew_idle by (fastforce simp: at_rest_def process_inv_def)

text \<open>From there the publisher is closed, if it was not yet, and never used.\<close>

definition pub_at_rest :: "('p \<Rightarrow> failure \<times> 'p) \<Rightarrow> 'p api_run \<Rightarrow> 'p api_run \<Rightarrow> 'p" where
  "pub_at_rest close_pub q q' =
     (if pr_main q = P_Closing True \<and> pr_main q' \<noteq> P_Closing True then snd (close_pub (cl_pub (pr_cluster q)))
      else cl_pub (pr_cluster q))"

lemma at_rest_step:
  assumes "process_step x w publish close_pub n get k q q'" and "at_rest n q"
  shows "at_rest n q' \<and> pr_http q' = pr_http q \<and> (pr_main q' = P_Closing True \<longrightarrow> pr_main q = P_Closing True) \<and>
    cl_pub (pr_cluster q') = pub_at_rest close_pub q q' \<and>
    (pr_http q \<or> cl_db (pr_cluster q') = cl_db (pr_cluster q))"
  using assms(1)
proof (cases rule: process_step.cases)
  case workers
  have p: "pub_at_rest close_pub q q' = cl_pub (pr_cluster q)"
    by (simp add: pub_at_rest_def crew_step_main [OF workers(2)])
  have "at_rest n q' \<and> cl_pub (pr_cluster q') = cl_pub (pr_cluster q) \<and> cl_db (pr_cluster q') = cl_db (pr_cluster q)"
    using assms(2) crew_home [OF workers(2)] crew_step_main [OF workers(2)] crew_step_frame(1) [OF workers(2)]
    unfolding at_rest_def by (metis (no_types, lifting))
  then show ?thesis using p crew_step_main [OF workers(2)] by simp
next
  case api
  then show ?thesis using assms(2) by (simp add: at_rest_def pub_at_rest_def)
next
  case (close_publisher b)
  then show ?thesis using assms(2) by (simp add: at_rest_def pub_at_rest_def)
qed (use assms(2) in \<open>simp_all add: at_rest_def pub_at_rest_def\<close>)

lemma at_rest_reach:
  assumes "process_reach x w publish close_pub n get k q q'" and "at_rest n q"
  shows "at_rest n q' \<and> pr_http q' = pr_http q \<and> (pr_main q' = P_Closing True \<longrightarrow> pr_main q = P_Closing True) \<and>
    cl_pub (pr_cluster q') = pub_at_rest close_pub q q' \<and>
    (pr_http q \<or> cl_db (pr_cluster q') = cl_db (pr_cluster q))"
  using assms
proof (induction rule: process_reach.induct)
  case (more q1 q2)
  note 1 = more.IH [OF more.prems]
  note 2 = at_rest_step [OF more.hyps(2) conjunct1 [OF 1]]
  have "pub_at_rest close_pub q1 q2 = pub_at_rest close_pub q q2"
    using 1 2 unfolding pub_at_rest_def by presburger
  with 1 2 show ?case by auto
qed (simp add: pub_at_rest_def)

section \<open>A worker that does not come back\<close>

lemma reach_control:
  assumes "process_reach x w publish close_pub n get k q0 q" and "pr_main q \<noteq> P_Exited" and "i < n"
    and "ctl_step w (pr_runs q i) r'" and "pr_ticks q i = T_Reclaim"
  shows "process_reach x w publish close_pub n get k q0 (q\<lparr>pr_runs := (pr_runs q)(i := r')\<rparr>)"
proof -
  have "(pr_ticks q)(i := T_Reclaim) = pr_ticks q" using assms(5) by (simp add: fun_upd_idem)
  then have "q\<lparr>pr_runs := (pr_runs q)(i := r'), pr_ticks := (if begins_batch (pr_runs q i) r'
      then (pr_ticks q)(i := T_Reclaim) else pr_ticks q)\<rparr> = q\<lparr>pr_runs := (pr_runs q)(i := r')\<rparr>"
    by (cases q) simp
  then show ?thesis
    using process_reach.more [OF assms(1) process_step.workers [OF assms(2) crew_step.control [OF assms(3,4)]]] by metis
qed

lemma reach_tick:
  assumes "process_reach x w publish close_pub n get k q0 q" and "pr_main q \<noteq> P_Exited" and "i < n"
    and "rs_main (pr_runs q i) = M_Batch" and "rs_ctx_done (pr_runs q i) = None"
    and "tick_step x w publish n i (pr_ticks q i) (pr_cluster q) tp c'"
  shows "process_reach x w publish close_pub n get k q0 (q\<lparr>pr_cluster := c', pr_ticks := (pr_ticks q)(i := tp)\<rparr>)"
  using process_reach.more [OF assms(1) process_step.workers [OF assms(2) crew_step.tick [OF assms(3,4,6)]]] assms(5)
  by simp

text \<open>The first tick of the first worker: its goroutine as far as the batch.\<close>

definition batch_ctl :: "time \<Rightarrow> run_ctl" where
  "batch_ctl now = (ctl_init now)\<lparr>rs_main := M_Batch, rs_watch := W_Wait, rs_state := workerRunning\<rparr>"

lemma first_batch:
  fixes c :: "'p cluster"
  assumes "0 < n"
  defines "q0 \<equiv> process_init c"
  shows "process_reach x w publish close_pub n get k q0 (q0\<lparr>pr_runs := (pr_runs q0)(0 := batch_ctl (cl_now c))\<rparr>)"
proof -
  define r0 where "r0 = ctl_init (cl_now c)"
  define r1 where "r1 = (advance_to workerStarting r0)\<lparr>rs_main := M_Ready, rs_watch := W_Wait\<rparr>"
  define r2 where "r2 = (advance_to workerRunning r1)\<lparr>rs_main := M_Select\<rparr>"
  define r3 where "r3 = r2\<lparr>rs_main := M_Checked\<rparr>"
  define r4 where "r4 = r3\<lparr>rs_main := M_Batch, rs_late := rs_late r3 + (if rs_ctx_done r3 = None then 0 else 1)\<rparr>"
  note d = r0_def r1_def r2_def r3_def r4_def ctl_init_def
  have c: "ctl_step w r0 r1" "ctl_step w r1 r2" "ctl_step w r2 r3" "ctl_step w r3 r4"
    unfolding r1_def r2_def r3_def r4_def by (rule ctl_step.intros; simp add: d)+
  let ?reach = "process_reach x w publish close_pub n get k q0"
  have go: "?reach (q0\<lparr>pr_runs := (pr_runs q0)(0 := r')\<rparr>)"
    if "?reach (q0\<lparr>pr_runs := (pr_runs q0)(0 := r)\<rparr>)" "ctl_step w r r'" for r r'
    using reach_control [OF that(1) _ assms(1), of r'] that(2) by (simp add: q0_def process_init_def)
  have "q0\<lparr>pr_runs := (pr_runs q0)(0 := r0)\<rparr> = q0" by (simp add: q0_def process_init_def r0_def fun_upd_idem)
  then have "?reach (q0\<lparr>pr_runs := (pr_runs q0)(0 := r0)\<rparr>)" by (simp add: process_reach.here)
  from go [OF go [OF go [OF go [OF this c(1)] c(2)] c(3)] c(4)] show ?thesis
    by (simp add: d batch_ctl_def max_def state_order advance_to_def)
qed

text \<open>From any state in which the process serves and a worker is in the middle of its batch, the
  shutdown can run past that worker: the wait runs out and the publisher is closed, with the
  worker where it was.\<close>

lemma closed_over_batch:
  assumes "pr_main q = P_Serving" and "0 \<le> wc_shutdown_timeout w"
  obtains q' where "process_reach x w publish close_pub n get k q q'" and "pr_main q' = P_Closed False"
    and "cl_pub (pr_cluster q') = snd (close_pub (cl_pub (pr_cluster q)))"
    and "cl_pc (pr_cluster q') = cl_pc (pr_cluster q)" and "pr_ticks q' = pr_ticks q"
    and "\<And>i. rs_main (pr_runs q' i) = rs_main (pr_runs q i)"
proof -
  define q1 where "q1 = q\<lparr>pr_main := P_Draining, pr_runs := (\<lambda>i. cancel_run (pr_runs q i))\<rparr>"
  define q2 where "q2 = q1\<lparr>pr_main := P_Waiting (cl_now (pr_cluster q1)), pr_http := False\<rparr>"
  define d where "d = wc_shutdown_timeout w + drain_grace"
  define q3 where "q3 = q2\<lparr>pr_cluster := (pr_cluster q2)\<lparr>cl_now := cl_now (pr_cluster q2) + d\<rparr>,
    pr_runs := (\<lambda>i. (pr_runs q2 i)\<lparr>rs_now := rs_now (pr_runs q2 i) + d\<rparr>)\<rparr>"
  define q4 where "q4 = q3\<lparr>pr_main := P_Closing False\<rparr>"
  define q5 where "q5 = q4\<lparr>pr_main := P_Closed False,
    pr_cluster := (pr_cluster q4)\<lparr>cl_pub := snd (close_pub (cl_pub (pr_cluster q4)))\<rparr>\<rparr>"
  note d = q1_def q2_def q3_def q4_def q5_def
  let ?step = "process_step x w publish close_pub n get k"
  have 1: "?step q q1" unfolding q1_def by (rule process_step.shutdown [OF assms(1)])
  have 2: "?step q1 q2" unfolding q2_def by (rule process_step.server_stopped) (simp add: q1_def)
  have 3: "?step q2 q3" unfolding q3_def
    by (rule process_step.workers [OF _ crew_step.pass]) (use assms(2) in \<open>simp_all add: q2_def d_def drain_grace_def\<close>)
  have 4: "?step q3 q4" unfolding q4_def
    by (rule process_step.wait_timeout [of _ "cl_now (pr_cluster q1)"]) (simp_all add: q3_def q2_def d_def)
  have 5: "?step q4 q5" unfolding q5_def by (rule process_step.close_publisher) (simp add: q4_def)
  show thesis
    by (rule that [OF process_reach.more [OF process_reach.more [OF process_reach.more [OF process_reach.more
      [OF process_reach.more [OF process_reach.here 1] 2] 3] 4] 5]]) (simp_all add: d cancel_run_def)
qed

text \<open>One worker without reclaims over the log publisher: it claims the one event, and is in the middle
  of publishing it until after the process has given up waiting.\<close>

definition no_close :: "'p \<Rightarrow> failure \<times> 'p" where
  "no_close p = (None, p)"

definition stuck_config :: worker_config where
  "stuck_config = pair_config\<lparr>wc_stale_timeout := 0\<rparr>"

abbreviation stuck_step :: "log_publisher api_run \<Rightarrow> log_publisher api_run \<Rightarrow> bool" where
  "stuck_step \<equiv> process_step plain_externals stuck_config LogPublish no_close 1 search_only plain_codec"

abbreviation stuck_reach :: "log_publisher api_run \<Rightarrow> log_publisher api_run \<Rightarrow> bool" where
  "stuck_reach \<equiv> process_reach plain_externals stuck_config LogPublish no_close 1 search_only plain_codec"

definition stuck_init :: "log_publisher api_run" where
  "stuck_init = process_init (cluster_init solo_db 20 [])"

lemma stuck_claimed:
  "\<exists>q. stuck_reach stuck_init q \<and> pr_main q = P_Serving \<and> pr_http q \<and> cl_now (pr_cluster q) = 20 \<and>
    rs_main (pr_runs q 0) = M_Batch \<and> pr_ticks q 0 = T_Batch \<and> cl_pc (pr_cluster q) 0 = Working 20 [solo_event]"
proof -
  define q0 where "q0 = stuck_init\<lparr>pr_runs := (pr_runs stuck_init)(0 := batch_ctl 20)\<rparr>"
  define q1 where "q1 = q0\<lparr>pr_ticks := (pr_ticks q0)(0 := T_Claim)\<rparr>"
  define c2 where "c2 = (pr_cluster q1)\<lparr>cl_pc := (cl_pc (pr_cluster q1))(0 := Claiming (dc_now (quiet_call 20))
    (map claimed_event (select_pending (quiet_call 20) (wc_batch_size stuck_config) (db_outbox (cl_db (pr_cluster q1))))))\<rparr>"
  define q2 where "q2 = q1\<lparr>pr_cluster := c2, pr_ticks := (pr_ticks q1)(0 := T_Batch)\<rparr>"
  note d = q0_def q1_def stuck_init_def process_init_def cluster_init_def batch_ctl_def ctl_init_def
  have 0: "stuck_reach stuck_init q0"
    using first_batch [of 1 plain_externals stuck_config LogPublish no_close search_only plain_codec "cluster_init solo_db 20 []"]
    unfolding q0_def stuck_init_def by (simp add: cluster_init_def)
  have "pr_ticks q0 0 = T_Reclaim" "wc_stale_timeout stuck_config \<le> 0" by (simp_all add: d stuck_config_def)
  then have "tick_step plain_externals stuck_config LogPublish 1 0 (pr_ticks q0 0) (pr_cluster q0) T_Claim (pr_cluster q0)"
    by (simp add: tick_step.reclaim_off)
  from reach_tick [OF 0 _ _ _ _ this] have 1: "stuck_reach stuck_init q1"
    unfolding q1_def by simp (simp add: d)
  have "tick_step plain_externals stuck_config LogPublish 1 0 T_Claim (pr_cluster q1) T_Batch c2"
    unfolding c2_def by (rule tick_step.claim_select) (simp_all add: d locked_by_others_none)
  then have 2: "stuck_reach stuck_init q2"
    unfolding q2_def by (intro reach_tick [OF 1]) (simp_all add: d)
  have pc: "cl_pc c2 0 = Claiming 20 [solo_event]"
    by (simp add: c2_def d stuck_config_def pair_config_def NewOutboxWorker_def solo_db_def
        solo_event_def select_pending_def first_by_def eligible_def example_db_def example_row_def)
  let ?c3 = "c2\<lparr>cl_db := update_outbox (\<lambda>r. or_id r \<in> set (map oe_id [solo_event])) (set_processing 20) (cl_db c2),
    cl_pc := (cl_pc c2)(0 := Working 20 [solo_event])\<rparr>"
  let ?q3 = "q2\<lparr>pr_cluster := ?c3, pr_ticks := (pr_ticks q2)(0 := T_Batch)\<rparr>"
  have 3: "stuck_reach stuck_init ?q3"
    by (rule reach_tick [OF 2]) (use tick_step.claim_commit [OF pc] in \<open>simp_all add: q2_def\<close>, simp_all add: d)
  have "pr_main ?q3 = P_Serving \<and> pr_http ?q3 \<and> cl_now (pr_cluster ?q3) = 20 \<and> rs_main (pr_runs ?q3 0) = M_Batch \<and>
      pr_ticks ?q3 0 = T_Batch \<and> cl_pc (pr_cluster ?q3) 0 = Working 20 [solo_event]"
    by (simp add: q2_def c2_def) (simp add: d)
  with 3 show ?thesis by blast
qed

lemma stuck_closed:
  "\<exists>q. stuck_reach stuck_init q \<and> pr_main q = P_Closed False \<and> rs_main (pr_runs q 0) = M_Batch \<and>
    pr_ticks q 0 = T_Batch \<and> cl_pc (pr_cluster q) 0 = Working 20 [solo_event]"
proof -
  obtain q where q: "stuck_reach stuck_init q" "pr_main q = P_Serving" "rs_main (pr_runs q 0) = M_Batch"
    "pr_ticks q 0 = T_Batch" "cl_pc (pr_cluster q) 0 = Working 20 [solo_event]"
    using stuck_claimed by blast
  have "0 \<le> wc_shutdown_timeout stuck_config" by (simp add: stuck_config_def pair_config_def NewOutboxWorker_def)
  from closed_over_batch [OF q(2) this, where close_pub = no_close and x = plain_externals and publish = LogPublish and n = 1
      and get = search_only and k = plain_codec]
  obtain q' where q': "stuck_reach q q'" "pr_main q' = P_Closed False" "cl_pc (pr_cluster q') = cl_pc (pr_cluster q)"
    "pr_ticks q' = pr_ticks q" "\<And>i. rs_main (pr_runs q' i) = rs_main (pr_runs q i)" by blast
  with q process_reach_trans [OF q'(1) q(1)] show ?thesis by (intro exI [of _ q']) simp
qed

text \<open>The orderly end: the signal comes before the worker's first tick.\<close>

lemma orderly_closing: "\<exists>q. stuck_reach stuck_init q \<and> pr_main q = P_Closing True \<and> \<not> pr_http q"
proof -
  define r0 where "r0 = cancel_run (ctl_init 20)"
  define r1 where "r1 = (advance_to workerStarting r0)\<lparr>rs_main := M_Ready, rs_watch := W_Wait\<rparr>"
  define r2 where "r2 = (advance_to workerRunning r1)\<lparr>rs_main := M_Select\<rparr>"
  define r3 where "r3 = r2\<lparr>rs_main := M_CtxSeen\<rparr>"
  define r4 where "r4 = (advance_to workerStopped r3)\<lparr>rs_main := M_Stopped\<rparr>"
  define r5 where "r5 = r4\<lparr>rs_main := M_Returned (if rs_timed_out r4 then Some (Sentinel ErrShutdownTimeout) else None)\<rparr>"
  define r6 where "r6 = r5\<lparr>rs_main := M_Closed None, rs_stopped := True, rs_proc_canceled := True\<rparr>"
  note d = r0_def r1_def r2_def r3_def r4_def r5_def r6_def ctl_init_def cancel_run_def
  have c: "ctl_step stuck_config r0 r1" "ctl_step stuck_config r1 r2" "ctl_step stuck_config r2 r3"
    "ctl_step stuck_config r3 r4" "ctl_step stuck_config r4 r5" "ctl_step stuck_config r5 r6"
    unfolding r1_def r2_def r3_def r4_def r5_def r6_def by (rule ctl_step.intros; simp add: d)+
  define q0 where "q0 = stuck_init\<lparr>pr_main := P_Draining, pr_runs := (\<lambda>i. cancel_run (pr_runs stuck_init i))\<rparr>"
  have e: "pr_main q0 = P_Draining" "pr_ticks q0 0 = T_Reclaim" "pr_runs q0 0 = r0"
    by (simp_all add: q0_def stuck_init_def process_init_def cluster_init_def r0_def)
  have run: "stuck_reach stuck_init (q0\<lparr>pr_runs := (pr_runs q0)(0 := r')\<rparr>)"
    if "stuck_reach stuck_init (q0\<lparr>pr_runs := (pr_runs q0)(0 := r)\<rparr>)" "ctl_step stuck_config r r'" for r r'
    using reach_control [OF that(1), of 0 r'] that(2) e by simp
  have "stuck_reach stuck_init q0"
    unfolding q0_def
    by (rule process_reach.more [OF process_reach.here process_step.shutdown]) (simp add: stuck_init_def process_init_def)
  moreover have "q0\<lparr>pr_runs := (pr_runs q0)(0 := r0)\<rparr> = q0" using e(3) by (cases q0) (simp add: fun_upd_idem)
  ultimately have "stuck_reach stuck_init (q0\<lparr>pr_runs := (pr_runs q0)(0 := r0)\<rparr>)" by simp
  from run [OF run [OF run [OF run [OF run [OF run [OF this c(1)] c(2)] c(3)] c(4)] c(5)] c(6)]
  have 6: "stuck_reach stuck_init (q0\<lparr>pr_runs := (pr_runs q0)(0 := r6)\<rparr>)" .
  let ?q6 = "q0\<lparr>pr_runs := (pr_runs q0)(0 := r6)\<rparr>"
  let ?q7 = "?q6\<lparr>pr_main := P_Waiting (cl_now (pr_cluster ?q6)), pr_http := False\<rparr>"
  let ?q8 = "?q7\<lparr>pr_main := P_Closing True\<rparr>"
  have 7: "stuck_step ?q6 ?q7" by (rule process_step.server_stopped) (simp add: e)
  have 8: "stuck_step ?q7 ?q8" by (rule process_step.workers_stopped) (simp_all add: r6_def)
  show ?thesis using process_reach.more [OF process_reach.more [OF 6 7] 8] by (intro exI [of _ ?q8]) simp
qed

section \<open>Properties\<close>

text \<open>C16: the running process is the service.  Whatever the interleaving of the main goroutine, the
  handlers, the workers' goroutines and their ticks, and whatever fails, the database and the
  publisher go through a run of the service, to which the theorems on delivery apply, as long as
  the publisher is not closed; and after the close through a run of the service that goes on from
  where the first one stood, with the closed publisher.  A worker whose \<open>Run\<close> has returned reads
  STOPPED and returned nil, or the timeout error, the latter only when the shutdown timeout has
  passed since the cancellation.\<close>

theorem process_refines_service:
  assumes "process_reach x w publish close_pub n get k (process_init (cluster_init s0 now p)) q"
  shows "(\<exists>c. service_reach x w publish n get k (cluster_init s0 now p) c \<and>
      (if closed_phase (pr_main q)
       then service_reach x w publish n get k (c\<lparr>cl_pub := snd (close_pub (cl_pub c))\<rparr>) (pr_cluster q)
       else pr_cluster q = c)) \<and>
    (\<forall>i < n. \<forall>f. rs_main (pr_runs q i) = M_Closed f \<longrightarrow>
       state_String (rs_state (pr_runs q i)) = ''STOPPED'' \<and>
       (f = None \<or> f = Some (Sentinel ErrShutdownTimeout) \<and>
         (\<exists>t. rs_ctx_done (pr_runs q i) = Some t \<and> t + wc_shutdown_timeout w \<le> cl_now (pr_cluster q))))"
proof -
  have "\<not> closed_phase (pr_main (process_init (cluster_init s0 now p)))" by (simp add: process_init_def)
  note run = process_reach_service [OF assms this, unfolded close_cluster_def]
  have "run_inv w (pr_runs q i)" if "i < n" for i
    using process_reach_inv [OF assms] that by (simp add: process_inv_def crew_inv_def worker_ok_def)
  then have "\<forall>i < n. \<forall>f. rs_main (pr_runs q i) = M_Closed f \<longrightarrow>
       state_String (rs_state (pr_runs q i)) = ''STOPPED'' \<and>
       (f = None \<or> f = Some (Sentinel ErrShutdownTimeout) \<and>
         (\<exists>t. rs_ctx_done (pr_runs q i) = Some t \<and> t + wc_shutdown_timeout w \<le> cl_now (pr_cluster q)))"
    using process_reach_clock [OF assms] run_inv_closed by metis
  moreover have "pr_cluster (process_init (cluster_init s0 now p)) = cluster_init s0 now p" by (simp add: process_init_def)
  ultimately show ?thesis using run by simp
qed

theorem process_refines_service_witness:
  "\<exists>q c. hand (cl_pc (pr_cluster (q :: log_publisher api_run)) 0) = [solo_event] \<and> pr_main q = P_Closed False \<and>
    service_reach plain_externals stuck_config LogPublish 1 search_only plain_codec (cluster_init solo_db 20 []) c \<and>
    service_reach plain_externals stuck_config LogPublish 1 search_only plain_codec
      (c\<lparr>cl_pub := snd (no_close (cl_pub c))\<rparr>) (pr_cluster q)"
proof -
  obtain q where q: "stuck_reach stuck_init q" "pr_main q = P_Closed False"
    "cl_pc (pr_cluster q) 0 = Working 20 [solo_event]"
    using stuck_closed by blast
  with process_refines_service [OF q(1) [unfolded stuck_init_def]] show ?thesis
    by (intro exI [of _ q]) auto
qed



text \<open>C18: an orderly close is the end of publishing.  Once the wait for the workers has ended because
  they all returned, no worker holds an event, and from then on, whatever happens, the publisher is
  closed, if it was not yet, and otherwise never used again, and no row changes; events may still
  be saved only if the server's own shutdown had failed and left a handler running.\<close>

theorem quiet_after_orderly_close:
  assumes "process_reach x w publish close_pub n get k (process_init (cluster_init s0 now p)) q"
    and "pr_main q \<in> {P_Closing True, P_Closed True}"
    and "process_reach x w publish close_pub n get k q q'"
  shows "cl_pub (pr_cluster q') =
      (if pr_main q = P_Closing True \<and> pr_main q' \<noteq> P_Closing True then snd (close_pub (cl_pub (pr_cluster q)))
       else cl_pub (pr_cluster q)) \<and>
    (\<forall>i < n. hand (cl_pc (pr_cluster q') i) = []) \<and>
    (pr_http q \<or> cl_db (pr_cluster q') = cl_db (pr_cluster q))"
  using at_rest_reach [OF assms(3) at_rest_start [OF process_reach_inv [OF assms(1)] assms(2)]]
  by (simp add: at_rest_def pub_at_rest_def)

theorem quiet_after_orderly_close_witness:
  "\<exists>q q'. pr_main (q :: log_publisher api_run) = P_Closing True \<and> pr_main (q' :: log_publisher api_run) = P_Closed True \<and>
    cl_pub (pr_cluster q') = snd (no_close (cl_pub (pr_cluster q))) \<and> cl_db (pr_cluster q') = cl_db (pr_cluster q)"
proof -
  obtain q where q: "stuck_reach stuck_init q" "pr_main q = P_Closing True" "\<not> pr_http q"
    using orderly_closing by blast
  obtain q' where q': "stuck_reach q q'" "pr_main q' = P_Closed True"
    using process_reach.more [OF process_reach.here process_step.close_publisher [OF q(2)]] by fastforce
  from quiet_after_orderly_close [OF q(1) [unfolded stuck_init_def] _ q'(1)] q(2,3) q'(2) show ?thesis
    by (intro exI [of _ q] exI [of _ q']) simp
qed

end
