(* ===== verification/Api_Delivery.thy ===== *)
theory Api_Delivery
  imports Api_Process
begin

text \<open>
  From the start of the API process to its exit: what \<open>api_start\<close> builds, run as a process, loses
  nothing and reads PUBLISHED only what was delivered; and what a publisher closed under a worker is
  still asked to do.
\<close>

section \<open>A process that publishes\<close>

text \<open>The first worker is inside a batch, at a point of its tick and in a state of the cluster.\<close>

definition in_batch ::
  "externals \<Rightarrow> worker_config \<Rightarrow> 'p publisher \<Rightarrow> ('p \<Rightarrow> failure \<times> 'p) \<Rightarrow> nat \<Rightarrow> (string \<Rightarrow> int \<Rightarrow> event_schema option) \<Rightarrow>
   'b http_codec \<Rightarrow> 'p api_run \<Rightarrow> tick_pc \<Rightarrow> 'p cluster \<Rightarrow> bool" where
  "in_batch x w publish close_pub n get k q0 tp c \<longleftrightarrow>
     (\<exists>q. process_reach x w publish close_pub n get k q0 q \<and> pr_main q = P_Serving \<and> rs_main (pr_runs q 0) = M_Batch \<and>
       rs_ctx_done (pr_runs q 0) = None \<and> pr_ticks q 0 = tp \<and> pr_cluster q = c)"

lemma in_batch_tick:
  assumes "in_batch x w publish close_pub n get k q0 tp c" and "tick_step x w publish n 0 tp c tp' c'" and "0 < n"
  shows "in_batch x w publish close_pub n get k q0 tp' c'"
proof -
  obtain q where q: "process_reach x w publish close_pub n get k q0 q" "pr_main q = P_Serving" "rs_main (pr_runs q 0) = M_Batch"
    "rs_ctx_done (pr_runs q 0) = None" "pr_ticks q 0 = tp" "pr_cluster q = c"
    using assms(1) by (auto simp: in_batch_def)
  have "process_reach x w publish close_pub n get k q0 (q\<lparr>pr_cluster := c', pr_ticks := (pr_ticks q)(0 := tp')\<rparr>)"
    by (rule reach_tick [OF q(1) _ assms(3) q(3,4)]) (use q assms(2) in simp_all)
  then show ?thesis using q unfolding in_batch_def by fastforce
qed

lemma in_batch_start: "0 < n \<Longrightarrow> in_batch x w publish close_pub n get k (process_init c) T_Reclaim c"
  unfolding in_batch_def using first_batch [of n x w publish close_pub get k c]
  by (intro exI conjI) (auto simp: process_init_def batch_ctl_def ctl_init_def)

lemma reclaim_solo: "snd (ReclaimStale (quiet_call 20) staleAfter solo_db) = solo_db"
  by (simp add: ReclaimStale_def exec_update_def quiet_call_def solo_db_def example_db_def example_row_def
      stale_def update_outbox_def update_where_def split: prod.splits)

lemma solo_reclaimed:
  "\<exists>c. tick_step x w publish n 0 T_Reclaim (cluster_init solo_db 20 p0) T_Claim c \<and> c = cluster_init solo_db 20 p0"
proof (cases "wc_stale_timeout w \<le> 0")
  case True
  then show ?thesis using tick_step.reclaim_off by blast
next
  case False
  let ?c = "cluster_init solo_db 20 p0"
  have "tick_step x w publish n 0 T_Reclaim ?c T_Claim
      (?c\<lparr>cl_db := snd (ReclaimStale (quiet_call 20) (wc_stale_timeout w) (cl_db ?c))\<rparr>)"
    by (rule tick_step.reclaim) (use False in \<open>simp_all add: cluster_init_def locked_by_others_none\<close>)
  then show ?thesis by (simp add: cluster_init_def reclaim_solo)
qed

text \<open>With the batch claimed, over any publisher.\<close>

lemma process_claims:
  assumes "0 < n" and "1 \<le> wc_batch_size w"
  shows "\<exists>c. in_batch plain_externals w publish close_pub n get k (process_init (cluster_init solo_db 20 p0)) T_Batch c \<and>
    cl_pc c 0 = Working 20 [solo_event] \<and> cl_pub c = p0"
proof -
  let ?c0 = "cluster_init solo_db 20 p0"
  let ?at = "in_batch plain_externals w publish close_pub n get k (process_init ?c0)"
  define c1 where "c1 = ?c0\<lparr>cl_pc := (cl_pc ?c0)(0 := Claiming (dc_now (quiet_call 20))
    (map claimed_event (select_pending (quiet_call 20) (wc_batch_size w) (db_outbox (cl_db ?c0)))))\<rparr>"
  have "?at T_Claim ?c0"
    using in_batch_tick [OF in_batch_start [OF assms(1)] _ assms(1)] solo_reclaimed by metis
  moreover have "tick_step plain_externals w publish n 0 T_Claim ?c0 T_Batch c1"
    unfolding c1_def by (rule tick_step.claim_select) (simp_all add: cluster_init_def locked_by_others_none)
  ultimately have 1: "?at T_Batch c1" by (rule in_batch_tick [OF _ _ assms(1)])
  have "0 < nat (wc_batch_size w)" using assms(2) by simp
  then have pc: "cl_pc c1 0 = Claiming 20 [solo_event]" "cl_pub c1 = p0"
    by (cases "nat (wc_batch_size w)"; simp add: c1_def cluster_init_def solo_db_def solo_event_def select_pending_def
        first_by_def eligible_def example_db_def example_row_def)+
  from in_batch_tick [OF 1 tick_step.claim_commit [OF pc(1)] assms(1)] pc(2) show ?thesis by fastforce
qed


section \<open>A publisher that is closed too early\<close>

lemma process_start_keeps:
  assumes "process_reach x w publish close_pub n get k (process_init (cluster_init s0 now p)) q"
    and "\<not> closed_phase (pr_main q)" and "P p"
    and "\<And>p ev res p'. publish p ev = (res, p') \<Longrightarrow> P p \<Longrightarrow> P p'"
  shows "P (cl_pub (pr_cluster q))"
proof -
  have "service_reach x w publish n get k (cluster_init s0 now p) (pr_cluster q)"
    using process_reach_service [OF assms(1)] assms(2) by (auto simp: process_init_def)
  from cl_reach_publisher [where P = P, OF service_reach_cl_reach [OF this] assms(3,4)] show ?thesis .
qed

definition is_direct :: "'w api_publisher \<Rightarrow> bool" where
  "is_direct p = (case p of Direct_publisher _ \<Rightarrow> True | Injected_publisher _ \<Rightarrow> False)"

lemma is_direct_publish: "ApiPublish rnd x send p ev = (res, p') \<Longrightarrow> is_direct p' = is_direct p"
  by (cases p) (auto simp: is_direct_def split: prod.splits)

lemma is_direct_chosen:
  "is_direct (choose_publisher mw cfg) \<longleftrightarrow> \<not> f64_less (Finite 0) (oc_publish_failure_rate (cf_outbox cfg))"
  by (simp add: is_direct_def choose_publisher_def Let_def)

lemma ApiClose_kafka:
  "terminal_of p = KafkaTerminal kp \<Longrightarrow>
   terminal_of (snd (ApiClose close_writer p)) = KafkaTerminal (snd (PublisherClose close_writer kp))"
  by (cases p) (auto split: prod.splits)

text \<open>The process of a configuration, as \<open>main\<close> builds it.\<close>

abbreviation api_step ::
  "externals \<Rightarrow> (nat \<Rightarrow> rat) \<Rightarrow> 'w message_writer \<Rightarrow> ('w \<Rightarrow> failure \<times> 'w) \<Rightarrow> 'b http_codec \<Rightarrow> ('p, 'w) api_process \<Rightarrow>
   'w api_publisher api_run \<Rightarrow> 'w api_publisher api_run \<Rightarrow> bool" where
  "api_step x rnd send close_writer k ap \<equiv> process_step x (api_worker (ap_config ap)) (ApiPublish rnd x send)
     (ApiClose close_writer) (length (ap_workers ap)) (registry_get (ap_registry ap)) k"

abbreviation api_reach ::
  "externals \<Rightarrow> (nat \<Rightarrow> rat) \<Rightarrow> 'w message_writer \<Rightarrow> ('w \<Rightarrow> failure \<times> 'w) \<Rightarrow> 'b http_codec \<Rightarrow> ('p, 'w) api_process \<Rightarrow>
   'w api_publisher api_run \<Rightarrow> 'w api_publisher api_run \<Rightarrow> bool" where
  "api_reach x rnd send close_writer k ap \<equiv> process_reach x (api_worker (ap_config ap)) (ApiPublish rnd x send)
     (ApiClose close_writer) (length (ap_workers ap)) (registry_get (ap_registry ap)) k"

text \<open>What a publish finds after the close: the writer that \<open>Close\<close> left.\<close>

lemma closed_direct_publish:
  assumes "is_direct p" and "terminal_of p = KafkaTerminal kp" and "oe_payload ev \<noteq> []" and "json_valid (oe_payload ev)"
  shows "\<exists>kp'. terminal_of (snd (ApiPublish rnd x send (snd (ApiClose close_writer p)) ev)) = KafkaTerminal kp' \<and>
    kp_writer kp' = snd (snd (send (snd (close_writer (kp_writer kp))) (message_of x ev)))"
proof -
  have p: "p = Direct_publisher (KafkaTerminal kp)" using assms(1,2) by (cases p) (auto simp: is_direct_def)
  show ?thesis
    using assms(3,4) kafka_publish_writer [of ev x send "snd (PublisherClose close_writer kp)"]
    by (auto simp: p PublisherClose_def split: prod.splits)
qed

section \<open>Properties\<close>



text \<open>C39: the other close is not an end of publishing.  Take the process of any configuration with
  Kafka as its publisher, and any state it can reach while it serves in which some worker is in the
  middle of a batch.  Then the shutdown can run past that worker: the wait for the workers runs
  out, the Kafka publisher is closed, and the worker, still in its batch, then hands the next event
  to the closed publisher.  Without the failure injector, and for a payload that is well formed,
  the very writer that \<open>Close\<close> has left is asked to write the event's message.\<close>

theorem publish_after_close:
  assumes "api_start al env s00 = (Serving ap, s0)"
    and "oc_publisher (cf_outbox (ap_config ap)) = OutboxPublisherKafka"
    and "api_reach x rnd send close_writer k ap (process_init (cluster_init s0 now (ap_publisher ap))) q"
    and "pr_main q = P_Serving" and "i < length (ap_workers ap)" and "rs_main (pr_runs q i) = M_Batch"
    and "pr_ticks q i = T_Batch" and "cl_pc (pr_cluster q) i = Working t (ev # evs)"
  shows "\<exists>p q1 q2. terminal_of (cl_pub (pr_cluster q)) = KafkaTerminal p \<and>
    api_reach x rnd send close_writer k ap q q1 \<and> pr_main q1 = P_Closed False \<and>
    terminal_of (cl_pub (pr_cluster q1)) = KafkaTerminal (snd (PublisherClose close_writer p)) \<and>
    api_step x rnd send close_writer k ap q1 q2 \<and> pr_main q2 = P_Closed False \<and>
    cl_pub (pr_cluster q2) = snd (ApiPublish rnd x send (cl_pub (pr_cluster q1)) ev) \<and>
    (\<not> f64_less (Finite 0) (oc_publish_failure_rate (cf_outbox (ap_config ap))) \<and>
     oe_payload ev \<noteq> [] \<and> json_valid (oe_payload ev) \<longrightarrow>
       (\<exists>p2. terminal_of (cl_pub (pr_cluster q2)) = KafkaTerminal p2 \<and>
          kp_writer p2 = snd (snd (send (snd (close_writer (kp_writer p))) (message_of x ev)))))"
proof -
  let ?w = "api_worker (ap_config ap)" and ?publish = "ApiPublish rnd x send" and ?n = "length (ap_workers ap)"
  note start = api_start_Serving [OF assms(1)]
  have serving: "\<not> closed_phase (pr_main q)" using assms(4) by simp
  have "uses_kafka (cl_pub (pr_cluster q))"
    by (rule process_start_keeps [where P = uses_kafka, OF assms(3) serving])
      (use start(4) assms(2) in \<open>simp_all add: choose_publisher_kind ApiPublish_uses_kafka\<close>)
  then obtain p where p: "terminal_of (cl_pub (pr_cluster q)) = KafkaTerminal p"
    by (auto simp: uses_kafka_def split: api_terminal.splits)
  have direct: "is_direct (cl_pub (pr_cluster q))" if "\<not> f64_less (Finite 0) (oc_publish_failure_rate (cf_outbox (ap_config ap)))"
    by (rule process_start_keeps [where P = is_direct, OF assms(3) serving])
      (use start(4) that in \<open>simp_all add: is_direct_chosen is_direct_publish\<close>)
  have "0 \<le> wc_shutdown_timeout ?w" using Load_workers(5) [OF start(1)] by (simp add: api_worker_def NewOutboxWorker_def)
  from closed_over_batch [OF assms(4) this, where close_pub = "ApiClose close_writer" and x = x and publish = ?publish
      and n = ?n and get = "registry_get (ap_registry ap)" and k = k]
  obtain q1 where q1: "api_reach x rnd send close_writer k ap q q1" "pr_main q1 = P_Closed False"
    "cl_pub (pr_cluster q1) = snd (ApiClose close_writer (cl_pub (pr_cluster q)))"
    "cl_pc (pr_cluster q1) = cl_pc (pr_cluster q)" "pr_ticks q1 = pr_ticks q"
    "\<And>i. rs_main (pr_runs q1 i) = rs_main (pr_runs q i)" by blast
  obtain answer p' where pub: "?publish (cl_pub (pr_cluster q1)) ev = (answer, p')" by fastforce
  have "cl_pc (pr_cluster q1) i = Working t (ev # evs)" using q1(4) assms(8) by simp
  from tick_step.publish [where publish = ?publish, OF this pub, of x ?w ?n] obtain c where
    "tick_step x ?w ?publish ?n i T_Batch (pr_cluster q1) T_Batch c" "cl_pub c = p'" by fastforce
  then obtain q2 where q2: "api_step x rnd send close_writer k ap q1 q2" "pr_main q2 = P_Closed False" "cl_pub (pr_cluster q2) = p'"
    using process_step.workers [OF _ crew_step.tick [of i ?n q1 x ?w ?publish T_Batch c]] q1(2,5,6) assms(5-7) by fastforce
  have "terminal_of (cl_pub (pr_cluster q1)) = KafkaTerminal (snd (PublisherClose close_writer p))"
    unfolding q1(3) by (rule ApiClose_kafka [OF p])
  moreover have "\<exists>p2. terminal_of p' = KafkaTerminal p2 \<and>
      kp_writer p2 = snd (snd (send (snd (close_writer (kp_writer p))) (message_of x ev)))"
    if "\<not> f64_less (Finite 0) (oc_publish_failure_rate (cf_outbox (ap_config ap)))" "oe_payload ev \<noteq> []" "json_valid (oe_payload ev)"
    using closed_direct_publish [OF direct [OF that(1)] p that(2,3), of rnd x send close_writer] pub q1(3) by simp
  ultimately show ?thesis using p q1(1,2) q2 pub by (intro exI [of _ p] exI [of _ q1] exI [of _ q2]) auto
qed

theorem publish_after_close_witness:
  "\<exists>ap q q1 q2. api_start calm_platform (calm_environment kafka_configuration) solo_db = (Serving ap, solo_db) \<and>
    api_reach plain_externals (\<lambda>_. 0) ack_writer no_close plain_codec ap
      (process_init (cluster_init solo_db 20 (ap_publisher ap))) q \<and>
    api_reach plain_externals (\<lambda>_. 0) ack_writer no_close plain_codec ap q q1 \<and> pr_main q1 = P_Closed False \<and>
    api_step plain_externals (\<lambda>_. 0) ack_writer no_close plain_codec ap q1 q2 \<and>
    cl_pub (pr_cluster q2) = snd (ApiPublish (\<lambda>_. 0) plain_externals ack_writer (cl_pub (pr_cluster q1)) solo_event)"
proof -
  obtain ap where ap: "api_start calm_platform (calm_environment kafka_configuration) solo_db = (Serving ap, solo_db)"
    "ap_config ap = kafka_configuration" "ap_publisher ap = Direct_publisher kafka_terminal" "length (ap_workers ap) = 3"
    using kafka_start by blast
  have "1 \<le> wc_batch_size (api_worker (ap_config ap))" "0 < length (ap_workers ap)"
    by (simp_all add: ap api_worker_def NewOutboxWorker_def kafka_configuration_def example_configuration_def)
  from process_claims [OF this(2,1), where publish = "ApiPublish (\<lambda>_. 0) plain_externals ack_writer"
      and close_pub = "ApiClose no_close" and get = "registry_get (ap_registry ap)" and k = plain_codec and ?p0.0 = "ap_publisher ap"]
  obtain q where q: "api_reach plain_externals (\<lambda>_. 0) ack_writer no_close plain_codec ap
      (process_init (cluster_init solo_db 20 (ap_publisher ap))) q" "pr_main q = P_Serving" "rs_main (pr_runs q 0) = M_Batch"
    "pr_ticks q 0 = T_Batch" "cl_pc (pr_cluster q) 0 = Working 20 [solo_event]" by (auto simp: in_batch_def)
  have "oc_publisher (cf_outbox (ap_config ap)) = OutboxPublisherKafka" by (simp add: ap kafka_configuration_def)
  from publish_after_close [OF ap(1) this q(1,2) _ q(3-5)] ap(4) ap(1) q(1) show ?thesis
    by simp blast
qed

end
