(* ===== verification/Api_Exit.thy ===== *)
theory Api_Exit
  imports Api_Process
begin

text \<open>
  The process is never stuck: wherever its workers are, in the middle of a claim, of a batch or of a
  mark that waits for a row lock, the shutdown can go on in good order until every \<open>Run\<close> has
  returned and the publisher is closed after it.
\<close>

section \<open>From each phase to the end\<close>

lemma waiting_exits:
  assumes "process_inv w n q" and "pr_main q = P_Waiting t"
  shows "\<exists>q'. process_reach x w publish close_pub n get k q q' \<and> pr_main q' = P_Closed True"
proof -
  have "crew_inv w n q" "\<forall>i < n. rs_ctx_done (pr_runs q i) \<noteq> None" using assms by (auto simp: process_inv_def)
  from crew_returns [OF this, of x publish] obtain q2 where crew: "crew_reach x w publish n q q2"
    and home: "\<forall>i < n. \<exists>f. rs_main (pr_runs q2 i) = M_Closed f" by blast
  have q2: "process_reach x w publish close_pub n get k q q2" "pr_main q2 = P_Waiting t"
    using crew_reach_process [OF crew, where get = get and k = k] assms(2) by simp_all
  let ?q3 = "q2\<lparr>pr_main := P_Closing True\<rparr>"
  have 3: "process_step x w publish close_pub n get k q2 ?q3"
    by (rule process_step.workers_stopped) (use q2(2) home in auto)
  obtain q4 where 4: "process_step x w publish close_pub n get k ?q3 q4" "pr_main q4 = P_Closed True"
    using process_step.close_publisher [of ?q3 True] by fastforce
  show ?thesis using process_reach.more [OF process_reach.more [OF q2(1) 3] 4(1)] 4(2) by blast
qed

lemma draining_exits:
  assumes "process_inv w n q" and "pr_main q = P_Draining"
  shows "\<exists>q'. process_reach x w publish close_pub n get k q q' \<and> pr_main q' = P_Closed True"
proof -
  let ?q1 = "q\<lparr>pr_main := P_Waiting (cl_now (pr_cluster q)), pr_http := False\<rparr>"
  have s: "process_step x w publish close_pub n get k q ?q1" by (rule process_step.server_stopped [OF assms(2)])
  obtain q' where "process_reach x w publish close_pub n get k ?q1 q'" "pr_main q' = P_Closed True"
    using waiting_exits [OF process_step_inv [OF s assms(1)]] by fastforce
  then show ?thesis using process_reach_trans process_reach.more [OF process_reach.here s] by blast
qed

lemma serving_exits:
  assumes "process_inv w n q" and "pr_main q = P_Serving"
  shows "\<exists>q'. process_reach x w publish close_pub n get k q q' \<and> pr_main q' = P_Closed True"
proof -
  let ?q1 = "q\<lparr>pr_main := P_Draining, pr_runs := (\<lambda>i. cancel_run (pr_runs q i))\<rparr>"
  have s: "process_step x w publish close_pub n get k q ?q1" by (rule process_step.shutdown [OF assms(2)])
  obtain q' where "process_reach x w publish close_pub n get k ?q1 q'" "pr_main q' = P_Closed True"
    using draining_exits [OF process_step_inv [OF s assms(1)]] by fastforce
  then show ?thesis using process_reach_trans process_reach.more [OF process_reach.here s] by blast
qed

section \<open>The property\<close>

text \<open>C17: an orderly shutdown is possible at every moment.  From every state the process can reach
  while it serves, drains the server or waits for its workers, some continuation brings every
  \<open>Run\<close> to its return and closes the publisher after it: no worker is ever stuck, neither on a
  row lock of another nor in the middle of its batch.\<close>

theorem orderly_exit_possible:
  assumes "process_reach x w publish close_pub n get k (process_init (cluster_init s0 now p)) q"
    and "pr_main q \<in> {P_Serving, P_Draining} \<or> (\<exists>t. pr_main q = P_Waiting t)"
  shows "\<exists>q'. process_reach x w publish close_pub n get k q q' \<and> pr_main q' = P_Closed True \<and>
    (\<forall>i < n. \<exists>f. rs_main (pr_runs q' i) = M_Closed f)"
proof -
  have inv: "process_inv w n q" using process_reach_inv [OF assms(1)] .
  obtain q' where q': "process_reach x w publish close_pub n get k q q'" "pr_main q' = P_Closed True"
    using serving_exits [OF inv] draining_exits [OF inv] waiting_exits [OF inv] assms(2) by blast
  moreover have "process_inv w n q'" using process_inv_reach [OF q'(1) inv] .
  ultimately show ?thesis by (auto simp: process_inv_def)
qed

theorem orderly_exit_possible_witness:
  "\<exists>q q'. hand (cl_pc (pr_cluster (q :: log_publisher api_run)) 0) = [solo_event] \<and> stuck_reach q q' \<and>
    pr_main q' = P_Closed True"
proof -
  obtain q where q: "stuck_reach stuck_init q" "pr_main q = P_Serving"
    "cl_pc (pr_cluster q) 0 = Working 20 [solo_event]"
    using stuck_claimed by blast
  obtain q' where "stuck_reach q q'" "pr_main q' = P_Closed True"
    using orderly_exit_possible [OF q(1) [unfolded stuck_init_def]] q(2) by blast
  with q(3) show ?thesis by (intro exI [of _ q] exI [of _ q']) simp
qed

end
