(* ===== verification/Bench_Process.thy ===== *)
theory Bench_Process
  imports Crew Bench_Correct
begin

text \<open>
  A benchmark run as a process (\<open>run\<close> of cmd/outboxbench/main.go, once the outbox is seeded): the
  crew of workers on one side; on the other the main goroutine, which polls until the outbox is
  drained, the time is up or the run is interrupted, cancels the workers, waits for all of them, and
  builds the result from the counts of its last poll and the figures of the publisher.
\<close>

section \<open>The process\<close>

text \<open>The main goroutine: about to wait, about to count or to look at a count, in the select between
  two polls (each with the deadline and the counts of the last poll), with the answer of the wait,
  waiting for the workers (with the answer and the duration of the run), and done.\<close>

datatype bench_phase =
    B_Start
  | B_Count time outboxCounts
  | B_Check time outboxCounts
  | B_Select time outboxCounts
  | B_Stop outboxCounts failure
  | B_Join outboxCounts failure int
  | B_Done "failure \<times> string list \<times> bench_result"

record 'n bench_run = "'n bench_chain crew" +
  bn_main :: bench_phase
  bn_interrupted :: bool             \<comment> \<open>a signal has canceled the root context\<close>

definition bench_init :: "'n bench_chain cluster \<Rightarrow> 'n bench_run" where
  "bench_init c =
     \<lparr>pr_runs = (\<lambda>_. ctl_init (cl_now c)), pr_ticks = (\<lambda>_. T_Reclaim), pr_cluster = c, pr_claims = (\<lambda>_. 0),
      bn_main = B_Start, bn_interrupted = False\<rparr>"

definition zero_counts :: outboxCounts where
  "zero_counts = \<lparr>cnt_pending = 0, cnt_processing = 0, cnt_published = 0, cnt_closed = 0\<rparr>"

text \<open>What \<open>Run\<close> of a returned worker put into the channel.\<close>

definition run_answer :: "run_ctl \<Rightarrow> failure" where
  "run_answer r = (case rs_main r of M_Closed f \<Rightarrow> f | _ \<Rightarrow> None)"

text \<open>The run starts at \<open>start\<close>; \<open>tt\<close> is the text of the timeout.\<close>

inductive bench_step ::
  "externals \<Rightarrow> runConfig \<Rightarrow> (nat \<Rightarrow> rat) \<Rightarrow> 'n publisher \<Rightarrow> string \<Rightarrow> time \<Rightarrow> 'n bench_run \<Rightarrow> 'n bench_run \<Rightarrow> bool"
  for x :: externals and cfg :: runConfig and rnd :: "nat \<Rightarrow> rat" and next_publish :: "'n publisher"
    and tt :: string and start :: time
where
  signal: "(\<forall>a. bn_main q \<noteq> B_Done a) \<Longrightarrow> bench_step x cfg rnd next_publish tt start q
    (q\<lparr>bn_interrupted := True, pr_runs := (\<lambda>i. cancel_run (pr_runs q i))\<rparr>)"
| wait: "bn_main q = B_Start \<Longrightarrow> bench_step x cfg rnd next_publish tt start q
    (q\<lparr>bn_main := B_Count (cl_now (pr_cluster q) + rc_timeout cfg) zero_counts\<rparr>)"
| count_failed: "bn_main q = B_Count d counts \<Longrightarrow> countByStatus c (cl_db (pr_cluster q)) = Inl err \<Longrightarrow>
    bench_step x cfg rnd next_publish tt start q (q\<lparr>bn_main := B_Stop counts (Some (wrapf ''count: '' err))\<rparr>)"
| counted: "bn_main q = B_Count d counts \<Longrightarrow> countByStatus c (cl_db (pr_cluster q)) = Inr fresh \<Longrightarrow>
    bench_step x cfg rnd next_publish tt start q (q\<lparr>bn_main := B_Check d fresh\<rparr>)"
| drained: "bn_main q = B_Check d counts \<Longrightarrow> cnt_pending counts = 0 \<Longrightarrow> cnt_processing counts = 0 \<Longrightarrow>
    bench_step x cfg rnd next_publish tt start q (q\<lparr>bn_main := B_Stop counts None\<rparr>)"
| overdue: "bn_main q = B_Check d counts \<Longrightarrow> \<not> (cnt_pending counts = 0 \<and> cnt_processing counts = 0) \<Longrightarrow>
    d < cl_now (pr_cluster q) \<Longrightarrow> bench_step x cfg rnd next_publish tt start q
      (q\<lparr>bn_main := B_Stop counts (Some (ErrorString (''outbox not drained within '' @ tt)))\<rparr>)"
| go_on: "bn_main q = B_Check d counts \<Longrightarrow> \<not> (cnt_pending counts = 0 \<and> cnt_processing counts = 0) \<Longrightarrow>
    cl_now (pr_cluster q) \<le> d \<Longrightarrow> bench_step x cfg rnd next_publish tt start q (q\<lparr>bn_main := B_Select d counts\<rparr>)"
| ticker: "bn_main q = B_Select d counts \<Longrightarrow>
    bench_step x cfg rnd next_publish tt start q (q\<lparr>bn_main := B_Count d counts\<rparr>)"
| interrupted: "bn_main q = B_Select d counts \<Longrightarrow> bn_interrupted q \<Longrightarrow> bench_step x cfg rnd next_publish tt start q
    (q\<lparr>bn_main := B_Stop counts (Some (ErrorString ''interrupted''))\<rparr>)"
| stop: "bn_main q = B_Stop counts err \<Longrightarrow> bench_step x cfg rnd next_publish tt start q
    (q\<lparr>bn_main := B_Join counts err (cl_now (pr_cluster q) - start), pr_runs := (\<lambda>i. cancel_run (pr_runs q i))\<rparr>)"
| finish: "bn_main q = B_Join counts err duration \<Longrightarrow>
    (\<forall>i < nat (rc_workers cfg). \<exists>f. rs_main (pr_runs q i) = M_Closed f) \<Longrightarrow>
    mset errs = mset (map (\<lambda>i. run_answer (pr_runs q i)) [0..<nat (rc_workers cfg)]) \<Longrightarrow>
    bench_step x cfg rnd next_publish tt start q (q\<lparr>bn_main := B_Done
      (bench_finish cfg errs close_err err append_row counts (cl_pub (pr_cluster q)) duration start)\<rparr>)"
| workers: "(\<forall>a. bn_main q \<noteq> B_Done a) \<Longrightarrow>
    crew_step x (bench_worker_config cfg) (ChainPublish rnd next_publish) (nat (rc_workers cfg)) q q' \<Longrightarrow>
    bench_step x cfg rnd next_publish tt start q q'"

inductive bench_reach ::
  "externals \<Rightarrow> runConfig \<Rightarrow> (nat \<Rightarrow> rat) \<Rightarrow> 'n publisher \<Rightarrow> string \<Rightarrow> time \<Rightarrow> 'n bench_run \<Rightarrow> 'n bench_run \<Rightarrow> bool"
  for x cfg rnd next_publish tt start q0
where
  here: "bench_reach x cfg rnd next_publish tt start q0 q0"
| more: "bench_reach x cfg rnd next_publish tt start q0 q \<Longrightarrow> bench_step x cfg rnd next_publish tt start q q' \<Longrightarrow>
    bench_reach x cfg rnd next_publish tt start q0 q'"

inductive_cases bench_stepE: "bench_step x cfg rnd next_publish tt start q q'"

abbreviation bench_workers_reach ::
  "externals \<Rightarrow> runConfig \<Rightarrow> (nat \<Rightarrow> rat) \<Rightarrow> 'n publisher \<Rightarrow> 'n bench_chain cluster \<Rightarrow> 'n bench_chain cluster \<Rightarrow> bool" where
  "bench_workers_reach x cfg rnd next_publish \<equiv>
     worker_reach x (bench_worker_config cfg) (ChainPublish rnd next_publish) (nat (rc_workers cfg))"

section \<open>Where the counts come from\<close>

text \<open>The counts were read at some moment between the start \<open>c0\<close> and now.\<close>

definition counted_at ::
  "externals \<Rightarrow> runConfig \<Rightarrow> (nat \<Rightarrow> rat) \<Rightarrow> 'n publisher \<Rightarrow> 'n bench_chain cluster \<Rightarrow> 'n bench_chain cluster \<Rightarrow>
   outboxCounts \<Rightarrow> bool" where
  "counted_at x cfg rnd next_publish c0 c' counts \<longleftrightarrow>
     (\<exists>c s. bench_workers_reach x cfg rnd next_publish c0 s \<and> countByStatus c (cl_db s) = Inr counts \<and>
       bench_workers_reach x cfg rnd next_publish s c')"

definition waited ::
  "externals \<Rightarrow> runConfig \<Rightarrow> (nat \<Rightarrow> rat) \<Rightarrow> 'n publisher \<Rightarrow> 'n bench_chain cluster \<Rightarrow> 'n bench_chain cluster \<Rightarrow>
   outboxCounts \<Rightarrow> failure \<Rightarrow> bool" where
  "waited x cfg rnd next_publish c0 c' counts err \<longleftrightarrow>
     (if err = None then drained counts \<and> counted_at x cfg rnd next_publish c0 c' counts
      else counted_at x cfg rnd next_publish c0 c' counts \<or>
        counts = zero_counts \<and> (\<exists>e. err = Some (wrapf ''count: '' e)))"

definition home :: "runConfig \<Rightarrow> 'n bench_run \<Rightarrow> bool" where
  "home cfg q \<longleftrightarrow> (\<forall>i < nat (rc_workers cfg). \<exists>f. rs_main (pr_runs q i) = M_Closed f)"

fun phase_ok ::
  "externals \<Rightarrow> runConfig \<Rightarrow> (nat \<Rightarrow> rat) \<Rightarrow> 'n publisher \<Rightarrow> time \<Rightarrow> 'n bench_chain cluster \<Rightarrow> 'n bench_run \<Rightarrow>
   bench_phase \<Rightarrow> bool" where
  "phase_ok x cfg rnd next_publish start c0 q B_Start \<longleftrightarrow> True"
| "phase_ok x cfg rnd next_publish start c0 q (B_Count d counts) \<longleftrightarrow>
     counts = zero_counts \<or> counted_at x cfg rnd next_publish c0 (pr_cluster q) counts"
| "phase_ok x cfg rnd next_publish start c0 q (B_Check d counts) \<longleftrightarrow>
     counted_at x cfg rnd next_publish c0 (pr_cluster q) counts"
| "phase_ok x cfg rnd next_publish start c0 q (B_Select d counts) \<longleftrightarrow>
     counted_at x cfg rnd next_publish c0 (pr_cluster q) counts"
| "phase_ok x cfg rnd next_publish start c0 q (B_Stop counts err) \<longleftrightarrow>
     waited x cfg rnd next_publish c0 (pr_cluster q) counts err"
| "phase_ok x cfg rnd next_publish start c0 q (B_Join counts err duration) \<longleftrightarrow>
     waited x cfg rnd next_publish c0 (pr_cluster q) counts err \<and>
     (\<forall>i < nat (rc_workers cfg). rs_ctx_done (pr_runs q i) \<noteq> None)"
| "phase_ok x cfg rnd next_publish start c0 q (B_Done a) \<longleftrightarrow> home cfg q \<and>
     (\<exists>counts err duration errs close_err append_row. waited x cfg rnd next_publish c0 (pr_cluster q) counts err \<and>
       a = bench_finish cfg errs close_err err append_row counts (cl_pub (pr_cluster q)) duration start)"

definition bench_inv ::
  "externals \<Rightarrow> runConfig \<Rightarrow> (nat \<Rightarrow> rat) \<Rightarrow> 'n publisher \<Rightarrow> time \<Rightarrow> 'n bench_chain cluster \<Rightarrow> 'n bench_run \<Rightarrow> bool" where
  "bench_inv x cfg rnd next_publish start c0 q \<longleftrightarrow>
     crew_inv (bench_worker_config cfg) (nat (rc_workers cfg)) q \<and>
     bench_workers_reach x cfg rnd next_publish c0 (pr_cluster q) \<and>
     phase_ok x cfg rnd next_publish start c0 q (bn_main q)"

lemma counted_at_later:
  "counted_at x cfg rnd next_publish c0 c' counts \<Longrightarrow> bench_workers_reach x cfg rnd next_publish c' c'' \<Longrightarrow>
   counted_at x cfg rnd next_publish c0 c'' counts"
  unfolding counted_at_def by (blast intro: worker_reach_trans)

lemma counted_now:
  "bench_workers_reach x cfg rnd next_publish c0 s \<Longrightarrow> countByStatus c (cl_db s) = Inr counts \<Longrightarrow>
   counted_at x cfg rnd next_publish c0 s counts"
  unfolding counted_at_def by (blast intro: worker_reach.here)

lemma waited_later:
  "waited x cfg rnd next_publish c0 c' counts err \<Longrightarrow> bench_workers_reach x cfg rnd next_publish c' c'' \<Longrightarrow>
   waited x cfg rnd next_publish c0 c'' counts err"
  by (auto simp: waited_def split: if_splits intro: counted_at_later)

lemma crew_step_bench:
  assumes "crew_step x w publish n q q'"
  shows "bn_main q' = bn_main q" and "bn_interrupted q' = bn_interrupted q"
  using assms by (auto elim!: crew_stepE)

lemma bench_step_inv:
  assumes "bench_step x cfg rnd next_publish tt start q q'" and "bench_inv x cfg rnd next_publish start c0 q"
  shows "bench_inv x cfg rnd next_publish start c0 q'"
  using assms(1)
proof (cases rule: bench_step.cases)
  case workers
  have s: "bench_workers_reach x cfg rnd next_publish (pr_cluster q) (pr_cluster q')"
    using crew_reach_workers [OF crew_reach.more [OF crew_reach.here workers(2)]] .
  have "phase_ok x cfg rnd next_publish start c0 q' (bn_main q)"
    using assms(2) workers(1) counted_at_later [OF _ s] waited_later [OF _ s] crew_step_frame(2) [OF workers(2)]
    by (cases "bn_main q") (auto simp: bench_inv_def)
  then show ?thesis
    using assms(2) crew_step_inv [OF workers(2)] worker_reach_trans [OF s] crew_step_bench [OF workers(2)]
    by (simp add: bench_inv_def)
next
  case signal
  have "phase_ok x cfg rnd next_publish start c0 q' (bn_main q)"
    using assms(2) signal by (cases "bn_main q") (auto simp: bench_inv_def cancel_run_def)
  then show ?thesis using assms(2) signal by (simp add: bench_inv_def crew_inv_def worker_ok_env(1))
next
  case (counted d counts c fresh)
  then show ?thesis using assms(2) counted_now by (fastforce simp: bench_inv_def crew_inv_def)
next
  case (finish counts err duration errs close_err append_row)
  have "waited x cfg rnd next_publish c0 (pr_cluster q) counts err"
    using assms(2) finish(2) by (simp add: bench_inv_def)
  then have "phase_ok x cfg rnd next_publish start c0 q' (bn_main q')"
    using finish(3) unfolding finish(1) by (simp add: home_def) blast
  then show ?thesis using assms(2) finish(1) by (simp add: bench_inv_def crew_inv_def)
qed (use assms(2) worker_ok_env(1) in \<open>auto simp: bench_inv_def crew_inv_def waited_def drained_def cancel_run_def\<close>)

lemma bench_reach_inv:
  assumes "bench_reach x cfg rnd next_publish tt start (bench_init (cluster_init s0 now chain)) q"
  shows "bench_inv x cfg rnd next_publish start (cluster_init s0 now chain) q"
  using assms
proof (induction rule: bench_reach.induct)
  case here
  show ?case
    by (simp add: bench_inv_def bench_init_def crew_inv_def cluster_init_def worker_ok_init worker_reach.here)
qed (rule bench_step_inv)

section \<open>The run can always end\<close>

text \<open>Without a signal: some continuation is done, and the root context was not canceled in it.\<close>

definition ends ::
  "externals \<Rightarrow> runConfig \<Rightarrow> (nat \<Rightarrow> rat) \<Rightarrow> 'n publisher \<Rightarrow> string \<Rightarrow> time \<Rightarrow> 'n bench_run \<Rightarrow> bool" where
  "ends x cfg rnd next_publish tt start q \<longleftrightarrow>
     (\<exists>q' a. bench_reach x cfg rnd next_publish tt start q q' \<and> bn_main q' = B_Done a \<and>
       bn_interrupted q' = bn_interrupted q)"

lemma bench_reach_trans:
  assumes "bench_reach x cfg rnd next_publish tt start q1 q2" and "bench_reach x cfg rnd next_publish tt start q0 q1"
  shows "bench_reach x cfg rnd next_publish tt start q0 q2"
  using assms by (induction rule: bench_reach.induct) (auto intro: bench_reach.more)

lemma ends_back:
  assumes "bench_reach x cfg rnd next_publish tt start q q1" and "bn_interrupted q1 = bn_interrupted q"
    and "ends x cfg rnd next_publish tt start q1"
  shows "ends x cfg rnd next_publish tt start q"
  using assms bench_reach_trans unfolding ends_def by metis

lemma ends_step:
  assumes "bench_step x cfg rnd next_publish tt start q q1" and "bn_interrupted q1 = bn_interrupted q"
    and "ends x cfg rnd next_publish tt start q1"
  shows "ends x cfg rnd next_publish tt start q"
  using ends_back [OF bench_reach.more [OF bench_reach.here assms(1)] assms(2,3)] .

lemma crew_reach_bench:
  assumes "crew_reach x (bench_worker_config cfg) (ChainPublish rnd next_publish) (nat (rc_workers cfg)) q q'"
    and "\<forall>a. bn_main q \<noteq> B_Done a"
  shows "bench_reach x cfg rnd next_publish tt start q q' \<and> bn_main q' = bn_main q \<and> bn_interrupted q' = bn_interrupted q"
  using assms
proof (induction rule: crew_reach.induct)
  case (more q1 q2)
  then show ?case
    using bench_reach.more [OF _ bench_step.workers [OF _ more.hyps(2)]] crew_step_bench [OF more.hyps(2)] by auto
qed (simp add: bench_reach.here)

lemma ends_join:
  assumes "bench_inv x cfg rnd next_publish start c0 q" and "bn_main q = B_Join counts err duration"
  shows "ends x cfg rnd next_publish tt start q"
proof -
  have "crew_inv (bench_worker_config cfg) (nat (rc_workers cfg)) q"
    "\<forall>i < nat (rc_workers cfg). rs_ctx_done (pr_runs q i) \<noteq> None"
    using assms by (simp_all add: bench_inv_def)
  from crew_returns [OF this, of x "ChainPublish rnd next_publish"] obtain q1 where
    q1: "crew_reach x (bench_worker_config cfg) (ChainPublish rnd next_publish) (nat (rc_workers cfg)) q q1"
      "\<forall>i < nat (rc_workers cfg). \<exists>f. rs_main (pr_runs q1 i) = M_Closed f" by blast
  have r: "bench_reach x cfg rnd next_publish tt start q q1" "bn_main q1 = B_Join counts err duration"
    "bn_interrupted q1 = bn_interrupted q"
    using crew_reach_bench [OF q1(1), of tt start] assms(2) by simp_all
  show ?thesis
    using bench_reach.more [OF r(1) bench_step.finish [OF r(2) q1(2) refl]] r(3) unfolding ends_def by fastforce
qed

lemma ends_stop:
  assumes "bench_inv x cfg rnd next_publish start c0 q" and "bn_main q = B_Stop counts err"
  shows "ends x cfg rnd next_publish tt start q"
proof -
  note s = bench_step.stop [OF assms(2), of x cfg rnd next_publish tt start]
  show ?thesis by (rule ends_step [OF s _ ends_join [OF bench_step_inv [OF s assms(1)]]]) simp_all
qed

text \<open>Past the deadline the next look at a count ends the wait.\<close>

lemma ends_check_late:
  assumes "bench_inv x cfg rnd next_publish start c0 q" and "bn_main q = B_Check d counts" and "d < cl_now (pr_cluster q)"
  shows "ends x cfg rnd next_publish tt start q"
proof (cases "cnt_pending counts = 0 \<and> cnt_processing counts = 0")
  case True
  then have s: "bench_step x cfg rnd next_publish tt start q (q\<lparr>bn_main := B_Stop counts None\<rparr>)"
    using bench_step.drained [OF assms(2)] by blast
  show ?thesis by (rule ends_step [OF s _ ends_stop [OF bench_step_inv [OF s assms(1)]]]) simp_all
next
  case False
  note s = bench_step.overdue [OF assms(2) False assms(3), of x cfg rnd next_publish tt start]
  show ?thesis by (rule ends_step [OF s _ ends_stop [OF bench_step_inv [OF s assms(1)]]]) simp_all
qed

lemma ends_check:
  assumes "bench_inv x cfg rnd next_publish start c0 q" and "bn_main q = B_Check d counts"
  shows "ends x cfg rnd next_publish tt start q"
proof -
  define e where "e = max 0 (d - cl_now (pr_cluster q)) + 1"
  define q1 where "q1 = q\<lparr>pr_cluster := (pr_cluster q)\<lparr>cl_now := cl_now (pr_cluster q) + e\<rparr>,
    pr_runs := (\<lambda>i. (pr_runs q i)\<lparr>rs_now := rs_now (pr_runs q i) + e\<rparr>)\<rparr>"
  have s: "bench_step x cfg rnd next_publish tt start q q1"
    unfolding q1_def by (rule bench_step.workers [OF _ crew_step.pass]) (simp_all add: assms(2) e_def)
  show ?thesis
    by (rule ends_step [OF s _ ends_check_late [OF bench_step_inv [OF s assms(1)], of d counts]])
      (simp_all add: q1_def assms(2) e_def)
qed

lemma ends_count:
  assumes "bench_inv x cfg rnd next_publish start c0 q" and "bn_main q = B_Count d counts"
  shows "ends x cfg rnd next_publish tt start q"
proof -
  obtain fresh where "countByStatus (quiet_call 0) (cl_db (pr_cluster q)) = Inr fresh"
    by (simp add: countByStatus_def quiet_call_def)
  note s = bench_step.counted [OF assms(2) this, of x cfg rnd next_publish tt start]
  show ?thesis by (rule ends_step [OF s _ ends_check [OF bench_step_inv [OF s assms(1)]]]) simp_all
qed

lemma ends_select:
  assumes "bench_inv x cfg rnd next_publish start c0 q" and "bn_main q = B_Select d counts"
  shows "ends x cfg rnd next_publish tt start q"
proof -
  note s = bench_step.ticker [OF assms(2), of x cfg rnd next_publish tt start]
  show ?thesis by (rule ends_step [OF s _ ends_count [OF bench_step_inv [OF s assms(1)]]]) simp_all
qed

lemma ends_start:
  assumes "bench_inv x cfg rnd next_publish start c0 q" and "bn_main q = B_Start"
  shows "ends x cfg rnd next_publish tt start q"
proof -
  note s = bench_step.wait [OF assms(2), of x cfg rnd next_publish tt start]
  show ?thesis by (rule ends_step [OF s _ ends_count [OF bench_step_inv [OF s assms(1)]]]) simp_all
qed

lemma bench_run_can_end:
  assumes "bench_reach x cfg rnd next_publish tt start (bench_init (cluster_init s0 now chain)) q"
  shows "ends x cfg rnd next_publish tt start q"
proof -
  note inv = bench_reach_inv [OF assms]
  show ?thesis
  proof (cases "bn_main q")
    case B_Start
    then show ?thesis by (rule ends_start [OF inv])
  next
    case (B_Count d counts)
    then show ?thesis by (rule ends_count [OF inv])
  next
    case (B_Check d counts)
    then show ?thesis by (rule ends_check [OF inv])
  next
    case (B_Select d counts)
    then show ?thesis by (rule ends_select [OF inv])
  next
    case (B_Stop counts err)
    then show ?thesis by (rule ends_stop [OF inv])
  next
    case (B_Join counts err duration)
    then show ?thesis by (rule ends_join [OF inv])
  next
    case (B_Done a)
    then show ?thesis unfolding ends_def by (blast intro: bench_reach.here)
  qed
qed

section \<open>From the flags to the result\<close>

lemma bench_main_bounds:
  assumes "bench_main env fl = Inr cfg"
  shows "0 \<le> rc_poison_events cfg" and "rc_poison_events cfg \<le> rc_total_events cfg"
  using assms by (auto simp: bench_main_def Let_def split: if_splits)

lemma bench_setup_seeded:
  assumes "bench_setup bl cfg s = Some (Inr chain, s0)"
  shows "\<exists>s1 terminal. reseed (bl_truncate bl) (bl_seed_normal bl) (bl_seed_poison bl) (bl_normal_ids bl) (bl_poison_ids bl)
      (rc_total_events cfg - rc_poison_events cfg) (rc_poison_events cfg) s1 = (None, s0) \<and>
    chain = new_bench_chain cfg terminal (bl_fates bl)"
  using assms by (auto simp: bench_setup_def split: sum.splits option.splits prod.splits)

lemma bench_finish_result:
  assumes "bench_finish cfg errs close_err err append_row counts chain duration start = (answer, lines, r)"
  shows "r = buildResult cfg counts chain duration start"
    and "err = Some e \<Longrightarrow> ''WARNING: '' @ error_text e \<in> set lines"
  using assms by (auto simp: bench_finish_def Let_def split: if_splits option.splits)

lemma buildResult_counts:
  "br_lost (buildResult cfg counts chain duration start) = rc_total_events cfg -
     int (cnt_published counts + cnt_closed counts + cnt_pending counts + cnt_processing counts)"
  "br_published (buildResult cfg counts chain duration start) = cnt_published counts"
  "br_failed (buildResult cfg counts chain duration start) = cnt_closed counts"
  "br_pending (buildResult cfg counts chain duration start) = cnt_pending counts"
  "br_processing (buildResult cfg counts chain duration start) = cnt_processing counts"
  by (simp_all add: buildResult_def Let_def split_beta)

section \<open>A run\<close>

text \<open>Two events, one of them poison, over the in-memory publisher, on a platform where nothing fails.\<close>

definition small_flags :: bench_flags where
  "small_flags = flag_defaults\<lparr>fl_events := 2, fl_poison := 1\<rparr>"

definition small_config :: runConfig where
  "small_config =
     \<lparr>rc_workers = 1, rc_batch = 10, rc_interval = 50000000, rc_total_events = 2, rc_publish_latency = 0,
      rc_failure_rate = Finite 0, rc_poison_events = 1, rc_stale_timeout = 300000000000, rc_pool_size = 5,
      rc_timeout = 600000000000, rc_database_url = composeDefaultDatabaseURL, rc_out = [],
      rc_publisher = publisherInMemory, rc_kafka_brokers = resolveKafkaBrokers (\<lambda>_. []) [],
      rc_kafka_topic = ''eventflow.events''\<rparr>"

definition calm_bench :: "(unit, unit, unit) bench_platform" where
  "calm_bench =
     \<lparr>bl_parse_config = (\<lambda>_. Inr \<lparr>pool_options = (), pool_max_conns = 4, pool_min_conns = 0,
        pool_max_lifetime = 0, pool_max_idle_time = 0\<rparr>),
      bl_new_pool = (\<lambda>_. Inr ()), bl_pool_ping = (\<lambda>_. None), bl_files = repo_files,
      bl_exec = (\<lambda>_ s. Inr s), bl_migrations = (\<lambda>_. smooth_migration),
      bl_truncate = quiet_call 5, bl_seed_normal = quiet_call 5, bl_seed_poison = quiet_call 5,
      bl_normal_ids = [(1, 2, 3)], bl_poison_ids = [(4, 5, 6)], bl_topic_exists = (\<lambda>_. True),
      bl_create_topic = (\<lambda>_ _. Inr Map.empty), bl_topic_wait = late_topic, bl_now = 7, bl_make_writer = (\<lambda>_. ()),
      bl_fates = (\<lambda>_. \<lparr>bf_ctx = None, bf_elapsed = 1, bf_now = 8\<rparr>)\<rparr>"

lemma small_run: "bench_main (\<lambda>_. []) small_flags = Inr small_config"
  by (simp add: bench_main_def small_flags_def small_config_def flag_defaults_def publisherInMemory_def
      publisherKafka_def resolveDatabaseURL_def resolveKafkaTopic_def)

lemma small_setup: "\<exists>chain s0. bench_setup calm_bench small_config empty_db = Some (Inr chain, s0)"
proof -
  have "\<exists>s0. reseed (quiet_call 5) (quiet_call 5) (quiet_call 5) [(1, 2, 3)] [(4, 5, 6)] (2 - 1) 1 empty_db = (None, s0)"
    by (simp add: reseed_def seedBatch_def empty_db_def Let_def wf_db_def seeded_event_def seeded_row_def)
  then obtain s0 where "reseed (quiet_call 5) (quiet_call 5) (quiet_call 5) [(1, 2, 3)] [(4, 5, 6)] (2 - 1) 1 empty_db =
      (None, s0)" by blast
  then show ?thesis
    by (simp add: bench_setup_def calm_bench_def small_config_def NewDB_def Ping_def Migrate_calm bench_terminal_def
        publisherInMemory_def publisherKafka_def)
qed

section \<open>The property\<close>

text \<open>C28: a benchmark that reports, reports the truth.  From the flags over the seeding to the last line,
  in every interleaving of the workers, the publisher's failures, the polls and a signal: when the
  result is there every worker has returned; every row counted as PUBLISHED is one of the distinct
  deliveries, and no duplicate is reported exactly when there were as many deliveries as distinct
  rows; nothing is reported lost unless the warning says that counting itself failed; and when there
  is no warning, nothing is lost, pending or processing, and published and closed make up the whole.\<close>

theorem bench_run_truthful:
  assumes "bench_main env fl = Inr cfg" and "bench_setup bl cfg s00 = Some (Inr chain, s0)"
    and "nat (rc_total_events cfg - rc_poison_events cfg) \<le> length (bl_normal_ids bl)"
    and "nat (rc_poison_events cfg) \<le> length (bl_poison_ids bl)" and "sound_columns x"
    and "bench_reach x cfg rnd (KafkaPublish x send) tt now (bench_init (cluster_init s0 now chain)) q"
    and "bn_main q = B_Done (answer, lines, r)"
  shows "(\<forall>i < nat (rc_workers cfg). \<exists>f. rs_main (pr_runs q i) = M_Closed f) \<and>
    br_published r \<le> br_distinct r \<and> br_distinct r \<le> br_publish_calls r \<and>
    (br_duplicate r = 0 \<longleftrightarrow> br_distinct r = br_publish_calls r) \<and>
    (br_lost r = 0 \<or> (\<exists>e. ''WARNING: count: '' @ error_text e \<in> set lines)) \<and>
    ((\<forall>l \<in> set lines. take 9 l \<noteq> ''WARNING: '') \<longrightarrow> br_lost r = 0 \<and> br_pending r = 0 \<and> br_processing r = 0 \<and>
      int (br_published r + br_failed r) = rc_total_events cfg)"
proof -
  obtain s1 terminal where seed: "reseed (bl_truncate bl) (bl_seed_normal bl) (bl_seed_poison bl) (bl_normal_ids bl)
      (bl_poison_ids bl) (rc_total_events cfg - rc_poison_events cfg) (rc_poison_events cfg) s1 = (None, s0)"
    and chain: "chain = new_bench_chain cfg terminal (bl_fates bl)"
    using bench_setup_seeded [OF assms(2)] by blast
  note inv = bench_reach_inv [OF assms(6)]
  then obtain counts err duration errs close_err append_row where home: "home cfg q"
    and w: "waited x cfg rnd (KafkaPublish x send) (cluster_init s0 now chain) (pr_cluster q) counts err"
    and fin: "bench_finish cfg errs close_err err append_row counts (cl_pub (pr_cluster q)) duration now = (answer, lines, r)"
    using assms(7) by (auto simp: bench_inv_def)
  note res = bench_finish_result [OF fin]
  have del: "br_distinct r \<le> br_publish_calls r \<and> (br_duplicate r = 0 \<longleftrightarrow> br_distinct r = br_publish_calls r)"
    using bench_deliveries [OF _ , of x _ rnd "KafkaPublish x send"] inv unfolding bench_inv_def chain res(1) Let_def by blast
  have true_counts: "br_lost r = 0 \<and> br_published r \<le> br_distinct r"
    if "counted_at x cfg rnd (KafkaPublish x send) (cluster_init s0 now chain) (pr_cluster q) counts"
    using that bench_figures_truthful [OF seed bench_main_bounds [OF assms(1)] assms(3-5)]
    unfolding counted_at_def chain res(1) Let_def by blast
  have none: "err = None" if "\<forall>l \<in> set lines. take 9 l \<noteq> ''WARNING: ''"
  proof (rule ccontr)
    assume "err \<noteq> None"
    then obtain e where "''WARNING: '' @ error_text e \<in> set lines" using res(2) by blast
    then show False using that by fastforce
  qed
  show ?thesis
  proof (cases "counted_at x cfg rnd (KafkaPublish x send) (cluster_init s0 now chain) (pr_cluster q) counts")
    case True
    have "br_pending r = 0 \<and> br_processing r = 0 \<and> int (br_published r + br_failed r) = rc_total_events cfg"
      if "\<forall>l \<in> set lines. take 9 l \<noteq> ''WARNING: ''"
      using w none [OF that] true_counts [OF True] unfolding res(1) buildResult_counts by (simp add: waited_def drained_def)
    then show ?thesis using true_counts [OF True] del home by (simp add: home_def)
  next
    case False
    with w obtain e where e: "err = Some (wrapf ''count: '' e)" "counts = zero_counts"
      by (auto simp: waited_def split: if_splits)
    then have "br_published r = 0" unfolding res(1) buildResult_counts by (simp add: zero_counts_def)
    moreover have "''WARNING: count: '' @ error_text e \<in> set lines" using res(2) [OF e(1)] by simp
    ultimately show ?thesis using none e(1) del home unfolding home_def by auto
  qed
qed

theorem bench_run_truthful_witness:
  "\<exists>chain s0 q answer lines r. bench_setup calm_bench small_config empty_db = Some (Inr chain, s0) \<and>
    bn_main (q :: unit kafka_publisher bench_run) = B_Done (answer, lines, r) \<and>
    (\<exists>f. rs_main (pr_runs q 0) = M_Closed f) \<and> br_published r \<le> br_distinct r \<and> br_distinct r \<le> br_publish_calls r"
proof -
  obtain chain s0 where set: "bench_setup calm_bench small_config empty_db = Some (Inr chain, s0)"
    using small_setup by blast
  let ?q0 = "bench_init (cluster_init s0 7 chain)"
  obtain q answer lines r where q: "bench_reach plain_externals small_config (\<lambda>_. 0) (KafkaPublish plain_externals ack_writer)
      ''10m0s'' 7 ?q0 q" "bn_main q = B_Done (answer, lines, r)"
    using bench_run_can_end [OF bench_reach.here] unfolding ends_def by (metis prod_cases3)
  from bench_run_truthful [OF small_run set _ _ pair_wf(3) q] set q(2) show ?thesis
    by (intro exI [of _ chain] exI [of _ s0] exI [of _ q] exI [of _ answer] exI [of _ lines] exI [of _ r])
      (simp add: small_config_def calm_bench_def)
qed

end
