(* ===== verification/Bench_Report.thy ===== *)
theory Bench_Report
  imports Bench Go_Time
begin

text \<open>
  What a benchmark prints (\<open>throughput\<close>, \<open>report\<close> and the rows of the result file in
  cmd/outboxbench/main.go), with the parts of Go's standard library it is printed by: \<open>Round\<close> and
  \<open>String\<close> of a \<open>time.Duration\<close> and \<open>%.nf\<close> of a float.  The rounding of floating-point
  operations is an argument, a float the rational number it stands for.
\<close>

section \<open>Durations\<close>

definition max_duration :: int where "max_duration = 2 ^ 63 - 1"
definition min_duration :: int where "min_duration = - (2 ^ 63)"

text \<open>\<open>d.Round(m)\<close>: to the nearest multiple, halves away from zero, saturating.\<close>

definition Duration_Round :: "int \<Rightarrow> int \<Rightarrow> int" where
  "Duration_Round m d =
     (if m \<le> 0 then d
      else let r = \<bar>d\<bar> mod m in
        if d < 0 then
          if r + r < m then d + r else if min_duration \<le> d - m + r then d - m + r else min_duration
        else
          if r + r < m then d - r else if d + m - r \<le> max_duration then d + m - r else max_duration)"

text \<open>The digits after the point, without trailing zeros.\<close>

definition frac_text :: "nat \<Rightarrow> int \<Rightarrow> string" where
  "frac_text prec v =
     (let ds = rev (dropWhile (\<lambda>c. c = CHR ''0'') (rev (pad prec (v mod 10 ^ prec))))
      in if ds = [] then [] else CHR ''.'' # ds)"

definition Duration_String :: "int \<Rightarrow> string" where
  "Duration_String d =
     (let u = \<bar>d\<bar>; sign = (if d < 0 then ''-'' else []) in
      if u = 0 then ''0s''
      else if u < 1000 then sign @ itoa u @ ''ns''
      else if u < 1000000 then sign @ itoa (u div 1000) @ frac_text 3 u @ [CHR 0xC2, CHR 0xB5] @ ''s''
      else if u < 1000000000 then sign @ itoa (u div 1000000) @ frac_text 6 u @ ''ms''
      else
        let s = u div 1000000000; m = s div 60; h = m div 60 in
        sign @ (if 0 < m then (if 0 < h then itoa h @ ''h'' else []) @ itoa (m mod 60) @ ''m'' else []) @
        itoa (s mod 60) @ frac_text 9 u @ ''s'')"

section \<open>Floats\<close>

definition round_half_even :: "rat \<Rightarrow> int" where
  "round_half_even q =
     (let n = \<lfloor>q\<rfloor>; f = q - of_int n in if f < 1 / 2 \<or> f = 1 / 2 \<and> even n then n else n + 1)"

text \<open>\<open>%.pf\<close>, for \<open>0 < p\<close>: the exact value, rounded to \<open>p\<close> decimals.\<close>

definition fixed_text :: "nat \<Rightarrow> rat \<Rightarrow> string" where
  "fixed_text p q =
     (let n = round_half_even (\<bar>q\<bar> * 10 ^ p)
      in (if q < 0 then ''-'' else []) @ itoa (n div 10 ^ p) @ ''.'' @ pad p (n mod 10 ^ p))"

fun f64_text :: "nat \<Rightarrow> f64 \<Rightarrow> string" where
  "f64_text p NaN = ''NaN''"
| "f64_text p PosInf = ''+Inf''"
| "f64_text p NegInf = ''-Inf''"
| "f64_text p (Finite q) = fixed_text p q"

section \<open>The report\<close>

text \<open>\<open>fl\<close> rounds the exact result of an operation to a float.\<close>

definition Duration_Seconds :: "(rat \<Rightarrow> rat) \<Rightarrow> int \<Rightarrow> rat" where
  "Duration_Seconds fl d =
     (let sec = d div 1000000000; nsec = d mod 1000000000
      in fl (fl (of_int sec) + fl (fl (of_int nsec) / 1000000000)))"

definition throughput :: "(rat \<Rightarrow> rat) \<Rightarrow> bench_result \<Rightarrow> rat" where
  "throughput fl r =
     (if br_duration r \<le> 0 then 0 else fl (fl (of_nat (br_published r)) / Duration_Seconds fl (br_duration r)))"

definition bench_texts :: "(rat \<Rightarrow> rat) \<Rightarrow> bench_result \<Rightarrow> row_texts" where
  "bench_texts fl r =
     \<lparr>rt_duration = Duration_String (Duration_Round 1000000 (br_duration r)),
      rt_throughput = fixed_text 1 (throughput fl r),
      rt_avg = Duration_String (Duration_Round 1000 (br_avg r))\<rparr>"

definition report :: "(rat \<Rightarrow> rat) \<Rightarrow> runConfig \<Rightarrow> bench_result \<Rightarrow> string" where
  "report fl cfg r =
     (let t = bench_texts fl r; nl = [CHR 0x0A];
          double = ''========================================''; single = ''----------------------------------------''
      in nl @ join nl
        [double, ''outbox worker benchmark'', double,
         ''workers               '' @ itoa (rc_workers cfg),
         ''batch_size            '' @ itoa (rc_batch cfg),
         ''interval              '' @ Duration_String (rc_interval cfg),
         ''publisher             '' @ publisherLabel cfg,
         ''publish_latency       '' @ Duration_String (rc_publish_latency cfg),
         ''failure_rate          '' @ f64_text 2 (rc_failure_rate cfg),
         ''poison_events         '' @ itoa (rc_poison_events cfg),
         ''stale_timeout         '' @ Duration_String (rc_stale_timeout cfg),
         ''pool_size             '' @ itoa (rc_pool_size cfg),
         ''total_events          '' @ itoa (rc_total_events cfg),
         single,
         ''duration              '' @ rt_duration t,
         ''time_to_first_publish '' @ Duration_String (Duration_Round 1000000 (br_time_to_first r)),
         ''throughput            '' @ rt_throughput t @ '' events/sec'',
         ''publish_duration_avg  '' @ rt_avg t,
         ''publish_duration_max  '' @ Duration_String (Duration_Round 1000 (br_max r)),
         single,
         ''published             '' @ itoa (int (br_published r)),
         ''failed (CLOSE)        '' @ itoa (int (br_failed r)),
         ''remaining_pending     '' @ itoa (int (br_pending r)),
         ''remaining_processing  '' @ itoa (int (br_processing r)),
         ''duplicate             '' @ itoa (int (br_duplicate r)),
         ''lost                  '' @ itoa (br_lost r),
         single,
         ''publish_attempts      '' @ itoa (br_attempts r),
         ''injected_failures     '' @ itoa (br_injected r),
         ''publish_calls         '' @ itoa (int (br_publish_calls r)) @ '' (distinct '' @ itoa (int (br_distinct r)) @ '')'',
         double, [], markdownHeader, markdownRow cfg t r] @ nl)"

section \<open>Rounding is to the nearest\<close>

lemma Duration_Round_near:
  assumes "0 < m" and "min_duration \<le> d" and "d \<le> max_duration"
  shows "2 * \<bar>Duration_Round m d - d\<bar> \<le> m" and "min_duration \<le> Duration_Round m d" and "Duration_Round m d \<le> max_duration"
proof -
  define r where "r = \<bar>d\<bar> mod m"
  have r: "0 \<le> r" "r < m" "r \<le> \<bar>d\<bar>" using assms(1) by (simp_all add: r_def zmod_le_nonneg_dividend)
  have e: "Duration_Round m d =
      (if d < 0 then if r + r < m then d + r else if min_duration \<le> d - m + r then d - m + r else min_duration
       else if r + r < m then d - r else if d + m - r \<le> max_duration then d + m - r else max_duration)"
    using assms(1) by (simp add: Duration_Round_def r_def)
  show "2 * \<bar>Duration_Round m d - d\<bar> \<le> m" "min_duration \<le> Duration_Round m d" "Duration_Round m d \<le> max_duration"
    unfolding e using assms r by (auto simp: max_duration_def min_duration_def split: if_splits)
qed

section \<open>The rows of the table\<close>

text \<open>No cell contains the separator, so a row has the cells it was written from, as many as the header
  has columns.\<close>

lemma itoa_chars: "c \<in> set (itoa i) \<Longrightarrow> c = CHR ''-'' \<or> digit_val c \<noteq> None"
  using dec_nat_digits by (auto simp: itoa_def split: if_splits)

lemma bar_no_digit: "digit_val CHR ''|'' = None"
  by (simp add: digit_val_def)

lemma itoa_no_bar [simp]: "CHR ''|'' \<notin> set (itoa i)"
  using itoa_chars [of "CHR ''|''" i] by (auto simp: bar_no_digit)

lemma pad_no_bar [simp]: "CHR ''|'' \<notin> set (pad n i)"
  by (simp add: pad_def Let_def)

lemma frac_no_bar [simp]: "CHR ''|'' \<notin> set (frac_text p v)"
  by (auto simp: frac_text_def Let_def dest!: set_dropWhileD)

lemma duration_no_bar [simp]: "CHR ''|'' \<notin> set (Duration_String d)"
  by (simp add: Duration_String_def Let_def)

lemma fixed_no_bar [simp]: "CHR ''|'' \<notin> set (fixed_text p q)"
  by (simp add: fixed_text_def Let_def)

lemma split_row:
  assumes "cells \<noteq> []" and "\<forall>c \<in> set cells. CHR ''|'' \<notin> set c"
  shows "split_on CHR ''|'' ('' '' @ join '' | '' cells @ '' |'') = map (\<lambda>c. '' '' @ c @ '' '') cells @ [[]]"
  using assms
proof (induction cells rule: induct_list012)
  case (3 c1 c2 cs)
  have "CHR ''|'' \<notin> set ('' '' @ c1 @ '' '')" using "3.prems" by simp
  from split_on_append_sep [OF this] "3.IH"(2) "3.prems" show ?case by simp
next
  case (2 c)
  have "CHR ''|'' \<notin> set ('' '' @ c @ '' '')" using "2.prems" by simp
  from split_on_append_sep [OF this, of "[]"] show ?case by simp
qed simp

lemma markdown_row_columns:
  assumes "rc_publisher cfg = publisherInMemory \<or> rc_publisher cfg = publisherKafka"
  shows "split_on CHR ''|'' (markdownRow cfg (bench_texts fl r) r) =
      [] # map (\<lambda>c. '' '' @ c @ '' '')
        [rc_publisher cfg, itoa (rc_workers cfg), itoa (rc_batch cfg), itoa (rc_total_events cfg),
         Duration_String (Duration_Round 1000000 (br_duration r)), fixed_text 1 (throughput fl r) @ ''/s'',
         Duration_String (Duration_Round 1000 (br_avg r)), itoa (int (br_published r)), itoa (int (br_failed r)),
         itoa (int (br_pending r)), itoa (int (br_processing r)), itoa (int (br_duplicate r)), itoa (br_lost r)] @ [[]]"
    and "map length (map (split_on CHR ''|'') (split_on CHR 0x0A markdownHeader @ [markdownRow cfg (bench_texts fl r) r])) =
      [15, 15, 15]"
proof -
  have p: "CHR ''|'' \<notin> set (rc_publisher cfg)" using assms by (auto simp: publisherInMemory_def publisherKafka_def)
  let ?cells = "[rc_publisher cfg, itoa (rc_workers cfg), itoa (rc_batch cfg), itoa (rc_total_events cfg),
     Duration_String (Duration_Round 1000000 (br_duration r)), fixed_text 1 (throughput fl r) @ ''/s'',
     Duration_String (Duration_Round 1000 (br_avg r)), itoa (int (br_published r)), itoa (int (br_failed r)),
     itoa (int (br_pending r)), itoa (int (br_processing r)), itoa (int (br_duplicate r)), itoa (br_lost r)]"
  have row: "markdownRow cfg (bench_texts fl r) r = CHR ''|'' # ('' '' @ join '' | '' ?cells @ '' |'')"
    by (simp add: markdownRow_def bench_texts_def)
  have "split_on CHR ''|'' ('' '' @ join '' | '' ?cells @ '' |'') = map (\<lambda>c. '' '' @ c @ '' '') ?cells @ [[]]"
    by (rule split_row) (simp_all add: p)
  then show s: "split_on CHR ''|'' (markdownRow cfg (bench_texts fl r) r) = [] # map (\<lambda>c. '' '' @ c @ '' '') ?cells @ [[]]"
    unfolding row by simp
  have "map length (map (split_on CHR ''|'') (split_on CHR 0x0A markdownHeader)) = [15, 15]" by code_simp
  then show "map length (map (split_on CHR ''|'') (split_on CHR 0x0A markdownHeader @ [markdownRow cfg (bench_texts fl r) r])) =
      [15, 15, 15]"
    unfolding map_append list.map s by simp
qed

end
