(* ===== verification/Metrics.thy ===== *)
theory Metrics
  imports Kafka
begin

text \<open>
  The construction of the Prometheus collectors (internal/metrics/outbox.go and
  internal/metrics/kafka.go) and their registration by the two programs.  Prometheus itself is an
  argument: \<open>MustRegister\<close> takes a registry and collectors and gives the new registry or panics,
  which is the value \<open>None\<close> here, and \<open>accepts\<close> says whether a vector takes a list of label values
  or \<open>WithLabelValues\<close> panics.  What is asked of Prometheus is what its documentation says, in \<open>registerer_ok\<close> and \<open>labels_ok\<close>.
\<close>

section \<open>The code\<close>

datatype collector_kind = Counter | Gauge | CounterVec | HistogramVec

text \<open>A collector's options; the buckets of a histogram in microseconds.\<close>

record collector =
  co_kind :: collector_kind
  co_name :: string
  co_help :: string
  co_labels :: "string list"
  co_buckets :: "int list"

definition NewCounter :: "string \<Rightarrow> string \<Rightarrow> collector" where
  "NewCounter name help = \<lparr>co_kind = Counter, co_name = name, co_help = help, co_labels = [], co_buckets = []\<rparr>"

definition NewGauge :: "string \<Rightarrow> string \<Rightarrow> collector" where
  "NewGauge name help = \<lparr>co_kind = Gauge, co_name = name, co_help = help, co_labels = [], co_buckets = []\<rparr>"

definition NewCounterVec :: "string \<Rightarrow> string \<Rightarrow> string list \<Rightarrow> collector" where
  "NewCounterVec name help labels =
     \<lparr>co_kind = CounterVec, co_name = name, co_help = help, co_labels = labels, co_buckets = []\<rparr>"

definition NewHistogramVec :: "string \<Rightarrow> string \<Rightarrow> int list \<Rightarrow> string list \<Rightarrow> collector" where
  "NewHistogramVec name help buckets labels =
     \<lparr>co_kind = HistogramVec, co_name = name, co_help = help, co_labels = labels, co_buckets = buckets\<rparr>"

type_synonym 'r registerer = "'r \<Rightarrow> collector list \<Rightarrow> 'r option"

record outbox_metrics =
  om_Published :: collector
  om_Failed :: collector
  om_Closed :: collector
  om_Pending :: collector

definition new_outbox_metrics :: outbox_metrics where
  "new_outbox_metrics =
     \<lparr>om_Published = NewCounter ''outbox_events_published_total''
        ''Total number of outbox events successfully published.'',
      om_Failed = NewCounter ''outbox_events_failed_total''
        ''Total number of outbox event publish failures.'',
      om_Closed = NewCounter ''outbox_events_closed_total''
        ''Total number of outbox events moved to CLOSE.'',
      om_Pending = NewGauge ''outbox_pending_events''
        ''Current number of pending outbox events.''\<rparr>"

definition NewOutboxMetrics :: "'r registerer \<Rightarrow> 'r \<Rightarrow> ('r \<times> outbox_metrics) option" where
  "NewOutboxMetrics MustRegister r =
     (let m = new_outbox_metrics in
      case MustRegister r [om_Published m, om_Failed m, om_Closed m, om_Pending m] of
        None \<Rightarrow> None | Some r' \<Rightarrow> Some (r', m))"

record kafka_collectors =
  kcol_Published :: collector
  kcol_Failed :: collector
  kcol_Duration :: collector

definition new_kafka_collectors :: kafka_collectors where
  "new_kafka_collectors =
     \<lparr>kcol_Published = NewCounterVec ''kafka_publish_total''
        ''Total number of messages acknowledged by Kafka.'' [''topic''],
      kcol_Failed = NewCounterVec ''kafka_publish_failed_total''
        ''Total number of Kafka publish attempts that failed.'' [''topic''],
      kcol_Duration = NewHistogramVec ''kafka_publish_duration_seconds''
        ''Time from handing a message to the producer until Kafka acknowledged or rejected it.''
        [1000, 2500, 5000, 10000, 25000, 50000, 100000, 250000, 500000, 1000000, 2500000, 5000000, 10000000]
        [''topic'', ''status'']\<rparr>"

definition register_kafka_metrics :: "'r registerer \<Rightarrow> 'r \<Rightarrow> ('r \<times> kafka_collectors) option" where
  "register_kafka_metrics MustRegister r =
     (let m = new_kafka_collectors in
      case MustRegister r [kcol_Published m, kcol_Failed m, kcol_Duration m] of
        None \<Rightarrow> None | Some r' \<Rightarrow> Some (r', m))"

text \<open>The API registers both sets in one new registry, which \<open>/metrics\<close> serves; a benchmark run has a
  new registry for each set, that of Kafka only with the Kafka publisher.\<close>

definition api_metrics :: "'r registerer \<Rightarrow> 'r \<Rightarrow> ('r \<times> outbox_metrics \<times> kafka_collectors) option" where
  "api_metrics MustRegister NewRegistry =
     (case NewOutboxMetrics MustRegister NewRegistry of
        None \<Rightarrow> None
      | Some (r, outboxMetrics) \<Rightarrow>
     (case register_kafka_metrics MustRegister r of
        None \<Rightarrow> None
      | Some (r', kafkaMetrics) \<Rightarrow> Some (r', outboxMetrics, kafkaMetrics)))"

definition bench_metrics :: "'r registerer \<Rightarrow> 'r \<Rightarrow> bool \<Rightarrow> (kafka_collectors option \<times> outbox_metrics) option" where
  "bench_metrics MustRegister NewRegistry kafka =
     (case (if kafka then map_option (\<lambda>(_, m). Some m) (register_kafka_metrics MustRegister NewRegistry)
            else Some None) of
        None \<Rightarrow> None
      | Some kafkaMetrics \<Rightarrow>
     (case NewOutboxMetrics MustRegister NewRegistry of
        None \<Rightarrow> None
      | Some (_, outboxMetrics) \<Rightarrow> Some (kafkaMetrics, outboxMetrics)))"

text \<open>The calls of \<open>WithLabelValues\<close> in one \<open>Publish\<close>, by its outcome: a payload that is refused and a
  canceled write touch no vector.\<close>

definition label_calls :: "kafka_collectors \<Rightarrow> string \<Rightarrow> failure \<Rightarrow> (collector \<times> string list) list" where
  "label_calls m topic err =
     (case err of
        None \<Rightarrow> [(kcol_Published m, [topic]), (kcol_Duration m, [topic, KafkaStatusSuccess])]
      | Some e \<Rightarrow>
          if e = Sentinel ErrEmptyPayload \<or> e = Sentinel ErrInvalidPayload \<or> is_ctx_error e then []
          else [(kcol_Failed m, [topic]), (kcol_Duration m, [topic, KafkaStatusFailure])])"

section \<open>What Prometheus promises\<close>

text \<open>Names are letters, digits, underscores and (for collectors) colons, not starting with a digit;
  the names of labels do not start with two underscores and differ.\<close>

definition name_char :: "char \<Rightarrow> bool" where
  "name_char c \<longleftrightarrow> c \<in> set ''abcdefghijklmnopqrstuvwxyzABCDEFGHIJKLMNOPQRSTUVWXYZ_''"

definition digit_char :: "char \<Rightarrow> bool" where
  "digit_char c \<longleftrightarrow> c \<in> set ''0123456789''"

definition metric_name :: "string \<Rightarrow> bool" where
  "metric_name s \<longleftrightarrow> s \<noteq> [] \<and> \<not> digit_char (hd s) \<and> list_all (\<lambda>c. name_char c \<or> digit_char c \<or> c = CHR '':'') s"

definition label_name :: "string \<Rightarrow> bool" where
  "label_name s \<longleftrightarrow> s \<noteq> [] \<and> \<not> digit_char (hd s) \<and> list_all (\<lambda>c. name_char c \<or> digit_char c) s \<and>
     take 2 s \<noteq> ''__''"

definition valid_collector :: "collector \<Rightarrow> bool" where
  "valid_collector c \<longleftrightarrow> metric_name (co_name c) \<and> list_all label_name (co_labels c) \<and> distinct (co_labels c) \<and>
     (co_kind c = HistogramVec \<longrightarrow> sorted_wrt (<) (co_buckets c) \<and> ''le'' \<notin> set (co_labels c))"

text \<open>Valid collectors are taken when their names differ and none is registered, and then all are; a name
  that is registered, or given twice, is a panic.\<close>

definition registerer_ok :: "'r registerer \<Rightarrow> ('r \<Rightarrow> string set) \<Rightarrow> bool" where
  "registerer_ok MustRegister names \<longleftrightarrow>
     (\<forall>r cs. list_all valid_collector cs \<longrightarrow>
        (let free = (distinct (map co_name cs) \<and> co_name ` set cs \<inter> names r = {})
         in case MustRegister r cs of None \<Rightarrow> \<not> free | Some r' \<Rightarrow> free \<and> names r' = co_name ` set cs \<union> names r))"

text \<open>A vector takes as many values as it has labels; ASCII values are always well encoded.\<close>

definition ascii :: "string \<Rightarrow> bool" where
  "ascii = list_all (\<lambda>c. byte c < 128)"

definition labels_ok :: "(collector \<Rightarrow> string list \<Rightarrow> bool) \<Rightarrow> bool" where
  "labels_ok accepts \<longleftrightarrow>
     (\<forall>c vs. length vs = length (co_labels c) \<and> list_all ascii vs \<longrightarrow> accepts c vs)"

section \<open>Lemmas\<close>

lemma MustRegister_cases:
  assumes "registerer_ok MustRegister names" and "list_all valid_collector cs" and "distinct (map co_name cs)"
  shows "co_name ` set cs \<inter> names r = {} \<Longrightarrow>
      \<exists>r'. MustRegister r cs = Some r' \<and> names r' = co_name ` set cs \<union> names r"
    and "co_name ` set cs \<inter> names r \<noteq> {} \<Longrightarrow> MustRegister r cs = None"
proof -
  have "case MustRegister r cs of None \<Rightarrow> co_name ` set cs \<inter> names r \<noteq> {}
      | Some r' \<Rightarrow> co_name ` set cs \<inter> names r = {} \<and> names r' = co_name ` set cs \<union> names r"
    using assms(1) [unfolded registerer_ok_def Let_def, rule_format, OF assms(2), of r] assms(3)
    by (simp split: option.splits)
  then show "co_name ` set cs \<inter> names r = {} \<Longrightarrow>
      \<exists>r'. MustRegister r cs = Some r' \<and> names r' = co_name ` set cs \<union> names r"
    and "co_name ` set cs \<inter> names r \<noteq> {} \<Longrightarrow> MustRegister r cs = None"
    by (simp_all split: option.splits)
qed

lemmas metric_defs = new_outbox_metrics_def new_kafka_collectors_def NewCounter_def NewGauge_def
  NewCounterVec_def NewHistogramVec_def

lemma collectors_valid:
  "list_all valid_collector
     [om_Published new_outbox_metrics, om_Failed new_outbox_metrics, om_Closed new_outbox_metrics,
      om_Pending new_outbox_metrics]"
  "list_all valid_collector
     [kcol_Published new_kafka_collectors, kcol_Failed new_kafka_collectors, kcol_Duration new_kafka_collectors]"
  by code_simp+

definition outbox_names :: "string set" where
  "outbox_names = {''outbox_events_published_total'', ''outbox_events_failed_total'',
     ''outbox_events_closed_total'', ''outbox_pending_events''}"

definition kafka_names :: "string set" where
  "kafka_names = {''kafka_publish_total'', ''kafka_publish_failed_total'', ''kafka_publish_duration_seconds''}"

lemma metric_facts:
  "co_name ` set [om_Published new_outbox_metrics, om_Failed new_outbox_metrics, om_Closed new_outbox_metrics,
      om_Pending new_outbox_metrics] = outbox_names"
  "co_name ` set [kcol_Published new_kafka_collectors, kcol_Failed new_kafka_collectors,
      kcol_Duration new_kafka_collectors] = kafka_names"
  by (simp_all add: metric_defs outbox_names_def kafka_names_def)

lemma metric_names_distinct:
  "distinct (map co_name [om_Published new_outbox_metrics, om_Failed new_outbox_metrics,
      om_Closed new_outbox_metrics, om_Pending new_outbox_metrics])"
  "distinct (map co_name [kcol_Published new_kafka_collectors, kcol_Failed new_kafka_collectors,
      kcol_Duration new_kafka_collectors])"
  by (simp_all add: metric_defs)

lemma NewOutboxMetrics_fresh:
  assumes "registerer_ok MustRegister names" and "outbox_names \<inter> names r = {}"
  shows "\<exists>r'. NewOutboxMetrics MustRegister r = Some (r', new_outbox_metrics) \<and> names r' = outbox_names \<union> names r"
  using MustRegister_cases(1) [OF assms(1) collectors_valid(1) metric_names_distinct(1), of r] assms(2)
  unfolding metric_facts NewOutboxMetrics_def Let_def by auto

lemma NewOutboxMetrics_again:
  assumes "registerer_ok MustRegister names" and "outbox_names \<subseteq> names r"
  shows "NewOutboxMetrics MustRegister r = None"
proof -
  have "outbox_names \<inter> names r \<noteq> {}" using assms(2) by (auto simp: outbox_names_def)
  then show ?thesis
    using MustRegister_cases(2) [OF assms(1) collectors_valid(1) metric_names_distinct(1), of r]
    unfolding metric_facts NewOutboxMetrics_def Let_def by simp
qed

lemma register_kafka_fresh:
  assumes "registerer_ok MustRegister names" and "kafka_names \<inter> names r = {}"
  shows "\<exists>r'. register_kafka_metrics MustRegister r = Some (r', new_kafka_collectors) \<and> names r' = kafka_names \<union> names r"
  using MustRegister_cases(1) [OF assms(1) collectors_valid(2) metric_names_distinct(2), of r] assms(2)
  unfolding metric_facts register_kafka_metrics_def Let_def by auto

lemma api_metrics_fresh:
  assumes "registerer_ok MustRegister names" and "names r = {}"
  shows "\<exists>r'. api_metrics MustRegister r = Some (r', new_outbox_metrics, new_kafka_collectors) \<and>
    names r' = outbox_names \<union> kafka_names"
proof -
  obtain r1 where r1: "NewOutboxMetrics MustRegister r = Some (r1, new_outbox_metrics)" "names r1 = outbox_names"
    using NewOutboxMetrics_fresh [OF assms(1), of r] assms(2) by auto
  have "kafka_names \<inter> names r1 = {}" unfolding r1(2) by (simp add: kafka_names_def outbox_names_def)
  from register_kafka_fresh [OF assms(1) this] r1 show ?thesis by (auto simp: api_metrics_def)
qed

lemma label_calls_accepted:
  assumes "labels_ok accepts" and "ascii topic"
  shows "list_all (\<lambda>(c, vs). accepts c vs) (label_calls new_kafka_collectors topic err)"
proof -
  have "ascii KafkaStatusSuccess" "ascii KafkaStatusFailure" by code_simp+
  then have "accepts (kcol_Published new_kafka_collectors) [topic]" "accepts (kcol_Failed new_kafka_collectors) [topic]"
    "accepts (kcol_Duration new_kafka_collectors) [topic, KafkaStatusSuccess]"
    "accepts (kcol_Duration new_kafka_collectors) [topic, KafkaStatusFailure]"
    using assms by (simp_all add: labels_ok_def metric_defs)
  then show ?thesis by (simp add: label_calls_def split: option.splits)
qed

text \<open>A registry as the association of names with collectors.\<close>

definition plain_registry :: "(string \<times> collector) list registerer" where
  "plain_registry r cs =
     (if distinct (map co_name cs) \<and> list_all (\<lambda>c. co_name c \<notin> set (map fst r)) cs
      then Some (map (\<lambda>c. (co_name c, c)) cs @ r) else None)"

lemma plain_registry_ok: "registerer_ok plain_registry (\<lambda>r. set (map fst r))"
  by (auto simp: registerer_ok_def plain_registry_def list_all_iff Let_def image_Un image_image)

section \<open>The property\<close>

text \<open>C40: the metrics never panic.  Whatever Prometheus registry keeps the documented contract, the
  API's construction of both sets in one new registry succeeds and leaves exactly the seven names
  in it; the benchmark's, with a new registry for each set, succeeds for either publisher; a
  second set of outbox metrics in the same registry would panic; and every \<open>WithLabelValues\<close> call
  of the Kafka publisher, whatever its outcome, passes values its vector accepts.\<close>

theorem metrics_never_panic:
  assumes "registerer_ok MustRegister names" and "names NewRegistry = {}" and "labels_ok accepts" and "ascii topic"
  shows "\<exists>r m k. api_metrics MustRegister NewRegistry = Some (r, m, k) \<and>
      names r = {''outbox_events_published_total'', ''outbox_events_failed_total'',
        ''outbox_events_closed_total'', ''outbox_pending_events'', ''kafka_publish_total'',
        ''kafka_publish_failed_total'', ''kafka_publish_duration_seconds''} \<and>
      NewOutboxMetrics MustRegister r = None \<and>
      (\<forall>kafka. bench_metrics MustRegister NewRegistry kafka = Some (if kafka then Some k else None, m)) \<and>
      (\<forall>err. list_all (\<lambda>(c, vs). accepts c vs) (label_calls k topic err))"
proof -
  obtain r where r: "api_metrics MustRegister NewRegistry = Some (r, new_outbox_metrics, new_kafka_collectors)"
    "names r = outbox_names \<union> kafka_names"
    using api_metrics_fresh [OF assms(1,2)] by blast
  have "names r = {''outbox_events_published_total'', ''outbox_events_failed_total'',
      ''outbox_events_closed_total'', ''outbox_pending_events'', ''kafka_publish_total'',
      ''kafka_publish_failed_total'', ''kafka_publish_duration_seconds''}"
    unfolding r(2) outbox_names_def kafka_names_def by (simp only: Un_insert_left Un_empty_left)
  moreover have "NewOutboxMetrics MustRegister r = None" by (rule NewOutboxMetrics_again [OF assms(1)]) (simp add: r(2))
  moreover have "bench_metrics MustRegister NewRegistry kafka =
      Some (if kafka then Some new_kafka_collectors else None, new_outbox_metrics)" for kafka
    using NewOutboxMetrics_fresh [OF assms(1), of NewRegistry] register_kafka_fresh [OF assms(1), of NewRegistry] assms(2)
    by (auto simp: bench_metrics_def)
  ultimately show ?thesis using r(1) label_calls_accepted [OF assms(3,4)] by blast
qed

theorem metrics_never_panic_witness:
  "\<exists>r m k. api_metrics plain_registry [] = Some (r, m, k) \<and> NewOutboxMetrics plain_registry r = None \<and>
    list_all (\<lambda>(c, vs). length vs = length (co_labels c)) (label_calls k ''eventflow.events'' None)"
proof -
  have "labels_ok (\<lambda>c vs. length vs = length (co_labels c))" by (simp add: labels_ok_def)
  moreover have "ascii ''eventflow.events''" by code_simp
  ultimately show ?thesis
    using metrics_never_panic [OF plain_registry_ok, of "[]" "\<lambda>c vs. length vs = length (co_labels c)" "''eventflow.events''"]
    by auto
qed

end
