(* ===== verification/Spec2Isabelle.thy ===== *)
theory Spec2Isabelle
  imports Api_Delivery Api_Exit Bench_Process Bench_Report Metrics
begin

text \<open>
  A verification development of eventflow-go, an event ingestion service with a transactional
  outbox.

  \<^bold>\<open>The program.\<close>  A client posts an event to the HTTP API.  The request is bound and
  copied into a command (internal/transport/http), the command is checked, first by itself, then
  against the schema of its event type and version (internal/event/application, internal/event/domain),
  and the event is saved together with an outbox row in one transaction
  (internal/platform/postgres/event_repository.go).  A number of workers
  (internal/event/application/outbox_worker.go) poll the outbox: each claims a batch of pending rows,
  publishes their events, to Kafka (internal/platform/kafka/publisher.go) or to the log, and marks the
  rows PUBLISHED, back to PENDING with a delay, or CLOSE when the attempts are used up; rows claimed
  too long ago are taken back.  The process (cmd/api/main.go) reads its configuration, migrates the
  database, wires these parts and shuts them down; a second command (cmd/outboxbench/main.go)
  measures the workers and reports lost and duplicate deliveries.

  \<^bold>\<open>Theories and sources.\<close>
  \<^item> Prelude, Go_Errors, Go_Strings, Go_Time: tables and their SQL statements; Go's error values
    with \<open>errors.Is\<close> over wrapped errors; the string and decimal functions and the time format
    of the standard library that the program uses.
  \<^item> Domain: internal/event/domain and the three schemas; events, outbox rows, dynamic values, the
    registry.  Validation: validator.go.
  \<^item> Json, Json_Valid: \<open>json.Marshal\<close> of the properties and \<open>json.Valid\<close>, and that the one
    writes what the other accepts.
  \<^item> Store, Outbox_Store, Postgres: event_repository.go, outbox_repository.go, postgres.go and
    migration.go.  The database is a record of two tables; each operation takes a \<open>db_call\<close>
    that says how the calls to Postgres go, so that every error path is a branch.
  \<^item> Ingest: ingest.go.  Http: internal/transport/http with its two middlewares.
  \<^item> Publishers, Kafka, Kafka_Admin: the \<open>EventPublisher\<close> interface, the log publisher,
    failing_publisher.go, publisher.go with internal/metrics/kafka.go, and admin.go.
    Metrics: the collectors of internal/metrics and their registration by both programs.
  \<^item> Retry_Delay: retry.go on signed 64-bit words.
  \<^item> Worker: \<open>reclaimStale\<close> and \<open>process\<close> of outbox_worker.go, one tick as a state
    transformer; Worker_Correct and Worker_Runs hold what a tick and a sequence of ticks do.
    Lifecycle: the state cell with its compare-and-swap loop, and \<open>Run\<close> with its watcher as a
    step relation.
  \<^item> Cluster, Cluster_Timely: any number of workers, the API, crashes and the clock over one database,
    as a step relation whose steps are the database calls and the publishes.  Cluster_Ticks ties it
    to the code of a tick: each tick is a run of these steps.
  \<^item> Config: config.go.  Service: the router and the workers together.  Bench, Bench_Correct,
    Bench_Report: cmd/outboxbench/main.go.  Api_Main: cmd/api/main.go.
  \<^item> Crew: the workers a command starts, the two goroutines of each \<open>Run\<close> (the control steps
    \<open>ctl_step\<close> of Lifecycle) and its ticks (\<open>tick_step\<close>, the steps of Cluster in the order of the
    tick's code), all interleaved.  Api_Process: the API process as a step relation, the main
    goroutine from the signal to its exit and the handlers beside the crew; Api_Delivery: what it
    delivers, from \<open>api_start\<close> to its exit; Api_Exit: that it can always come to an orderly end.  Bench_Process: a benchmark run, the polling main goroutine beside
    the crew.

  \<^bold>\<open>Interfaces.\<close>  The locales are the contracts by which the components know each other:
  \<open>schema_registry\<close> and \<open>event_repository\<close> for the ingestor, \<open>event_publisher\<close>,
  extended by \<open>wrapped_publisher\<close> for the injector, \<open>counting_publisher\<close> for the
  benchmark, and \<open>outbox_worker\<close>, a worker over any publisher that keeps its contract.  Each
  is interpreted on the model of the code that provides it; the workers' theorems are proved once
  and hold of the log publisher, of Kafka, of both behind the injector, and of the chains of the
  API and of the benchmark.

  \<^bold>\<open>What is shown.\<close>
  \<^item> Ingestion: saving is all or nothing; requests are idempotent by event identifier over every
    continuation of the service (\<open>ingest_idempotent\<close>, in Service); over any run at
    most one request per identifier is answered created; what each HTTP status says of the database;
    the two answers that mislead the client.
  \<^item> Publication: a row reads PUBLISHED only if its event was delivered, no row and no event is ever
    lost, and every accepted event is publishable, in every interleaving of workers, requests,
    crashes, lost acknowledgements and failing calls; from there the end-to-end statements over the
    service and over the runs of the process that \<open>api_start\<close> builds.
  \<^item> Exclusiveness: the two steps of a claim refine one atomic claim; while workers keep the stale
    timeout no event is in two hands and the attempts are bounded; past it a late mark ends the
    claim of another worker, in every state in which both have failed to publish the event.
  \<^item> One tick and many: a functional specification of a tick on an answering database; healthy ticks
    drain the queue; a tick stops in its batch exactly at a context error and leaves the rest claimed; every repository operation
    refines the life cycle of a row.
  \<^item> Shutdown: \<open>Run\<close> stops in an orderly way in every interleaving with its watcher and can
    always return; the process stops within a bound that the time of the closes is added to.  Every
    run of the process is a run of the service up to the close of the publisher and again after it
    (\<open>process_refines_service\<close>), so the statements on delivery hold up to its exit;
    after the signal at most one claim per worker is sent; when the workers have returned, nothing
    is published any more; from every state an orderly end can be reached; and whenever a worker is
    inside a batch, the wait for the workers can run out under it, and the Kafka publisher of any
    configuration is then called after its close.
  \<^item> The rest: backoff bounds without overflow, the validator against its declarative reading, the
    configuration's round trip and guarantees, the Kafka counters, the registration of the metrics
    without a panic, waiting for a topic, migrations as
    prefixes, the truth of the benchmark's figures from its flags to its last line.

  \<^bold>\<open>Bounds and fuel.\<close>  The JSON scanner takes twice the length of its text and two as fuel,
  which \<open>json_scan_terminates\<close> shows to be enough, and Go's nesting limit of 10000.
  The escaper of strings takes the length of its text.  \<open>advanceState\<close>, \<open>wait_loop\<close> and
  \<open>drain_loop\<close> are loops that need not end by themselves: the first takes the values it meets
  as a list, the others are partial functions; each is proved to end under the condition its theorem
  states.  Durations and instants are unbounded integers of nanoseconds except in Retry_Delay, where
  the machine arithmetic matters.

  \<^bold>\<open>Parameters.\<close>  Third-party code is an argument: pgx and the server's choice of failures, kafka-go's
  writer and client, the Prometheus registry, gin with the decoding of bodies, UUID texts, the file system.  So are
  \<open>time.ParseDuration\<close>, \<open>strconv.ParseFloat\<close>, the rounding of floats and their shortest texts, and every random
  draw; and what the close of the Kafka writer makes of the writer.  The hypotheses on them (\<open>trusted\<close>, \<open>sound_columns\<close>, \<open>infra_call\<close>,
  \<open>json_texts\<close>, \<open>decoder_depth\<close>, \<open>registerer_ok\<close>, \<open>labels_ok\<close>) state their documented behaviour: errors of the driver are
  not the program's sentinels, a column gives back what was stored, texts of identifiers
  and numbers are well formed, the decoder bounds nesting, a registry refuses a name twice.

  \<^bold>\<open>Not modelled.\<close>  The construction of the slog loggers (internal/platform/logger).  The
  values of the Prometheus collectors: the counters are fields of the models.  Log lines, except
  those of the shutdown, the warnings of the startup and the request log.  The listening socket,
  signals, the bytes of responses and the page of /metrics.  The progress
  lines of the benchmark and the parsing of its flags.  The mutexes: each guarded call is one step.
\<close>

end
